(* ===== verification/Prelude.thy ===== *)
theory Prelude
  imports Main "HOL-Library.Word"
begin

text \<open>
  Shared vocabulary of the development: the machine types of the Rust sources, results as sums,
  big-endian words, decimal printing and parsing, ASCII case, prefix stripping, and the generic lemmas on
  lists and maps that the component theories use.

  \<^item> A Rust \<open>Result<T, E>\<close> is a sum \<open>'e + 'a\<close>; \<open>Err\<close> and \<open>Ok\<close> abbreviate the injections.
  \<^item> \<open>u8\<close>, \<open>u32\<close> are words, \<open>i64\<close> is a 64-bit word read with \<open>sint\<close>; \<open>usize\<close> lengths are \<open>nat\<close>.
  \<^item> A \<open>String\<close> is its list of bytes as a HOL \<open>string\<close>; a \<open>Vec<u8>\<close> is a list of 8-bit words.
\<close>

unbundle bit_operations_syntax

named_theorems wire_simps "unfolding rules of the frame layer"
named_theorems ctx_simps "unfolding rules of the connection pipeline"
named_theorems frame_rules "what an operation leaves unchanged"

type_synonym u8 = "8 word"
type_synonym u32 = "32 word"
type_synonym i64 = "64 word"
type_synonym bytes = "u8 list"

subsection \<open>Results\<close>

abbreviation Ok :: "'a \<Rightarrow> 'e + 'a" where "Ok \<equiv> Inr"
abbreviation Err :: "'e \<Rightarrow> 'e + 'a" where "Err \<equiv> Inl"

fun rbind :: "'e + 'a \<Rightarrow> ('a \<Rightarrow> 'e + 'b) \<Rightarrow> 'e + 'b" where
  "rbind (Inl e) f = Inl e"
| "rbind (Inr x) f = f x"

fun map_err :: "('e \<Rightarrow> 'f) \<Rightarrow> 'e + 'a \<Rightarrow> 'f + 'a" where
  "map_err g (Inl e) = Inl (g e)"
| "map_err g (Inr x) = Inr x"

fun is_ok :: "'e + 'a \<Rightarrow> bool" where
  "is_ok (Inl e) = False"
| "is_ok (Inr x) = True"

lemma rbind_Ok_iff: "rbind r f = Ok y \<longleftrightarrow> (\<exists>x. r = Ok x \<and> f x = Ok y)"
  by (cases r) auto

lemma rbind_Err_iff: "rbind r f = Err e \<longleftrightarrow> r = Err e \<or> (\<exists>x. r = Ok x \<and> f x = Err e)"
  by (cases r) auto

lemma rbind_assoc: "rbind (rbind r f) g = rbind r (\<lambda>x. rbind (f x) g)"
  by (cases r) simp_all

lemma map_err_Ok_iff [simp]: "map_err g r = Ok x \<longleftrightarrow> r = Ok x"
  by (cases r) auto

lemma map_err_Err_iff: "map_err g r = Err e \<longleftrightarrow> (\<exists>e'. r = Err e' \<and> e = g e')"
  by (cases r) auto

lemma is_ok_iff: "is_ok r \<longleftrightarrow> (\<exists>x. r = Ok x)"
  by (cases r) auto

lemma not_is_ok_iff: "\<not> is_ok r \<longleftrightarrow> (\<exists>e. r = Err e)"
  by (cases r) auto

subsection \<open>Big-endian words\<close>

definition be_write_u32 :: "u32 \<Rightarrow> bytes" where
  "be_write_u32 w = [ucast (drop_bit 24 w), ucast (drop_bit 16 w), ucast (drop_bit 8 w), ucast w]"

definition be_read_u32 :: "u8 \<Rightarrow> u8 \<Rightarrow> u8 \<Rightarrow> u8 \<Rightarrow> u32" where
  "be_read_u32 a b c d =
     push_bit 24 (ucast a) OR push_bit 16 (ucast b) OR push_bit 8 (ucast c) OR ucast d"

lemma length_be_write_u32 [simp]: "length (be_write_u32 w) = 4"
  by (simp add: be_write_u32_def)

lemma be_read_write_u32:
  "be_read_u32 (ucast (drop_bit 24 w)) (ucast (drop_bit 16 w)) (ucast (drop_bit 8 w)) (ucast w) = w"
proof (rule bit_word_eqI)
  fix n
  assume "n < LENGTH(32)"
  then consider "n < 8" | "8 \<le> n" "n < 16" | "16 \<le> n" "n < 24" | "24 \<le> n" "n < 32"
    by fastforce
  then show "bit (be_read_u32 (ucast (drop_bit 24 w)) (ucast (drop_bit 16 w))
               (ucast (drop_bit 8 w)) (ucast w)) n = bit w n"
    by cases (auto simp: be_read_u32_def bit_simps)
qed

lemma be_write_read_u32: "be_write_u32 (be_read_u32 a b c d) = [a, b, c, d]"
proof -
  have "ucast (drop_bit 24 (be_read_u32 a b c d)) = a"
    by (rule bit_word_eqI) (auto simp: be_read_u32_def bit_simps dest: bit_imp_le_length)
  moreover have "ucast (drop_bit 16 (be_read_u32 a b c d)) = b"
    by (rule bit_word_eqI) (auto simp: be_read_u32_def bit_simps dest: bit_imp_le_length)
  moreover have "ucast (drop_bit 8 (be_read_u32 a b c d)) = c"
    by (rule bit_word_eqI) (auto simp: be_read_u32_def bit_simps dest: bit_imp_le_length)
  moreover have "ucast (be_read_u32 a b c d) = d"
    by (rule bit_word_eqI) (auto simp: be_read_u32_def bit_simps dest: bit_imp_le_length)
  ultimately show ?thesis
    by (simp add: be_write_u32_def)
qed

lemma of_nat_u32_unat [simp]: "n < 2 ^ 32 \<Longrightarrow> unat (of_nat n :: u32) = n"
  by (simp add: unat_of_nat take_bit_nat_eq_self)

subsection \<open>Decimal numbers\<close>

definition digit_char :: "nat \<Rightarrow> char" where
  "digit_char d = char_of (48 + d)"

fun show_nat :: "nat \<Rightarrow> string" where
  "show_nat n = (if n < 10 then [digit_char n] else show_nat (n div 10) @ [digit_char (n mod 10)])"

declare show_nat.simps [simp del]

definition is_digit :: "char \<Rightarrow> bool" where
  "is_digit c \<longleftrightarrow> (48 :: nat) \<le> of_char c \<and> of_char c \<le> (57 :: nat)"

definition digit_val :: "char \<Rightarrow> nat" where
  "digit_val c = of_char c - 48"

definition read_digits :: "string \<Rightarrow> nat" where
  "read_digits s = foldl (\<lambda>acc c. 10 * acc + digit_val c) 0 s"

lemma of_char_digit_char: "d < 10 \<Longrightarrow> of_char (digit_char d) = 48 + d"
  by (simp add: digit_char_def)

lemma digit_char_props:
  assumes "d < 10"
  shows "is_digit (digit_char d)" "digit_val (digit_char d) = d"
  using of_char_digit_char [OF assms] assms by (simp_all add: is_digit_def digit_val_def)

lemma show_nat_nonempty: "show_nat n \<noteq> []"
  by (subst show_nat.simps) simp

lemma show_nat_digits: "\<forall>c \<in> set (show_nat n). is_digit c"
proof (induction n rule: show_nat.induct)
  case (1 n)
  then show ?case
    by (cases "n < 10") (auto simp: show_nat.simps [of n] digit_char_props)
qed

lemma read_digits_append: "read_digits (s @ [c]) = 10 * read_digits s + digit_val c"
  by (simp add: read_digits_def)

lemma read_show_nat: "read_digits (show_nat n) = n"
proof (induction n rule: show_nat.induct)
  case (1 n)
  show ?case
  proof (cases "n < 10")
    case True
    then show ?thesis
      by (simp add: show_nat.simps [of n] read_digits_def digit_char_props)
  next
    case False
    with "1.IH" show ?thesis
      by (simp add: show_nat.simps [of n] read_digits_append digit_char_props)
  qed
qed

lemma show_nat_inj: "show_nat m = show_nat n \<longleftrightarrow> m = n"
  by (metis read_show_nat)

subsection \<open>ASCII letters\<close>

definition is_upper :: "char \<Rightarrow> bool" where
  "is_upper c \<longleftrightarrow> (65 :: nat) \<le> of_char c \<and> of_char c \<le> (90 :: nat)"

definition is_lower :: "char \<Rightarrow> bool" where
  "is_lower c \<longleftrightarrow> (97 :: nat) \<le> of_char c \<and> of_char c \<le> (122 :: nat)"

definition lower_char :: "char \<Rightarrow> char" where
  "lower_char c = (if is_upper c then char_of ((of_char c :: nat) + 32) else c)"

definition upper_char :: "char \<Rightarrow> char" where
  "upper_char c = (if is_lower c then char_of ((of_char c :: nat) - 32) else c)"

text \<open>Character classes are evaluated on integers, in binary.\<close>

lemma ascii_code [code]:
  "is_upper c \<longleftrightarrow> (65 :: int) \<le> of_char c \<and> of_char c \<le> (90 :: int)"
  "is_lower c \<longleftrightarrow> (97 :: int) \<le> of_char c \<and> of_char c \<le> (122 :: int)"
  "is_digit c \<longleftrightarrow> (48 :: int) \<le> of_char c \<and> of_char c \<le> (57 :: int)"
  unfolding is_upper_def is_lower_def is_digit_def
  using of_nat_of_char [where 'a = int, of c] by auto

abbreviation to_lowercase :: "string \<Rightarrow> string" where "to_lowercase \<equiv> map lower_char"
abbreviation to_uppercase :: "string \<Rightarrow> string" where "to_uppercase \<equiv> map upper_char"

subsection \<open>Prefixes and splitting\<close>

text \<open>\<open>str::strip_prefix\<close>.\<close>

fun strip_prefix :: "'a list \<Rightarrow> 'a list \<Rightarrow> 'a list option" where
  "strip_prefix [] s = Some s"
| "strip_prefix (p # ps) [] = None"
| "strip_prefix (p # ps) (c # cs) = (if p = c then strip_prefix ps cs else None)"

lemma strip_prefix_Some: "strip_prefix p s = Some r \<longleftrightarrow> s = p @ r"
  by (induction p s rule: strip_prefix.induct) auto

lemma strip_prefix_append [simp]: "strip_prefix p (p @ r) = Some r"
  by (simp add: strip_prefix_Some)

lemma strip_prefix_None: "strip_prefix p s = None \<longleftrightarrow> (\<nexists>r. s = p @ r)"
  by (metis strip_prefix_Some not_None_eq)

text \<open>\<open>str::split(sep).collect()\<close>: always at least one piece.\<close>

fun split_on :: "'a \<Rightarrow> 'a list \<Rightarrow> 'a list list" where
  "split_on x [] = [[]]"
| "split_on x (c # cs) =
     (if c = x then [] # split_on x cs
      else case split_on x cs of [] \<Rightarrow> [[c]] | p # ps \<Rightarrow> (c # p) # ps)"

lemma split_on_nonempty: "split_on x s \<noteq> []"
  by (induction x s rule: split_on.induct) (auto split: list.splits)

lemma split_on_no_sep: "x \<notin> set s \<Longrightarrow> split_on x s = [s]"
  by (induction x s rule: split_on.induct) auto

lemma split_on_append: "x \<notin> set s \<Longrightarrow> split_on x (s @ x # t) = s # split_on x t"
  by (induction s) auto

lemma split_on_append_sep: "split_on x (s @ x # t) = split_on x s @ split_on x t"
  using split_on_nonempty [of x] by (induction s) (auto split: list.splits)

lemma split_on_pieces: "p \<in> set (split_on x s) \<Longrightarrow> x \<notin> set p"
proof (induction x s arbitrary: p rule: split_on.induct)
  case (1 x)
  then show ?case by simp
next
  case (2 x c cs)
  then show ?case
    by (cases "c = x") (force split: list.splits)+
qed

lemma length_split_on: "length (split_on x s) = Suc (count_list s x)"
  by (induction x s rule: split_on.induct) (auto split: list.splits)

subsection \<open>Lists and maps\<close>

lemma take_append_drop_min: "take (min a (length xs)) xs @ drop (min a (length xs)) xs = xs"
  by simp

lemma map_upd_None_None [simp]: "(m(k := None)) k = None"
  by simp

lemma finite_dom_upd [simp]: "finite (dom m) \<Longrightarrow> finite (dom (m(k := v)))"
  by (cases v) simp_all

text \<open>
  An iteration order of a map: \<open>HashMap\<close> iteration visits every entry once, in an order of its own.
\<close>

definition enumerates :: "('k \<times> 'v) list \<Rightarrow> ('k \<rightharpoonup> 'v) \<Rightarrow> bool" where
  "enumerates kvs m \<longleftrightarrow> distinct (map fst kvs) \<and> map_of kvs = m"

lemma enumerates_in: "enumerates kvs m \<Longrightarrow> (k, v) \<in> set kvs \<longleftrightarrow> m k = Some v"
  by (auto simp: enumerates_def)

end
