(* ===== verification/Wire.thy ===== *)
theory Wire
  imports Prelude
begin

text \<open>
  The wire layer of \<open>src/src/proto.rs\<close> and \<open>src/src/error.rs\<close>: the protobuf envelope types of
  \<open>ttrpc.proto\<close> as records, the crate's error type, the ten-byte frame header with its encoder and
  decoder, frames with untyped and typed payloads, and the size limit.

  The protobuf runtime is not part of the repository: a message type's codec (the \<open>Codec\<close> trait)
  is a record of functions that every definition needing it takes as an argument. Likewise the
  \<open>Debug\<close>/\<open>Display\<close> texts produced outside the crate are the fields of \<open>display\<close>.
\<close>

subsection \<open>Envelope messages (ttrpc.proto)\<close>

datatype code =
    OK | CANCELLED | UNKNOWN | INVALID_ARGUMENT | DEADLINE_EXCEEDED | NOT_FOUND | ALREADY_EXISTS
  | PERMISSION_DENIED | RESOURCE_EXHAUSTED | FAILED_PRECONDITION | ABORTED | OUT_OF_RANGE
  | UNIMPLEMENTED | INTERNAL | UNAVAILABLE | DATA_LOSS | UNAUTHENTICATED

text \<open>The enum's wire numbers, as in the schema.\<close>

fun code_num :: "code \<Rightarrow> int" where
  "code_num OK = 0"
| "code_num CANCELLED = 1"
| "code_num UNKNOWN = 2"
| "code_num INVALID_ARGUMENT = 3"
| "code_num DEADLINE_EXCEEDED = 4"
| "code_num NOT_FOUND = 5"
| "code_num ALREADY_EXISTS = 6"
| "code_num PERMISSION_DENIED = 7"
| "code_num RESOURCE_EXHAUSTED = 8"
| "code_num FAILED_PRECONDITION = 9"
| "code_num ABORTED = 10"
| "code_num OUT_OF_RANGE = 11"
| "code_num UNIMPLEMENTED = 12"
| "code_num INTERNAL = 13"
| "code_num UNAVAILABLE = 14"
| "code_num DATA_LOSS = 15"
| "code_num UNAUTHENTICATED = 16"

record any_msg =
  type_url :: string
  any_value :: bytes

record status =
  st_code :: code
  st_message :: string
  st_details :: "any_msg list"

record key_value =
  key :: string
  kv_value :: string

record request =
  req_service :: string
  req_method :: string
  req_payload :: bytes
  timeout_nano :: i64
  metadata :: "key_value list"

record response =
  resp_status :: "status option"
  resp_payload :: bytes

subsection \<open>Errors (error.rs)\<close>

datatype error =
    Socket string
  | RpcStatus status
  | Nix int
  | Windows int
  | LocalClosed
  | RemoteClosed
  | Eof
  | Others string

text \<open>Texts printed by code outside the crate.\<close>

record display =
  dbg_status :: "status \<Rightarrow> string"
  disp_nix :: "int \<Rightarrow> string"
  dbg_error :: "error \<Rightarrow> string"

definition show_int :: "int \<Rightarrow> string" where
  "show_int i = (if i < 0 then ''-'' @ show_nat (nat (- i)) else show_nat (nat i))"

text \<open>The \<open>#[error(...)]\<close> attributes: what \<open>to_string()\<close> gives.\<close>

fun error_to_string :: "display \<Rightarrow> error \<Rightarrow> string" where
  "error_to_string d (Socket s) = ''socket err: '' @ s"
| "error_to_string d (RpcStatus st) = ''rpc status: '' @ dbg_status d st"
| "error_to_string d (Nix n) = ''Nix error: '' @ disp_nix d n"
| "error_to_string d (Windows n) = ''Windows error: '' @ show_int n"
| "error_to_string d LocalClosed = ''ttrpc err: local stream closed''"
| "error_to_string d RemoteClosed = ''ttrpc err: remote stream closed''"
| "error_to_string d Eof = ''eof''"
| "error_to_string d (Others s) = ''ttrpc err: '' @ s"

text \<open>A concrete choice of the texts, for evaluation on examples.\<close>

definition plain_display :: display where
  "plain_display = \<lparr>dbg_status = st_message, disp_nix = show_int, dbg_error = (\<lambda>e. ''error'')\<rparr>"

text \<open>\<open>err_to_others_err!(e, s)\<close> applied to an error text.\<close>

definition err_to_others :: "string \<Rightarrow> string \<Rightarrow> error" where
  "err_to_others s e = Others (s @ e)"

definition get_status :: "code \<Rightarrow> string \<Rightarrow> status" where
  "get_status c msg = \<lparr>st_code = c, st_message = msg, st_details = []\<rparr>"

definition get_rpc_status :: "code \<Rightarrow> string \<Rightarrow> error" where
  "get_rpc_status c msg = RpcStatus (get_status c msg)"

definition SOCK_DICONNECTED :: string where
  "SOCK_DICONNECTED = ''socket disconnected''"

definition sock_error_msg :: "nat \<Rightarrow> string \<Rightarrow> error" where
  "sock_error_msg sz msg =
     (if sz = 0 then Socket SOCK_DICONNECTED else get_rpc_status INVALID_ARGUMENT msg)"

subsection \<open>Request and response builders\<close>

definition request_default :: request where
  "request_default = \<lparr>req_service = [], req_method = [], req_payload = [], timeout_nano = 0, metadata = []\<rparr>"

definition response_default :: response where
  "response_default = \<lparr>resp_status = None, resp_payload = []\<rparr>"

definition init_request :: "string \<Rightarrow> string \<Rightarrow> i64 \<Rightarrow> key_value list \<Rightarrow> request" where
  "init_request srv meth tmo md =
     request_default\<lparr>req_service := srv, req_method := meth, timeout_nano := tmo, metadata := md\<rparr>"

definition request_set_payload :: "bytes \<Rightarrow> request \<Rightarrow> request" where
  "request_set_payload p r = r\<lparr>req_payload := p\<rparr>"

definition response_set_status :: "status \<Rightarrow> response \<Rightarrow> response" where
  "response_set_status s r = r\<lparr>resp_status := Some s\<rparr>"

definition init_status :: "status \<Rightarrow> response" where
  "init_status s = response_set_status s response_default"

definition response_set_payload :: "bytes \<Rightarrow> response \<Rightarrow> response" where
  "response_set_payload p r = r\<lparr>resp_payload := p\<rparr>"

text \<open>
  \<open>non_ok\<close> of the rust-protobuf backend: \<open>self.status()\<close> is the default status (code \<open>OK\<close>)
  when the field is absent.
\<close>

definition non_ok :: "response \<Rightarrow> status option" where
  "non_ok r =
     (let s = (case resp_status r of None \<Rightarrow> get_status OK [] | Some s \<Rightarrow> s)
      in if st_code s \<noteq> OK then Some s else None)"

text \<open>\<open>non_ok\<close> of the Prost backend: filter the optional status by its numeric code.\<close>

definition non_ok_prost :: "response \<Rightarrow> status option" where
  "non_ok_prost r =
     (case resp_status r of
        None \<Rightarrow> None
      | Some s \<Rightarrow> if code_num (st_code s) \<noteq> code_num OK then Some s else None)"

definition response_of_error :: "display \<Rightarrow> error \<Rightarrow> response" where
  "response_of_error d e =
     (let st = (case e of RpcStatus stat \<Rightarrow> stat | _ \<Rightarrow> get_status UNKNOWN (error_to_string d e))
      in response_set_status st response_default)"

lemma code_num_OK_iff: "code_num c = 0 \<longleftrightarrow> c = OK"
  by (cases c) auto

lemma non_ok_prost_eq: "non_ok_prost r = non_ok r"
  by (auto simp: non_ok_def non_ok_prost_def code_num_OK_iff get_status_def split: option.splits)

lemma non_ok_Some_iff: "non_ok r = Some s \<longleftrightarrow> resp_status r = Some s \<and> st_code s \<noteq> OK"
  by (auto simp: non_ok_def get_status_def Let_def split: option.splits)

subsection \<open>Constants and the size limit (proto.rs)\<close>

definition MESSAGE_HEADER_LENGTH :: nat where "MESSAGE_HEADER_LENGTH = 10"
definition MESSAGE_LENGTH_MAX :: nat where "MESSAGE_LENGTH_MAX = push_bit 20 4"
definition DEFAULT_PAGE_SIZE :: nat where "DEFAULT_PAGE_SIZE = push_bit 10 4"

definition MESSAGE_TYPE_REQUEST :: u8 where "MESSAGE_TYPE_REQUEST = 1"
definition MESSAGE_TYPE_RESPONSE :: u8 where "MESSAGE_TYPE_RESPONSE = 2"
definition MESSAGE_TYPE_DATA :: u8 where "MESSAGE_TYPE_DATA = 3"

definition FLAG_REMOTE_CLOSED :: u8 where "FLAG_REMOTE_CLOSED = 1"
definition FLAG_REMOTE_OPEN :: u8 where "FLAG_REMOTE_OPEN = 2"
definition FLAG_NO_DATA :: u8 where "FLAG_NO_DATA = 4"

lemmas message_types = MESSAGE_TYPE_REQUEST_def MESSAGE_TYPE_RESPONSE_def MESSAGE_TYPE_DATA_def
lemmas message_flags = FLAG_REMOTE_CLOSED_def FLAG_REMOTE_OPEN_def FLAG_NO_DATA_def

lemma size_constants [simp]:
  "MESSAGE_HEADER_LENGTH = 10" "MESSAGE_LENGTH_MAX = 4194304" "DEFAULT_PAGE_SIZE = 4096"
  by (simp_all add: MESSAGE_HEADER_LENGTH_def MESSAGE_LENGTH_MAX_def DEFAULT_PAGE_SIZE_def
      push_bit_eq_mult)

text \<open>\<open>(flags & f) == f\<close>.\<close>

definition has_flag :: "u8 \<Rightarrow> u8 \<Rightarrow> bool" where
  "has_flag fl f \<longleftrightarrow> fl AND f = f"

lemma has_flag_or: "has_flag (a OR f) f"
  by (simp add: has_flag_def bit_eq_iff bit_simps)

definition check_oversize :: "nat \<Rightarrow> bool \<Rightarrow> error + unit" where
  "check_oversize len return_rpc_error =
     (if len > MESSAGE_LENGTH_MAX then
        let msg = ''message length '' @ show_nat len @ '' exceed maximum message size of ''
                    @ show_nat MESSAGE_LENGTH_MAX;
            e = (if return_rpc_error then get_rpc_status INVALID_ARGUMENT msg else Others msg)
        in Err e
      else Ok ())"

lemma check_oversize_ok [simp]: "check_oversize len b = Ok u \<longleftrightarrow> len \<le> MESSAGE_LENGTH_MAX"
  by (auto simp: check_oversize_def Let_def)

lemma check_oversize_le [simp]: "len \<le> MESSAGE_LENGTH_MAX \<Longrightarrow> check_oversize len b = Ok ()"
  by (simp add: check_oversize_def)

lemma check_oversize_is_ok [simp]: "is_ok (check_oversize len b) \<longleftrightarrow> len \<le> MESSAGE_LENGTH_MAX"
  by (auto simp: check_oversize_def Let_def)

subsection \<open>The frame header\<close>

record message_header =
  mh_length :: u32
  stream_id :: u32
  mh_type :: u8
  flags :: u8

definition header_new_request :: "u32 \<Rightarrow> u32 \<Rightarrow> message_header" where
  "header_new_request sid len =
     \<lparr>mh_length = len, stream_id = sid, mh_type = MESSAGE_TYPE_REQUEST, flags = 0\<rparr>"

definition header_new_response :: "u32 \<Rightarrow> u32 \<Rightarrow> message_header" where
  "header_new_response sid len =
     \<lparr>mh_length = len, stream_id = sid, mh_type = MESSAGE_TYPE_RESPONSE, flags = 0\<rparr>"

definition header_new_data :: "u32 \<Rightarrow> u32 \<Rightarrow> message_header" where
  "header_new_data sid len =
     \<lparr>mh_length = len, stream_id = sid, mh_type = MESSAGE_TYPE_DATA, flags = 0\<rparr>"

definition set_stream_id :: "u32 \<Rightarrow> message_header \<Rightarrow> message_header" where
  "set_stream_id sid mh = mh\<lparr>stream_id := sid\<rparr>"

definition set_flags :: "u8 \<Rightarrow> message_header \<Rightarrow> message_header" where
  "set_flags f mh = mh\<lparr>flags := f\<rparr>"

definition add_flags :: "u8 \<Rightarrow> message_header \<Rightarrow> message_header" where
  "add_flags f mh = mh\<lparr>flags := flags mh OR f\<rparr>"

text \<open>
  \<open>into_buf\<close> overwrites the first ten bytes of the caller's buffer; slicing a shorter buffer
  panics, which is \<open>None\<close>.
\<close>

definition into_buf :: "message_header \<Rightarrow> bytes \<Rightarrow> bytes option" where
  "into_buf mh buf =
     (if length buf < MESSAGE_HEADER_LENGTH then None
      else Some (be_write_u32 (mh_length mh) @ be_write_u32 (stream_id mh) @ [mh_type mh, flags mh]
                  @ drop MESSAGE_HEADER_LENGTH buf))"

definition header_to_vec :: "message_header \<Rightarrow> bytes option" where
  "header_to_vec mh = into_buf mh (replicate MESSAGE_HEADER_LENGTH 0)"

text \<open>\<open>MessageHeader::from(buf)\<close>: bytes after the tenth are ignored, a shorter buffer panics.\<close>

fun header_from :: "bytes \<Rightarrow> message_header option" where
  "header_from (l0 # l1 # l2 # l3 # s0 # s1 # s2 # s3 # t # f # rest) =
     Some \<lparr>mh_length = be_read_u32 l0 l1 l2 l3, stream_id = be_read_u32 s0 s1 s2 s3,
           mh_type = t, flags = f\<rparr>"
| "header_from _ = None"

text \<open>The ten bytes of a header.\<close>

definition header_bytes :: "message_header \<Rightarrow> bytes" where
  "header_bytes mh = be_write_u32 (mh_length mh) @ be_write_u32 (stream_id mh) @ [mh_type mh, flags mh]"

lemma length_header_bytes [simp]: "length (header_bytes mh) = 10"
  by (simp add: header_bytes_def)

lemma into_buf_eq: "10 \<le> length buf \<Longrightarrow> into_buf mh buf = Some (header_bytes mh @ drop 10 buf)"
  by (simp add: into_buf_def header_bytes_def)

lemma header_to_vec_eq: "header_to_vec mh = Some (header_bytes mh)"
  by (simp add: header_to_vec_def into_buf_eq)

lemma header_from_bytes [simp]: "header_from (header_bytes mh @ rest) = Some mh"
  by (cases mh) (simp add: header_bytes_def be_write_u32_def be_read_write_u32)

lemma header_from_short: "header_from buf = None \<longleftrightarrow> length buf < 10"
  by (cases buf rule: header_from.cases) auto

lemma header_from_Some: "header_from buf = Some mh \<Longrightarrow> buf = header_bytes mh @ drop 10 buf"
  by (cases buf rule: header_from.cases)
    (auto simp: header_bytes_def be_write_read_u32)

subsection \<open>Frames\<close>

record gen_message =
  header :: message_header
  payload :: bytes

datatype gen_message_error =
    InternalError error
  | ReturnError message_header error

definition gen_new_data :: "u32 \<Rightarrow> bytes \<Rightarrow> gen_message" where
  "gen_new_data sid p = \<lparr>header = header_new_data sid (of_nat (length p)), payload = p\<rparr>"

definition gen_new_response :: "u32 \<Rightarrow> bytes \<Rightarrow> gen_message" where
  "gen_new_response sid p = \<lparr>header = header_new_response sid (of_nat (length p)), payload = p\<rparr>"

definition gen_new_close :: "u32 \<Rightarrow> gen_message" where
  "gen_new_close sid =
     \<lparr>header = set_flags (FLAG_REMOTE_CLOSED OR FLAG_NO_DATA) (header_new_data sid 0), payload = []\<rparr>"

definition gen_check :: "gen_message \<Rightarrow> error + unit" where
  "gen_check m = check_oversize (unat (mh_length (header m))) True"

text \<open>A frame as a peer that follows the protocol builds it: honest length, within the limit.\<close>

definition frame_ok :: "gen_message \<Rightarrow> bool" where
  "frame_ok m \<longleftrightarrow>
     unat (mh_length (header m)) = length (payload m) \<and> length (payload m) \<le> MESSAGE_LENGTH_MAX"

definition frame_bytes :: "gen_message \<Rightarrow> bytes" where
  "frame_bytes m = header_bytes (header m) @ payload m"

lemma length_frame_bytes [simp]: "length (frame_bytes m) = 10 + length (payload m)"
  by (simp add: frame_bytes_def)

lemmas header_defs [wire_simps] = header_new_request_def header_new_response_def header_new_data_def
  set_stream_id_def set_flags_def add_flags_def
lemmas gen_defs [wire_simps] = gen_new_data_def gen_new_response_def gen_new_close_def

lemma frame_ok_new:
  assumes "length p \<le> MESSAGE_LENGTH_MAX"
  shows "frame_ok (gen_new_data sid p)" "frame_ok (gen_new_response sid p)"
  using assms by (simp_all add: frame_ok_def wire_simps)

lemma frame_ok_new_close [simp]: "frame_ok (gen_new_close sid)"
  by (simp add: frame_ok_def wire_simps)

lemma frame_ok_check: "frame_ok m \<Longrightarrow> gen_check m = Ok ()"
  by (simp add: frame_ok_def gen_check_def)

subsection \<open>Typed frames and the codec interface\<close>

text \<open>The \<open>Codec\<close> trait for one message type; a codec error is its text.\<close>

record 'm codec =
  c_size :: "'m \<Rightarrow> u32"
  c_encode :: "'m \<Rightarrow> string + bytes"
  c_decode :: "bytes \<Rightarrow> string + 'm"
  c_merge :: "'m \<Rightarrow> bytes \<Rightarrow> string + 'm"

record 'm message =
  msg_header :: message_header
  msg_payload :: 'm

definition message_try_from :: "'m codec \<Rightarrow> gen_message \<Rightarrow> string + 'm message" where
  "message_try_from c g =
     rbind (c_decode c (payload g)) (\<lambda>p. Ok \<lparr>msg_header = header g, msg_payload = p\<rparr>)"

definition gen_try_from :: "'m codec \<Rightarrow> 'm message \<Rightarrow> string + gen_message" where
  "gen_try_from c m =
     rbind (c_encode c (msg_payload m)) (\<lambda>p. Ok \<lparr>header = msg_header m, payload = p\<rparr>)"

definition message_new_request :: "'m codec \<Rightarrow> u32 \<Rightarrow> 'm \<Rightarrow> error + 'm message" where
  "message_new_request c sid m =
     (let sz = c_size c m
      in rbind (check_oversize (unat sz) False)
           (\<lambda>_. Ok \<lparr>msg_header = header_new_request sid sz, msg_payload = m\<rparr>))"

text \<open>
  What the crate relies on of a codec: decoding inverts encoding, \<open>size\<close> is the encoded length
  (as \<open>u32\<close>), and merging into the default value is decoding.
\<close>

locale codec_laws =
  fixes c :: "'m codec" and dflt :: 'm
  assumes decode_encode: "c_encode c m = Ok bs \<Longrightarrow> c_decode c bs = Ok m"
    and size_encode: "c_encode c m = Ok bs \<Longrightarrow> c_size c m = of_nat (length bs)"
    and merge_default: "c_merge c dflt bs = c_decode c bs"
begin

lemma try_from_roundtrip: "gen_try_from c m = Ok g \<Longrightarrow> message_try_from c g = Ok m"
  by (auto simp: gen_try_from_def message_try_from_def rbind_Ok_iff dest: decode_encode)

lemma new_request_frame_ok:
  assumes "message_new_request c sid m = Ok msg" and "gen_try_from c msg = Ok g"
    and "length (payload g) < 2 ^ 32"
  shows "frame_ok g" and "stream_id (header g) = sid" and "mh_type (header g) = MESSAGE_TYPE_REQUEST"
    and "flags (header g) = 0"
  using assms
  by (auto simp: message_new_request_def gen_try_from_def rbind_Ok_iff Let_def frame_ok_def
      wire_simps dest!: size_encode)

end

end
