(* ===== verification/Security.thy ===== *)
theory Security
  imports Wire
begin

text \<open>
  The connection extension framework, \<open>src/src/security_extension.rs\<close>: accept and connect hooks,
  the per-connection context with its optional payload transform, the inbound and outbound
  pipelines on messages and on raw buffers, and the reserve--lock--transform--enqueue sequence of
  \<open>transform_send\<close>, for both build variants (feature enabled, and the no-op types).

  A \<open>PayloadTransform\<close> is application code: a record of functions over the transform's own state
  (nonce counters and the like), which every pipeline operation threads explicitly. Its contract is
  the locale \<open>synced_transform\<close>.

  Waiting is modelled by what the awaited event is and when it happens: \<open>await_deadline\<close> says
  whether it comes before a deadline. A wait that never ends is \<open>Hangs\<close>, and an operation that
  waits for it has no result (\<open>None\<close>).
\<close>

subsection \<open>Transforms and contexts\<close>

record 't xform =
  xf_in :: "'t \<Rightarrow> bytes \<Rightarrow> bytes \<Rightarrow> (string + bytes) \<times> 't"
  xf_out :: "'t \<Rightarrow> bytes \<Rightarrow> bytes \<Rightarrow> (string + bytes) \<times> 't"
  max_overhead :: nat

definition DEFAULT_MAX_OVERHEAD :: nat where "DEFAULT_MAX_OVERHEAD = 64"

definition serialize_aad :: "message_header \<Rightarrow> bytes" where
  "serialize_aad mh = be_write_u32 (stream_id mh) @ [mh_type mh, flags mh]"

record ('d, 't) hook_output =
  ho_data :: "string \<rightharpoonup> 'd"
  ho_transform :: "'t xform option"

record ('d, 't) conn_ctx =
  cx_data :: "string \<rightharpoonup> 'd"
  payload_transform :: "'t xform option"

definition conn_ctx_default :: "('d, 't) conn_ctx" where
  "conn_ctx_default = \<lparr>cx_data = Map.empty, payload_transform = None\<rparr>"

definition conn_ctx_new :: "('d, 't) hook_output option \<Rightarrow> ('d, 't) conn_ctx" where
  "conn_ctx_new ho =
     (case ho of
        Some h \<Rightarrow> \<lparr>cx_data = ho_data h, payload_transform = ho_transform h\<rparr>
      | None \<Rightarrow> conn_ctx_default)"

text \<open>\<open>downcast_ref\<close> is the argument \<open>cast\<close>.\<close>

definition get_typed :: "('d \<Rightarrow> 'a option) \<Rightarrow> (string \<rightharpoonup> 'd) \<Rightarrow> string \<Rightarrow> 'a option" where
  "get_typed cast data k = Option.bind (data k) cast"

subsection \<open>The accept hook\<close>

datatype hook_error = Rejected string | HookTimeout | HookIo string | HookOther string

fun hook_error_display :: "hook_error \<Rightarrow> string" where
  "hook_error_display (Rejected msg) = ''connection rejected: '' @ msg"
| "hook_error_display HookTimeout = ''handshake timeout''"
| "hook_error_display (HookIo e) = ''I/O error: '' @ e"
| "hook_error_display (HookOther msg) = msg"

text \<open>How the race of the blocking hook task against the timeout ends.\<close>

datatype hook_race = HookFinished | HookJoinError string | HookElapsed

definition on_accept ::
  "(int \<Rightarrow> hook_error + ('d, 't) hook_output) option \<Rightarrow> int option \<Rightarrow> (int \<Rightarrow> string + int) \<Rightarrow> hook_race
    \<Rightarrow> hook_error + ('d, 't) hook_output option" where
  "on_accept hook raw_fd dup race =
     (case hook of
        None \<Rightarrow> Ok None
      | Some h \<Rightarrow>
          (case raw_fd of
             None \<Rightarrow> Err (HookOther (''accept hook requires a raw fd; use Server::bind() or construct ''
                      @ ''Socket from a platform stream (UnixStream, TcpStream, VsockStream)''))
           | Some fd \<Rightarrow>
               (case dup fd of
                  Inl e \<Rightarrow> Err (HookIo e)
                | Inr hook_fd \<Rightarrow>
                    (case race of
                       HookFinished \<Rightarrow>
                         (case h hook_fd of Inr output \<Rightarrow> Ok (Some output) | Inl e \<Rightarrow> Err e)
                     | HookJoinError e \<Rightarrow> Err (HookOther (''accept hook task failed: '' @ e))
                     | HookElapsed \<Rightarrow> Err HookTimeout))))"

subsection \<open>Pipelines\<close>

definition max_raw_payload_len :: "('d, 't) conn_ctx \<Rightarrow> nat" where
  "max_raw_payload_len cx =
     (case payload_transform cx of
        Some xf \<Rightarrow> MESSAGE_LENGTH_MAX - max_overhead xf
      | None \<Rightarrow> MESSAGE_LENGTH_MAX)"

definition transform_inbound ::
  "('d, 't) conn_ctx \<Rightarrow> 't \<Rightarrow> bytes \<Rightarrow> bytes \<Rightarrow> (string + bytes) \<times> 't" where
  "transform_inbound cx t p aad =
     (case payload_transform cx of Some xf \<Rightarrow> xf_in xf t p aad | None \<Rightarrow> (Ok p, t))"

definition transform_outbound ::
  "('d, 't) conn_ctx \<Rightarrow> 't \<Rightarrow> bytes \<Rightarrow> bytes \<Rightarrow> (string + bytes) \<times> 't" where
  "transform_outbound cx t p aad =
     (case payload_transform cx of Some xf \<Rightarrow> xf_out xf t p aad | None \<Rightarrow> (Ok p, t))"

definition inbound_buf ::
  "('d, 't) conn_ctx \<Rightarrow> 't \<Rightarrow> bytes \<Rightarrow> bytes \<Rightarrow> bool \<Rightarrow> (error + bytes) \<times> 't" where
  "inbound_buf cx t data aad rpc_error =
     (let checked = (\<lambda>p. rbind (check_oversize (length p) rpc_error) (\<lambda>_. Ok p))
      in case payload_transform cx of
           Some xf \<Rightarrow>
             (case xf_in xf t data aad of
                (Inl e, t') \<Rightarrow> (Err (Others (''transform_inbound failed: '' @ e)), t')
              | (Inr p, t') \<Rightarrow> (checked p, t'))
         | None \<Rightarrow> (checked data, t))"

definition unsafe_payload :: "nat \<Rightarrow> nat \<Rightarrow> string \<Rightarrow> error" where
  "unsafe_payload len max_len hint =
     Others (''payload '' @ show_nat len @ '' bytes exceeds safe limit '' @ show_nat max_len
       @ '' bytes (MESSAGE_LENGTH_MAX - transform overhead)'' @ hint)"

definition outbound_buf ::
  "('d, 't) conn_ctx \<Rightarrow> 't \<Rightarrow> bytes \<Rightarrow> bytes \<Rightarrow> bool \<Rightarrow> (error + bytes) \<times> 't" where
  "outbound_buf cx t data aad rpc_error =
     (let checked = (\<lambda>p. rbind (check_oversize (length p) rpc_error) (\<lambda>_. Ok p))
      in case payload_transform cx of
           Some xf \<Rightarrow>
             (let max_len = max_raw_payload_len cx
              in if length data > max_len then (Err (unsafe_payload (length data) max_len []), t)
                 else case xf_out xf t data aad of
                        (Inl e, t') \<Rightarrow> (Err (Others (''transform_outbound failed: '' @ e)), t')
                      | (Inr p, t') \<Rightarrow> (checked p, t'))
         | None \<Rightarrow> (checked data, t))"

definition set_payload_length :: "bytes \<Rightarrow> gen_message \<Rightarrow> gen_message" where
  "set_payload_length p msg =
     msg\<lparr>payload := p, header := (header msg)\<lparr>mh_length := of_nat (length p)\<rparr>\<rparr>"

text \<open>
  \<open>inbound\<close> and \<open>outbound\<close> mutate the message: a failing transform leaves it with the empty payload
  that \<open>mem::take\<close> put there.
\<close>

definition inbound ::
  "('d, 't) conn_ctx \<Rightarrow> 't \<Rightarrow> gen_message \<Rightarrow> bool \<Rightarrow> (error + unit) \<times> 't \<times> gen_message" where
  "inbound cx t msg rpc_error =
     (case payload_transform cx of
        Some xf \<Rightarrow>
          (case xf_in xf t (payload msg) (serialize_aad (header msg)) of
             (Inl e, t') \<Rightarrow>
               (Err (Others (''transform_inbound failed: '' @ e)), t', msg\<lparr>payload := []\<rparr>)
           | (Inr p, t') \<Rightarrow> (check_oversize (length p) rpc_error, t', set_payload_length p msg))
      | None \<Rightarrow> (check_oversize (length (payload msg)) rpc_error, t, msg))"

definition outbound ::
  "('d, 't) conn_ctx \<Rightarrow> 't \<Rightarrow> gen_message \<Rightarrow> bool \<Rightarrow> (error + unit) \<times> 't \<times> gen_message" where
  "outbound cx t msg rpc_error =
     (case payload_transform cx of
        Some xf \<Rightarrow>
          (let max_len = max_raw_payload_len cx
           in if length (payload msg) > max_len then
                (Err (unsafe_payload (length (payload msg)) max_len ''; reduce payload size''), t, msg)
              else case xf_out xf t (payload msg) (serialize_aad (header msg)) of
                     (Inl e, t') \<Rightarrow>
                       (Err (Others (''transform_outbound failed: '' @ e)), t', msg\<lparr>payload := []\<rparr>)
                   | (Inr p, t') \<Rightarrow>
                       (check_oversize (length p) rpc_error, t', set_payload_length p msg))
      | None \<Rightarrow> (check_oversize (length (payload msg)) rpc_error, t, msg))"

subsection \<open>Queued messages and waiting\<close>

text \<open>
  A response mailbox and a oneshot result channel are named by numbers. \<open>Instant\<close>s are \<open>nat\<close>.
\<close>

record message_control =
  mc_deadline :: "nat option"
  mc_response_tx :: nat

record sending_message =
  sm_msg :: gen_message
  result_chan :: "nat option"
  control :: "message_control option"

definition sending_new :: "gen_message \<Rightarrow> sending_message" where
  "sending_new m = \<lparr>sm_msg = m, result_chan = None, control = None\<rparr>"

definition sending_new_with_control :: "gen_message \<Rightarrow> message_control \<Rightarrow> sending_message" where
  "sending_new_with_control m c = \<lparr>sm_msg = m, result_chan = None, control = Some c\<rparr>"

definition sending_new_with_result :: "gen_message \<Rightarrow> nat \<Rightarrow> sending_message" where
  "sending_new_with_result m ch = \<lparr>sm_msg = m, result_chan = Some ch, control = None\<rparr>"

definition gen_default :: gen_message where
  "gen_default = \<lparr>header = \<lparr>mh_length = 0, stream_id = 0, mh_type = 0, flags = 0\<rparr>, payload = []\<rparr>"

definition request_timeout_error :: error where
  "request_timeout_error = Others ''Request deadline elapsed''"

datatype 'a wait = At nat 'a | Never
datatype 'a waited = Done 'a | Elapsed | Hangs

fun await_deadline :: "nat option \<Rightarrow> 'a wait \<Rightarrow> 'a waited" where
  "await_deadline None (At tm x) = Done x"
| "await_deadline None Never = Hangs"
| "await_deadline (Some d) (At tm x) = (if tm \<le> d then Done x else Elapsed)"
| "await_deadline (Some d) Never = Elapsed"

definition reserve_message_slot ::
  "bool \<Rightarrow> (string + unit) wait \<Rightarrow> nat option \<Rightarrow> (error + unit) option" where
  "reserve_message_slot try_reserve reserve deadline =
     (if try_reserve then Some (Ok ())
      else case await_deadline deadline reserve of
             Hangs \<Rightarrow> None
           | Elapsed \<Rightarrow> Some (Err request_timeout_error)
           | Done (Inr _) \<Rightarrow> Some (Ok ())
           | Done (Inl e) \<Rightarrow> Some (Err (Others (''reserve channel capacity failed: '' @ e))))"

text \<open>What the channel, the outbound lock and the writer task do to one send.\<close>

record send_env =
  try_reserve :: bool
  reserve :: "(string + unit) wait"
  try_lock :: bool
  lock :: "unit wait"
  ack :: "(error + unit) option wait"
  chan :: nat

definition send_ack :: "send_env \<Rightarrow> (error + unit) option" where
  "send_ack env =
     (case await_deadline None (ack env) of
        Done (Some r) \<Rightarrow> Some r
      | Done None \<Rightarrow> Some (Err (Others ''writer task dropped result channel''))
      | _ \<Rightarrow> None)"

definition acquire_lock :: "send_env \<Rightarrow> nat option \<Rightarrow> (error + unit) option" where
  "acquire_lock env deadline =
     (if try_lock env then Some (Ok ())
      else case await_deadline deadline (lock env) of
             Hangs \<Rightarrow> None
           | Elapsed \<Rightarrow> Some (Err request_timeout_error)
           | Done _ \<Rightarrow> Some (Ok ()))"

definition enqueue ::
  "send_env \<Rightarrow> bool \<Rightarrow> message_control option \<Rightarrow> gen_message \<Rightarrow> sending_message" where
  "enqueue env await_ack ctl m =
     (if await_ack then (sending_new_with_result m (chan env))\<lparr>control := ctl\<rparr>
      else case ctl of
             Some c \<Rightarrow> sending_new_with_control m c
           | None \<Rightarrow> sending_new m)"

text \<open>
  \<open>transform_send_inner\<close> with the feature enabled. The state is the transform's state and the
  queue to the writer task; \<open>None\<close> as result means that the call is still waiting.
\<close>

type_synonym 't send_result = "(error + unit) option \<times> 't \<times> sending_message list"

definition transform_send_inner ::
  "('d, 't) conn_ctx \<Rightarrow> send_env \<Rightarrow> bool \<Rightarrow> bool \<Rightarrow> message_control option \<Rightarrow> gen_message
    \<Rightarrow> 't \<Rightarrow> sending_message list \<Rightarrow> 't send_result" where
  "transform_send_inner cx env rpc_error await_ack ctl msg t q =
     (let deadline = Option.bind ctl mc_deadline
      in case reserve_message_slot (try_reserve env) (reserve env) deadline of
           None \<Rightarrow> (None, t, q)
         | Some (Inl e) \<Rightarrow> (Some (Err e), t, q)
         | Some (Inr _) \<Rightarrow>
             (case acquire_lock env deadline of
                None \<Rightarrow> (None, t, q)
              | Some (Inl e) \<Rightarrow> (Some (Err e), t, q)
              | Some (Inr _) \<Rightarrow>
                  (case outbound cx t msg rpc_error of
                     (Inl e, t', _) \<Rightarrow> (Some (Err e), t', q)
                   | (Inr _, t', taken) \<Rightarrow>
                       (let ctl' = (if payload_transform cx \<noteq> None then None else ctl);
                            q' = q @ [enqueue env await_ack ctl' taken]
                        in (if await_ack then send_ack env else Some (Ok ()), t', q')))))"

definition transform_send where
  "transform_send cx env rpc_error await_ack msg t q =
     transform_send_inner cx env rpc_error await_ack None msg t q"

definition transform_send_with_control where
  "transform_send_with_control cx env rpc_error await_ack msg ctl t q =
     transform_send_inner cx env rpc_error await_ack (Some ctl) msg t q"

text \<open>
  \<open>send_response_sync\<close>: transform and enqueue under the mutex. \<open>tx\<close> is whether the wire channel
  still has a receiver.
\<close>

definition send_response_sync ::
  "('d, 't) conn_ctx \<Rightarrow> bytes \<Rightarrow> bytes \<Rightarrow> bool \<Rightarrow> message_header \<Rightarrow> 't
    \<Rightarrow> (message_header \<times> bytes) list \<Rightarrow> (error + unit) \<times> 't \<times> (message_header \<times> bytes) list" where
  "send_response_sync cx buf aad tx_open mh t q =
     (case outbound_buf cx t buf aad True of
        (Inl e, t') \<Rightarrow> (Err e, t', q)
      | (Inr p, t') \<Rightarrow>
          (if tx_open then (Ok (), t', q @ [(mh\<lparr>mh_length := of_nat (length p)\<rparr>, p)])
           else (Err (Others ''send to wire channel failed: sending on a closed channel''), t', q)))"

subsection \<open>The no-op types\<close>

definition noop_max_raw_payload_len :: nat where
  "noop_max_raw_payload_len = MESSAGE_LENGTH_MAX"

definition noop_inbound :: "gen_message \<Rightarrow> bool \<Rightarrow> error + unit" where
  "noop_inbound msg rpc_error = check_oversize (length (payload msg)) rpc_error"

definition noop_outbound :: "gen_message \<Rightarrow> bool \<Rightarrow> error + unit" where
  "noop_outbound msg rpc_error = check_oversize (length (payload msg)) rpc_error"

definition noop_inbound_buf :: "bytes \<Rightarrow> bytes \<Rightarrow> bool \<Rightarrow> error + bytes" where
  "noop_inbound_buf data aad rpc_error = rbind (check_oversize (length data) rpc_error) (\<lambda>_. Ok data)"

definition noop_outbound_buf :: "bytes \<Rightarrow> bytes \<Rightarrow> bool \<Rightarrow> error + bytes" where
  "noop_outbound_buf data aad rpc_error = rbind (check_oversize (length data) rpc_error) (\<lambda>_. Ok data)"

definition noop_transform_send_inner ::
  "send_env \<Rightarrow> bool \<Rightarrow> bool \<Rightarrow> message_control option \<Rightarrow> gen_message \<Rightarrow> sending_message list
    \<Rightarrow> (error + unit) option \<times> sending_message list" where
  "noop_transform_send_inner env rpc_error await_ack ctl msg q =
     (case noop_outbound msg rpc_error of
        Inl e \<Rightarrow> (Some (Err e), q)
      | Inr _ \<Rightarrow>
          (case reserve_message_slot (try_reserve env) (reserve env) (Option.bind ctl mc_deadline) of
             None \<Rightarrow> (None, q)
           | Some (Inl e) \<Rightarrow> (Some (Err e), q)
           | Some (Inr _) \<Rightarrow>
               (if await_ack then send_ack env else Some (Ok ()), q @ [enqueue env await_ack ctl msg])))"

definition noop_send_response_sync ::
  "bytes \<Rightarrow> bytes \<Rightarrow> bool \<Rightarrow> message_header \<Rightarrow> (message_header \<times> bytes) list
    \<Rightarrow> (error + unit) \<times> (message_header \<times> bytes) list" where
  "noop_send_response_sync buf aad tx_open mh q =
     (case check_oversize (length buf) True of
        Inl e \<Rightarrow> (Err e, q)
      | Inr _ \<Rightarrow>
          (if tx_open then (Ok (), q @ [(mh\<lparr>mh_length := of_nat (length buf)\<rparr>, buf)])
           else (Err (Others ''send to wire channel failed: sending on a closed channel''), q)))"

end
