(* ===== verification/Transform.thy ===== *)
theory Transform
  imports Security
begin

text \<open>
  Correctness of the extension framework: what the pipelines guarantee for any transform, and the
  end-to-end contract for transforms that keep both ends in step (\<open>synced_transform\<close>): whatever
  happens to individual sends, the frames that reach the writer's queue decode, in order, to the
  original messages. The contract is met by the XOR transform of the crate's tests and by a
  sequence-number transform whose state must stay in step.
\<close>

subsection \<open>Facts about every transform\<close>

lemma set_payload_length_simps [simp]:
  "payload (set_payload_length p m) = p"
  "stream_id (header (set_payload_length p m)) = stream_id (header m)"
  "mh_type (header (set_payload_length p m)) = mh_type (header m)"
  "flags (header (set_payload_length p m)) = flags (header m)"
  "mh_length (header (set_payload_length p m)) = of_nat (length p)"
  "serialize_aad (header (set_payload_length p m)) = serialize_aad (header m)"
  by (simp_all add: set_payload_length_def serialize_aad_def)

definition same_route :: "gen_message \<Rightarrow> gen_message \<Rightarrow> bool" where
  "same_route m m' \<longleftrightarrow> stream_id (header m') = stream_id (header m)
     \<and> mh_type (header m') = mh_type (header m) \<and> flags (header m') = flags (header m)"

text \<open>The header tells the length of the payload.\<close>

definition honest :: "gen_message \<Rightarrow> bool" where
  "honest m \<longleftrightarrow> mh_length (header m) = of_nat (length (payload m))"

lemma honest_set_payload_length [simp]: "honest (set_payload_length p m)"
  by (simp add: honest_def)

lemma honest_frame_ok: "honest m \<Longrightarrow> length (payload m) \<le> MESSAGE_LENGTH_MAX \<Longrightarrow> frame_ok m"
  by (simp add: honest_def frame_ok_def)

lemma honest_new [simp]: "honest (gen_new_data sid p)" "honest (gen_new_response sid p)"
  "honest (gen_new_close sid)"
  by (simp_all add: honest_def wire_simps)

lemma set_payload_length_restore:
  "honest m \<Longrightarrow> set_payload_length (payload m) (set_payload_length p m) = m"
  by (cases m, cases "header m") (simp add: set_payload_length_def honest_def)

lemma outbound_cases:
  assumes "outbound cx t msg b = (r, t', m')"
  obtains (plain) "payload_transform cx = None" "t' = t" "m' = msg"
      "r = check_oversize (length (payload msg)) b"
    | (too_long) xf where "payload_transform cx = Some xf" "t' = t" "m' = msg"
      "max_raw_payload_len cx < length (payload msg)" "\<not> is_ok r"
    | (failed) xf e where "payload_transform cx = Some xf"
      "xf_out xf t (payload msg) (serialize_aad (header msg)) = (Err e, t')" "\<not> is_ok r"
    | (coded) xf p where "payload_transform cx = Some xf"
      "length (payload msg) \<le> max_raw_payload_len cx"
      "xf_out xf t (payload msg) (serialize_aad (header msg)) = (Ok p, t')"
      "m' = set_payload_length p msg" "r = check_oversize (length p) b"
  using assms
  by (auto simp: outbound_def Let_def split: option.splits if_splits prod.splits sum.splits)

lemma outbound_ok:
  assumes "outbound cx t msg b = (Ok (), t', m')" and "honest msg"
  shows "frame_ok m'" and "same_route msg m'"
    and "length (payload msg) \<le> max_raw_payload_len cx"
  using assms(1)
  by (cases rule: outbound_cases;
      use assms(2) in \<open>auto simp: same_route_def max_raw_payload_len_def intro!: honest_frame_ok
        dest!: sym [of "Inr _"]\<close>)+

lemma inbound_ok:
  assumes "inbound cx t msg b = (Ok (), t', m')"
  shows "length (payload m') \<le> MESSAGE_LENGTH_MAX" and "same_route msg m'"
    and "honest msg \<Longrightarrow> honest m'"
  using assms
  by (auto simp: inbound_def same_route_def split: option.splits prod.splits sum.splits)

subsection \<open>The contract of a transform\<close>

text \<open>
  \<open>insync t r\<close>: a sender in state \<open>t\<close> and a receiver in state \<open>r\<close> are in step. Encoding stays
  within the announced overhead, a receiver in step decodes what the sender encoded under the same
  authenticated header and stays in step, and a failing encoder does not advance.
\<close>

locale synced_transform =
  fixes xf :: "'t xform" and insync :: "'t \<Rightarrow> 't \<Rightarrow> bool"
  assumes overhead_fits: "max_overhead xf \<le> MESSAGE_LENGTH_MAX"
    and out_overhead: "xf_out xf t p aad = (Ok c, t') \<Longrightarrow> length c \<le> length p + max_overhead xf"
    and out_in: "\<lbrakk>xf_out xf t p aad = (Ok c, t'); insync t r; length p \<le> MESSAGE_LENGTH_MAX\<rbrakk>
      \<Longrightarrow> \<exists>r'. xf_in xf r c aad = (Ok p, r') \<and> insync t' r'"
    and out_failed: "\<lbrakk>xf_out xf t p aad = (Err e, t'); insync t r\<rbrakk> \<Longrightarrow> insync t' r"
begin

lemma outbound_step:
  assumes o: "outbound cx t msg b = (Ok (), t', m')" and sync: "insync t r" and h: "honest msg"
    and cx: "payload_transform cx = Some xf" and cx': "payload_transform cx' = Some xf"
  shows "\<exists>r'. inbound cx' r m' b' = (Ok (), r', msg) \<and> insync t' r'"
  using o
proof (cases rule: outbound_cases)
  case (coded xf' p)
  with cx have xf: "xf' = xf" by simp
  from coded(2) cx have len: "length (payload msg) \<le> MESSAGE_LENGTH_MAX"
    by (simp add: max_raw_payload_len_def)
  obtain r' where "xf_in xf r p (serialize_aad (header msg)) = (Ok (payload msg), r')" "insync t' r'"
    using out_in [OF coded(3) [unfolded xf] sync len] by blast
  with cx' coded(4) h len show ?thesis
    by (simp add: inbound_def set_payload_length_restore)
qed (use cx in auto)

lemma outbound_failed:
  assumes "outbound cx t msg b = (Err e, t', m')" and "insync t r" and "payload_transform cx = Some xf"
  shows "insync t' r"
  using assms(1)
proof (cases rule: outbound_cases)
  case (coded xf' p)
  with assms(3) have "length p \<le> length (payload msg) + max_overhead xf"
    using out_overhead by auto
  moreover have "length (payload msg) \<le> MESSAGE_LENGTH_MAX - max_overhead xf"
    using coded(2) assms(3) by (simp add: max_raw_payload_len_def)
  ultimately have "length p \<le> MESSAGE_LENGTH_MAX" using overhead_fits by linarith
  with coded(5) show ?thesis by simp
qed (use assms out_failed in auto)

end

subsection \<open>Sequences of sends\<close>

record send_call =
  sc_env :: send_env
  sc_rpc_error :: bool
  sc_await_ack :: bool
  sc_control :: "message_control option"
  sc_msg :: gen_message

text \<open>
  The sends of one connection, one after the other as the outbound lock orders them. The third
  component lists the messages that were enqueued.
\<close>

fun send_all ::
  "('d, 't) conn_ctx \<Rightarrow> send_call list \<Rightarrow> 't \<Rightarrow> sending_message list
    \<Rightarrow> (error + unit) option list \<times> 't \<times> sending_message list \<times> gen_message list" where
  "send_all cx [] t q = ([], t, q, [])"
| "send_all cx (c # cs) t q =
     (case transform_send_inner cx (sc_env c) (sc_rpc_error c) (sc_await_ack c) (sc_control c)
             (sc_msg c) t q of
        (res, t1, q1) \<Rightarrow>
          (case send_all cx cs t1 q1 of
             (rs, t2, q2, sent) \<Rightarrow>
               (res # rs, t2, q2, (if length q < length q1 then sc_msg c # sent else sent))))"

text \<open>The reader's inbound pipeline over the frames in wire order.\<close>

fun recv_all ::
  "('d, 't) conn_ctx \<Rightarrow> gen_message list \<Rightarrow> 't \<Rightarrow> ((error + unit) \<times> gen_message) list \<times> 't" where
  "recv_all cx [] r = ([], r)"
| "recv_all cx (m # ms) r =
     (case inbound cx r m False of
        (res, r1, m1) \<Rightarrow> (case recv_all cx ms r1 of (rs, r2) \<Rightarrow> ((res, m1) # rs, r2)))"

text \<open>
  One send either leaves the queue alone, or has succeeded in its outbound pipeline and appends
  exactly the encoded message.
\<close>

lemma transform_send_cases:
  assumes "transform_send_inner cx env b aw ctl msg t q = (res, t', q')"
  obtains (waiting) "t' = t" "q' = q" "res \<noteq> Some (Ok ())"
    | (failed) e m' where "outbound cx t msg b = (Err e, t', m')" "q' = q" "res = Some (Err e)"
    | (queued) m' where "outbound cx t msg b = (Ok (), t', m')"
        "q' = q @ [enqueue env aw (if payload_transform cx \<noteq> None then None else ctl) m']"
  using assms
  by (auto simp: transform_send_inner_def Let_def dest!: sym [of "Some _"]
      split: option.splits sum.splits prod.splits)

lemma enqueue_msg [simp]: "sm_msg (enqueue env aw ctl m) = m"
  by (simp add: enqueue_def sending_new_def sending_new_with_control_def
      sending_new_with_result_def split: option.split)

lemma enqueue_control [simp]: "control (enqueue env aw ctl m) = ctl"
  by (simp add: enqueue_def sending_new_def sending_new_with_control_def
      sending_new_with_result_def split: option.split)

context synced_transform
begin

lemma send_all_synced:
  "\<lbrakk>send_all cx calls t q = (rs, t', q', sent); insync t r;
     payload_transform cx = Some xf; payload_transform cx' = Some xf;
     \<forall>c \<in> set calls. honest (sc_msg c)\<rbrakk>
   \<Longrightarrow> \<exists>new r'. q' = q @ new \<and> recv_all cx' (map sm_msg new) r = (map (\<lambda>m. (Ok (), m)) sent, r')
         \<and> insync t' r' \<and> (\<forall>m \<in> set new. control m = None \<and> frame_ok (sm_msg m))"
proof (induction calls arbitrary: t q r rs t' q' sent)
  case Nil
  then show ?case by auto
next
  case (Cons c cs)
  obtain res t1 q1 where one: "transform_send_inner cx (sc_env c) (sc_rpc_error c) (sc_await_ack c)
      (sc_control c) (sc_msg c) t q = (res, t1, q1)"
    by (metis surj_pair)
  obtain rs2 sent2 where rest: "send_all cx cs t1 q1 = (rs2, t', q', sent2)"
      "sent = (if length q < length q1 then sc_msg c # sent2 else sent2)"
    using Cons.prems(1) by (auto simp: one split: prod.splits)
  have cs: "\<forall>c \<in> set cs. honest (sc_msg c)" and c: "honest (sc_msg c)"
    using Cons.prems(5) by auto
  note IH = Cons.IH [OF rest(1) _ Cons.prems(3,4) cs]
  from one show ?case
  proof (cases rule: transform_send_cases)
    case waiting
    then show ?thesis using IH [of r] Cons.prems(2) rest(2) by simp
  next
    case (failed e m')
    then have "insync t1 r" using outbound_failed Cons.prems(2,3) by blast
    then show ?thesis using IH [of r] failed(2) rest(2) by simp
  next
    case (queued m')
    obtain r1 where r1: "inbound cx' r m' False = (Ok (), r1, sc_msg c)" "insync t1 r1"
      using outbound_step [OF queued(1) Cons.prems(2) c Cons.prems(3,4)] by blast
    from IH [OF r1(2)] r1(1) queued outbound_ok(1) [OF queued(1) c] rest(2) Cons.prems(3)
    show ?thesis by auto
  qed
qed

end

subsection \<open>The XOR transform\<close>

definition XOR_KEY :: "16 word" where "XOR_KEY = 0xA5A5"

definition be_read_u16 :: "u8 \<Rightarrow> u8 \<Rightarrow> 16 word" where
  "be_read_u16 a b = push_bit 8 (ucast a) OR ucast b"

definition be_write_u16 :: "16 word \<Rightarrow> bytes" where
  "be_write_u16 w = [ucast (drop_bit 8 w), ucast w]"

text \<open>\<open>chunks(2)\<close> of an even-length slice; the last equation is never reached.\<close>

fun xor_chunks :: "bytes \<Rightarrow> bytes" where
  "xor_chunks (a # b # rest) = be_write_u16 (be_read_u16 a b XOR XOR_KEY) @ xor_chunks rest"
| "xor_chunks _ = []"

definition xor_pad :: "bytes \<Rightarrow> bytes" where
  "xor_pad data = (if odd (length data) then data @ [0] else data)"

definition xor_outbound :: "unit \<Rightarrow> bytes \<Rightarrow> bytes \<Rightarrow> (string + bytes) \<times> unit" where
  "xor_outbound t data aad =
     (Ok (be_write_u16 1 @ be_write_u32 (of_nat (length data)) @ xor_chunks (xor_pad data)), t)"

definition xor_inbound :: "unit \<Rightarrow> bytes \<Rightarrow> bytes \<Rightarrow> (string + bytes) \<times> unit" where
  "xor_inbound t data aad =
     (case data of
        a0 # a1 # l0 # l1 # l2 # l3 # encrypted \<Rightarrow>
          (if be_read_u16 a0 a1 \<noteq> 1 then (Err ''xor: unknown algo'', t)
           else if odd (length encrypted) then (Err ''xor: encrypted data has odd length'', t)
           else (Ok (take (unat (be_read_u32 l0 l1 l2 l3)) (xor_chunks encrypted)), t))
      | _ \<Rightarrow> (Err (''xor: packet too short ('' @ show_nat (length data) @ '' < 6)''), t))"

definition xor_xform :: "unit xform" where
  "xor_xform = \<lparr>xf_in = xor_inbound, xf_out = xor_outbound, max_overhead = DEFAULT_MAX_OVERHEAD\<rparr>"

lemma xor_key_low: "(0xA5 :: u8) = ucast XOR_KEY"
  by code_simp

lemma xor_pair: "be_write_u16 (be_read_u16 a b XOR XOR_KEY) = [a XOR 0xA5, b XOR 0xA5]"
proof -
  have "ucast (drop_bit 8 (be_read_u16 a b XOR XOR_KEY)) = a XOR 0xA5"
    by (rule bit_word_eqI) (auto simp: be_read_u16_def XOR_KEY_def bit_simps dest: bit_imp_le_length)
  moreover have "ucast (be_read_u16 a b XOR XOR_KEY) = b XOR 0xA5"
    unfolding xor_key_low
    by (rule bit_word_eqI) (auto simp: be_read_u16_def bit_simps dest: bit_imp_le_length)
  ultimately show ?thesis by (simp add: be_write_u16_def)
qed

lemma xor_chunks_eq: "even (length bs) \<Longrightarrow> xor_chunks bs = map (\<lambda>b. b XOR 0xA5) bs"
  by (induction bs rule: xor_chunks.induct) (auto simp: xor_pair)

lemma even_length_xor_pad: "even (length (xor_pad data))"
  by (simp add: xor_pad_def)

lemma take_xor_pad: "take (length data) (xor_pad data) = data"
  by (simp add: xor_pad_def)

lemma xor_xor_bytes: "map (\<lambda>b. b XOR k) (map (\<lambda>b. b XOR k) bs) = (bs :: bytes)"
  by (induction bs) (simp_all add: xor.assoc)

lemma xor_roundtrip:
  assumes "length p < 2 ^ 32" and "xor_outbound t p aad = (Ok c, t')"
  shows "xor_inbound r c aad' = (Ok p, r)"
proof -
  have key: "be_read_u16 0 1 = 1"
    by code_simp
  have "xor_chunks (xor_chunks (xor_pad p)) = xor_pad p"
    using even_length_xor_pad [of p] xor_xor_bytes [of "0xA5" "xor_pad p"]
    by (simp add: xor_chunks_eq)
  moreover have "even (length (xor_chunks (xor_pad p)))"
    using even_length_xor_pad [of p] by (simp add: xor_chunks_eq)
  ultimately show ?thesis
    using assms by (auto simp: xor_outbound_def xor_inbound_def be_write_u16_def be_write_u32_def
        be_read_write_u32 key take_xor_pad)
qed

lemma xor_overhead:
  assumes "xor_outbound t p aad = (Ok c, t')"
  shows "length c \<le> length p + 7"
proof -
  have "length (xor_chunks (xor_pad p)) = length (xor_pad p)"
    using even_length_xor_pad [of p] by (simp add: xor_chunks_eq)
  with assms show ?thesis
    by (auto simp: xor_outbound_def be_write_u16_def xor_pad_def split: if_splits)
qed

interpretation xor_sync: synced_transform xor_xform "\<lambda>t r. True"
proof
  fix t r t' :: unit and p aad c :: bytes
  assume out: "xf_out xor_xform t p aad = (Ok c, t')" and "length p \<le> MESSAGE_LENGTH_MAX"
  then show "\<exists>r'. xf_in xor_xform r c aad = (Ok p, r') \<and> True"
    using xor_roundtrip [of p t aad c t' r aad] by (simp add: xor_xform_def)
next
  fix t t' :: unit and p aad c :: bytes
  assume "xf_out xor_xform t p aad = (Ok c, t')"
  then show "length c \<le> length p + max_overhead xor_xform"
    using xor_overhead [of t p aad c t'] by (simp add: xor_xform_def DEFAULT_MAX_OVERHEAD_def)
qed (simp_all add: xor_xform_def DEFAULT_MAX_OVERHEAD_def)

subsection \<open>A sequence-number transform\<close>

text \<open>
  A transform with a counter on each side, the shape of the AEAD schemes the framework is made for:
  every frame carries the sender's counter and the authenticated header, and a receiver accepts a
  frame only when both match.
\<close>

record seq_state =
  send_ctr :: u32
  recv_ctr :: u32

definition seq_outbound :: "seq_state \<Rightarrow> bytes \<Rightarrow> bytes \<Rightarrow> (string + bytes) \<times> seq_state" where
  "seq_outbound t p aad =
     (if length aad \<noteq> 6 then (Err ''bad aad'', t)
      else (Ok (be_write_u32 (send_ctr t) @ aad @ p), t\<lparr>send_ctr := send_ctr t + 1\<rparr>))"

definition seq_inbound :: "seq_state \<Rightarrow> bytes \<Rightarrow> bytes \<Rightarrow> (string + bytes) \<times> seq_state" where
  "seq_inbound t c aad =
     (case strip_prefix (be_write_u32 (recv_ctr t) @ aad) c of
        Some p \<Rightarrow> (Ok p, t\<lparr>recv_ctr := recv_ctr t + 1\<rparr>)
      | None \<Rightarrow> (Err ''authentication failed'', t))"

definition seq_xform :: "seq_state xform" where
  "seq_xform = \<lparr>xf_in = seq_inbound, xf_out = seq_outbound, max_overhead = DEFAULT_MAX_OVERHEAD\<rparr>"

definition seq_insync :: "seq_state \<Rightarrow> seq_state \<Rightarrow> bool" where
  "seq_insync t r \<longleftrightarrow> send_ctr t = recv_ctr r"

interpretation seq_sync: synced_transform seq_xform seq_insync
  by unfold_locales
    (auto simp: seq_xform_def seq_outbound_def seq_inbound_def seq_insync_def
      DEFAULT_MAX_OVERHEAD_def strip_prefix_append [of "_ @ _", simplified] split: if_splits)

subsection \<open>Properties\<close>

text \<open>
  C7: Stateful transforms stay in step. For any transform that keeps its contract, any sequence of
  sends on a connection, with any outcome of the slot reservation, the lock, the deadlines and the
  acknowledgements, only appends to the writer's queue; decoding the appended frames in wire order
  on a peer in step succeeds on every one, yields exactly the messages whose sends were enqueued,
  and leaves both ends in step. Every appended frame is within the limit and carries no deadline or
  cancellation control, so the writer may not drop it.
\<close>

theorem transform_send_in_step:
  assumes "synced_transform xf insync" and "insync t r"
    and "payload_transform cx = Some xf" and "payload_transform cx' = Some xf"
    and "\<forall>c \<in> set calls. honest (sc_msg c)"
    and "send_all cx calls t q = (rs, t', q', sent)"
  shows "\<exists>new r'. q' = q @ new
    \<and> recv_all cx' (map sm_msg new) r = (map (\<lambda>m. (Ok (), m)) sent, r')
    \<and> insync t' r' \<and> (\<forall>m \<in> set new. control m = None \<and> frame_ok (sm_msg m))"
  by (rule synced_transform.send_all_synced [OF assms(1,6,2-5)])

text \<open>A send that times out waiting for a slot, between two that go through.\<close>

definition free_env :: send_env where
  "free_env = \<lparr>try_reserve = True, reserve = Never, try_lock = True, lock = Never,
     ack = At 0 (Some (Ok ())), chan = 0\<rparr>"

definition sample_calls :: "send_call list" where
  "sample_calls =
     [\<lparr>sc_env = free_env, sc_rpc_error = False, sc_await_ack = True, sc_control = None,
        sc_msg = gen_new_data 1 [11]\<rparr>,
      \<lparr>sc_env = free_env\<lparr>try_reserve := False\<rparr>, sc_rpc_error = False, sc_await_ack = False,
        sc_control = Some \<lparr>mc_deadline = Some 5, mc_response_tx = 0\<rparr>,
        sc_msg = gen_new_data 3 [22]\<rparr>,
      \<lparr>sc_env = free_env, sc_rpc_error = False, sc_await_ack = False,
        sc_control = Some \<lparr>mc_deadline = Some 5, mc_response_tx = 0\<rparr>,
        sc_msg = gen_new_data 5 [33]\<rparr>]"

definition seq_ctx :: "(unit, seq_state) conn_ctx" where
  "seq_ctx = \<lparr>cx_data = Map.empty, payload_transform = Some seq_xform\<rparr>"

definition seq_start :: seq_state where
  "seq_start = \<lparr>send_ctr = 7, recv_ctr = 7\<rparr>"

lemma sample_calls_sent:
  "\<exists>t' q'. send_all seq_ctx sample_calls seq_start []
     = ([Some (Ok ()), Some (Err request_timeout_error), Some (Ok ())], t', q',
        [gen_new_data 1 [11], gen_new_data 5 [33]])"
  by (simp add: sample_calls_def transform_send_inner_def free_env_def reserve_message_slot_def
      acquire_lock_def outbound_def seq_ctx_def max_raw_payload_len_def seq_xform_def
      DEFAULT_MAX_OVERHEAD_def seq_outbound_def serialize_aad_def send_ack_def seq_start_def wire_simps)

theorem transform_send_in_step_witness:
  "\<exists>t' q' r'. send_all seq_ctx sample_calls seq_start []
     = ([Some (Ok ()), Some (Err request_timeout_error), Some (Ok ())], t', q',
        [gen_new_data 1 [11], gen_new_data 5 [33]])
     \<and> recv_all seq_ctx (map sm_msg q') seq_start
     = ([(Ok (), gen_new_data 1 [11]), (Ok (), gen_new_data 5 [33])], r')"
proof -
  obtain t' q' where all: "send_all seq_ctx sample_calls seq_start []
     = ([Some (Ok ()), Some (Err request_timeout_error), Some (Ok ())], t', q',
        [gen_new_data 1 [11], gen_new_data 5 [33]])"
    using sample_calls_sent by blast
  have ctx: "payload_transform seq_ctx = Some seq_xform" by (simp add: seq_ctx_def)
  have sync: "seq_insync seq_start seq_start" by (simp add: seq_insync_def seq_start_def)
  have hon: "\<forall>c \<in> set sample_calls. honest (sc_msg c)" by (simp add: sample_calls_def)
  from transform_send_in_step [OF seq_sync.synced_transform_axioms sync ctx ctx hon all]
  have "\<exists>r'. recv_all seq_ctx (map sm_msg q') seq_start
     = ([(Ok (), gen_new_data 1 [11]), (Ok (), gen_new_data 5 [33])], r')"
    by auto
  with all show ?thesis by blast
qed

text \<open>
  C8: The outbound pipeline is safe for any transform, even one that breaks its contract: when it
  succeeds the frame is within the limit, its header tells the true length and its routing fields
  are untouched, and the raw payload fitted the safe limit; a payload over the safe limit is refused
  before the transform runs, so the transform's state does not advance.
\<close>

theorem outbound_guarantees:
  assumes "honest msg" and "outbound cx t msg b = (r, t', m')"
  shows "(r = Ok () \<longrightarrow> frame_ok m' \<and> same_route msg m' \<and> length (payload msg) \<le> max_raw_payload_len cx)
    \<and> (max_raw_payload_len cx < length (payload msg) \<longrightarrow> \<not> is_ok r \<and> t' = t)"
proof -
  have "\<not> is_ok r \<and> t' = t" if long: "max_raw_payload_len cx < length (payload msg)"
    using assms(2)
  proof (cases rule: outbound_cases)
    case plain
    with long show ?thesis by (simp add: max_raw_payload_len_def)
  next
    case (failed xf e)
    with long assms(2) show ?thesis by (simp add: outbound_def)
  qed (use long in auto)
  with outbound_ok [of cx t msg b t' m'] assms show ?thesis by simp
qed

theorem outbound_guarantees_witness:
  "\<exists>t' m'. outbound seq_ctx seq_start (gen_new_data 3 [1, 2]) True = (Ok (), t', m')
     \<and> frame_ok m' \<and> same_route (gen_new_data 3 [1, 2]) m'"
proof -
  obtain r t' m' where o: "outbound seq_ctx seq_start (gen_new_data 3 [1, 2]) True = (r, t', m')"
    by (metis surj_pair)
  then have "r = Ok ()"
    by (auto simp: outbound_def seq_ctx_def max_raw_payload_len_def seq_xform_def
        DEFAULT_MAX_OVERHEAD_def seq_outbound_def serialize_aad_def wire_simps)
  with outbound_guarantees [OF honest_new(1) o] o show ?thesis by blast
qed

subsection \<open>The two build variants\<close>

text \<open>The same sends in a build without the extension.\<close>

fun noop_send_all :: "send_call list \<Rightarrow> sending_message list \<Rightarrow> (error + unit) option list \<times> sending_message list" where
  "noop_send_all [] q = ([], q)"
| "noop_send_all (c # cs) q =
     (case noop_transform_send_inner (sc_env c) (sc_rpc_error c) (sc_await_ack c) (sc_control c) (sc_msg c) q of
        (res, q1) \<Rightarrow> (case noop_send_all cs q1 of (rs, q2) \<Rightarrow> (res # rs, q2)))"

text \<open>
  A call on which the variants cannot differ: it gets the outbound lock, which only the full variant takes, and either its
  message passes the size check or it gets a slot of the queue, since the variants do these two in different orders.
\<close>

definition unhindered :: "send_call \<Rightarrow> bool" where
  "unhindered c \<longleftrightarrow>
     (let env = sc_env c; deadline = Option.bind (sc_control c) mc_deadline
      in acquire_lock env deadline = Some (Ok ())
       \<and> (is_ok (noop_outbound (sc_msg c) (sc_rpc_error c))
          \<or> reserve_message_slot (try_reserve env) (reserve env) deadline = Some (Ok ())))"

lemma noop_pipelines:
  fixes cx :: "('d, 't) conn_ctx"
  assumes "payload_transform cx = None"
  shows "inbound cx t msg b = (noop_inbound msg b, t, msg)" "outbound cx t msg b = (noop_outbound msg b, t, msg)"
    "inbound_buf cx t data aad b = (noop_inbound_buf data aad b, t)" "outbound_buf cx t data aad b = (noop_outbound_buf data aad b, t)"
    "max_raw_payload_len cx = noop_max_raw_payload_len"
  by (simp_all add: assms inbound_def noop_inbound_def outbound_def noop_outbound_def inbound_buf_def
      noop_inbound_buf_def outbound_buf_def noop_outbound_buf_def max_raw_payload_len_def noop_max_raw_payload_len_def)

lemma noop_send_cases:
  fixes cx :: "('d, 't) conn_ctx"
  assumes "payload_transform cx = None"
    and "transform_send_inner cx (sc_env c) (sc_rpc_error c) (sc_await_ack c) (sc_control c) (sc_msg c) t q = (res, t1, q1)"
    and "noop_transform_send_inner (sc_env c) (sc_rpc_error c) (sc_await_ack c) (sc_control c) (sc_msg c) r = (res0, r1)"
  obtains (same) new where "t1 = t" "q1 = q @ new" "r1 = r @ new" "res = res0"
    | (hindered) new where "\<not> unhindered c" "t1 = t" "q1 = q" "r1 = r @ new" "res \<noteq> Some (Ok ())"
proof -
  let ?env = "sc_env c" and ?dl = "Option.bind (sc_control c) mc_deadline"
  let ?slot = "reserve_message_slot (try_reserve ?env) (reserve ?env) ?dl" and ?lock = "acquire_lock ?env ?dl"
    and ?size = "noop_outbound (sc_msg c) (sc_rpc_error c)"
  have out: "outbound cx t (sc_msg c) (sc_rpc_error c) = (?size, t, sc_msg c)" by (rule noop_pipelines(2) [OF assms(1)])
  have r1: "\<exists>new. r1 = r @ new"
    using assms(3) by (auto simp: noop_transform_send_inner_def split: sum.splits option.splits)
  show thesis
  proof (cases "?slot = Some (Ok ()) \<and> ?lock = Some (Ok ())")
    case True
    then show thesis
      using assms(2,3) out by (intro same [of "if is_ok ?size then [enqueue ?env (sc_await_ack c) (sc_control c) (sc_msg c)] else []"])
        (auto simp: transform_send_inner_def noop_transform_send_inner_def assms(1) split: sum.splits)
  next
    case False
    then have full: "t1 = t" "q1 = q" "res \<noteq> Some (Ok ())"
      using assms(2) by (auto simp: transform_send_inner_def Let_def split: option.splits sum.splits)
    show thesis
    proof (cases "unhindered c")
      case True
      with False have "is_ok ?size" "?slot \<noteq> Some (Ok ())" "?lock = Some (Ok ())" by (auto simp: unhindered_def Let_def)
      then show thesis
        using assms(2,3) by (intro same [of "[]"])
          (auto simp: transform_send_inner_def noop_transform_send_inner_def Let_def split: option.splits sum.splits)
    qed (use full r1 hindered in blast)
  qed
qed

lemma subseqs_append: "xs \<in> set (subseqs ys) \<Longrightarrow> zs @ xs \<in> set (subseqs (zs @ ys))" "xs \<in> set (subseqs ys) \<Longrightarrow> xs \<in> set (subseqs (zs @ ys))"
  by (induction zs) (auto simp: Let_def)

lemma noop_send_all_agrees:
  fixes cx :: "('d, 't) conn_ctx"
  assumes "payload_transform cx = None" and "send_all cx cs t q = (rs, t', q', sent)" and "noop_send_all cs r = (rs0, r')"
  shows "\<exists>new new0. t' = t \<and> q' = q @ new \<and> r' = r @ new0 \<and> new \<in> set (subseqs new0)
    \<and> ((\<forall>c \<in> set cs. unhindered c) \<longrightarrow> rs = rs0 \<and> new = new0)"
  using assms(2,3)
proof (induction cs arbitrary: t q r rs rs0 sent)
  case (Cons c cs)
  obtain res t1 q1 where one: "transform_send_inner cx (sc_env c) (sc_rpc_error c) (sc_await_ack c) (sc_control c) (sc_msg c) t q = (res, t1, q1)"
    by (metis prod_cases3)
  obtain res0 r1 where one0: "noop_transform_send_inner (sc_env c) (sc_rpc_error c) (sc_await_ack c) (sc_control c) (sc_msg c) r = (res0, r1)"
    by (metis surj_pair)
  obtain rs1 sent1 where rest: "send_all cx cs t1 q1 = (rs1, t', q', sent1)" "rs = res # rs1"
    using Cons.prems(1) one by (auto split: prod.splits)
  obtain rs2 where rest0: "noop_send_all cs r1 = (rs2, r')" "rs0 = res0 # rs2"
    using Cons.prems(2) one0 by (auto split: prod.splits)
  obtain new new0 where ih: "t' = t1" "q' = q1 @ new" "r' = r1 @ new0" "new \<in> set (subseqs new0)"
      "(\<forall>c \<in> set cs. unhindered c) \<longrightarrow> rs1 = rs2 \<and> new = new0"
    using Cons.IH [OF rest(1) rest0(1)] by blast
  from assms(1) one one0 show ?case
  proof (cases rule: noop_send_cases)
    case (same new1)
    with ih rest(2) rest0(2) show ?thesis
      by (intro exI [of _ "new1 @ new"] exI [of _ "new1 @ new0"]) (auto simp: subseqs_append)
  next
    case (hindered new1)
    with ih show ?thesis
      by (intro exI [of _ new] exI [of _ "new1 @ new0"]) (auto simp: subseqs_append)
  qed
qed simp

text \<open>
  C26: A build without the extension does what the full one does without a transform, up to the waits that only the full
  one has. The message and buffer pipelines, the raw payload limit and the blocking send agree in result
  and effect. Over any sequence of asynchronous sends, whatever befalls each of them, the full variant leaves the transform's
  state alone and queues a subsequence of the frames that the other variant queues, with the same controls and acknowledgements;
  and if every send gets the outbound lock, which only the full variant takes, and no oversized message has to go without a
  slot of the queue, then all results and all queued frames are the same.
\<close>

theorem noop_equivalent:
  fixes cx :: "('d, 't) conn_ctx"
  assumes "payload_transform cx = None" and "send_all cx cs t q = (rs, t', q', sent)" and "noop_send_all cs q = (rs0, q0)"
  shows "inbound cx t msg b = (noop_inbound msg b, t, msg)
    \<and> outbound cx t msg b = (noop_outbound msg b, t, msg)
    \<and> inbound_buf cx t data aad b = (noop_inbound_buf data aad b, t)
    \<and> outbound_buf cx t data aad b = (noop_outbound_buf data aad b, t)
    \<and> max_raw_payload_len cx = noop_max_raw_payload_len
    \<and> send_response_sync cx data aad tx_open mh t sq
        = (case noop_send_response_sync data aad tx_open mh sq of (r, q') \<Rightarrow> (r, t, q'))
    \<and> t' = t \<and> (\<exists>new new0. q' = q @ new \<and> q0 = q @ new0 \<and> new \<in> set (subseqs new0))
    \<and> ((\<forall>c \<in> set cs. unhindered c) \<longrightarrow> rs = rs0 \<and> q' = q0)"
proof -
  have "send_response_sync cx data aad tx_open mh t sq
      = (case noop_send_response_sync data aad tx_open mh sq of (r, q') \<Rightarrow> (r, t, q'))"
    by (cases "check_oversize (length data) True")
      (simp_all add: send_response_sync_def noop_send_response_sync_def noop_pipelines(4) [OF assms(1)] noop_outbound_buf_def)
  with noop_pipelines [OF assms(1)] noop_send_all_agrees [OF assms] show ?thesis by blast
qed

text \<open>The sends of \<open>sample_calls\<close>, the second of which times out.\<close>

theorem noop_equivalent_witness:
  "\<exists>rs q sent. send_all (conn_ctx_default :: (unit, unit) conn_ctx) sample_calls () [] = (rs, (), q, sent)
     \<and> noop_send_all sample_calls [] = (rs, q) \<and> length q = 2"
proof -
  have n: "payload_transform (conn_ctx_default :: (unit, unit) conn_ctx) = None" by (simp add: conn_ctx_default_def)
  obtain rs t q sent where full: "send_all (conn_ctx_default :: (unit, unit) conn_ctx) sample_calls () [] = (rs, t, q, sent)"
    by (metis prod_cases4)
  obtain rs0 q0 where noop: "noop_send_all sample_calls [] = (rs0, q0)" by (metis surj_pair)
  have "\<forall>c \<in> set sample_calls. unhindered c"
    by (simp add: sample_calls_def unhindered_def free_env_def acquire_lock_def noop_outbound_def wire_simps)
  with noop_equivalent [OF n full noop] have "rs = rs0" "q = q0" by blast+
  moreover have "length q0 = 2"
    using noop by (auto simp: sample_calls_def noop_transform_send_inner_def noop_outbound_def free_env_def
        reserve_message_slot_def wire_simps)
  ultimately show ?thesis using full noop by auto
qed

text \<open>
  A configured accept hook is never bypassed: the connection is accepted only with the output
  that the hook itself returned for a duplicate of the connection's descriptor; a missing
  descriptor, a failing duplication, a failing or late hook task all reject the connection. Without
  a hook every connection is accepted with the empty context.
\<close>

theorem on_accept_no_bypass:
  "on_accept (Some h) raw_fd dup race = Ok res \<longleftrightarrow>
     (\<exists>fd dfd out. raw_fd = Some fd \<and> dup fd = Ok dfd \<and> race = HookFinished
        \<and> h dfd = Ok out \<and> res = Some out)"
  by (auto simp: on_accept_def split: option.splits sum.splits hook_race.splits)

end
