(* ===== verification/AsyncIO.thy ===== *)
theory AsyncIO
  imports Wire
begin

text \<open>
  Reading and writing frames over asynchronous byte streams, the \<open>async\<close> half of
  \<open>src/src/proto.rs\<close>. Tokio's \<open>read_exact\<close>, \<open>write_all\<close> and \<open>flush\<close> are function arguments over
  an abstract stream state; a failing call yields the text of its I/O error. What the crate relies
  on of them is stated by the locales \<open>exact_reader\<close> and \<open>byte_writer\<close>, whose instances here are the
  in-memory reader and writer used by the crate's own tests (\<open>&[u8]\<close> and \<open>Cursor<Vec<u8>>\<close>).
\<close>

type_synonym 's read_exact = "'s \<Rightarrow> nat \<Rightarrow> (string + bytes) \<times> 's"
type_synonym 's write_all = "'s \<Rightarrow> bytes \<Rightarrow> (string + unit) \<times> 's"
type_synonym 's flush = "'s \<Rightarrow> (string + unit) \<times> 's"

subsection \<open>Header I/O\<close>

text \<open>\<open>write_u32\<close> and \<open>write_u8\<close> are \<open>write_all\<close> of the big-endian bytes.\<close>

definition header_write_to ::
  "'s write_all \<Rightarrow> 's flush \<Rightarrow> message_header \<Rightarrow> 's \<Rightarrow> (string + unit) \<times> 's" where
  "header_write_to wr fl mh s0 =
     (case wr s0 (be_write_u32 (mh_length mh)) of
        (Inl e, s1) \<Rightarrow> (Err e, s1)
      | (Inr _, s1) \<Rightarrow>
      (case wr s1 (be_write_u32 (stream_id mh)) of
        (Inl e, s2) \<Rightarrow> (Err e, s2)
      | (Inr _, s2) \<Rightarrow>
      (case wr s2 [mh_type mh] of
        (Inl e, s3) \<Rightarrow> (Err e, s3)
      | (Inr _, s3) \<Rightarrow>
      (case wr s3 [flags mh] of
        (Inl e, s4) \<Rightarrow> (Err e, s4)
      | (Inr _, s4) \<Rightarrow> fl s4))))"

text \<open>
  \<open>read_exact\<close> fills the whole ten-byte array, so the conversion from bytes cannot panic; a
  conforming \<open>read_exact\<close> never takes the last branch.
\<close>

definition header_read_from :: "'s read_exact \<Rightarrow> 's \<Rightarrow> (string + message_header) \<times> 's" where
  "header_read_from rd s =
     (case rd s MESSAGE_HEADER_LENGTH of
        (Inl e, s') \<Rightarrow> (Err e, s')
      | (Inr content, s') \<Rightarrow>
          (case header_from content of
             Some mh \<Rightarrow> (Ok mh, s')
           | None \<Rightarrow> (Err ''short read'', s')))"

subsection \<open>Frame I/O\<close>

text \<open>The loop of \<open>discard_message_body\<close>: at most one page is read per round.\<close>

function discard_loop :: "'s read_exact \<Rightarrow> 's \<Rightarrow> nat \<Rightarrow> (error + unit) \<times> 's" where
  "discard_loop rd s need_discard =
     (if need_discard > 0 then
        let once_discard = min DEFAULT_PAGE_SIZE need_discard
        in case rd s once_discard of
             (Inl e, s') \<Rightarrow> (Err (Socket e), s')
           | (Inr _, s') \<Rightarrow> discard_loop rd s' (need_discard - once_discard)
      else (Ok (), s))"
  by pat_completeness auto
termination
  by (relation "measure (\<lambda>(rd, s, n). n)") auto

declare discard_loop.simps [simp del]

definition discard_message_body :: "'s read_exact \<Rightarrow> 's \<Rightarrow> message_header \<Rightarrow> (error + unit) \<times> 's" where
  "discard_message_body rd s mh = discard_loop rd s (unat (mh_length mh))"

definition gen_read_from :: "'s read_exact \<Rightarrow> 's \<Rightarrow> (gen_message_error + gen_message) \<times> 's" where
  "gen_read_from rd s0 =
     (case header_read_from rd s0 of
        (Inl e, s1) \<Rightarrow> (Err (InternalError (Socket e)), s1)
      | (Inr mh, s1) \<Rightarrow>
          (case check_oversize (unat (mh_length mh)) True of
             Inl e \<Rightarrow>
               (case discard_message_body rd s1 mh of
                  (Inl e', s2) \<Rightarrow> (Err (InternalError e'), s2)
                | (Inr _, s2) \<Rightarrow> (Err (ReturnError mh e), s2))
           | Inr _ \<Rightarrow>
               (case rd s1 (unat (mh_length mh)) of
                  (Inl e, s2) \<Rightarrow> (Err (InternalError (Socket e)), s2)
                | (Inr content, s2) \<Rightarrow> (Ok \<lparr>header = mh, payload = content\<rparr>, s2))))"

text \<open>
  \<open>write_message_buffered\<close>: the header and the start of the payload go into the reused prefix
  buffer, which is written first, then the rest of the payload, then one flush. \<open>reserve_exact\<close>
  only changes the buffer's capacity and has no counterpart; \<open>resize\<close> truncates or zero-fills.
  The branch for a panicking \<open>into_buf\<close> is never taken (\<open>fill_prefix_eq\<close>).
\<close>

definition vec_resize :: "nat \<Rightarrow> bytes \<Rightarrow> bytes" where
  "vec_resize n v = take n v @ replicate (n - length v) 0"

definition fill_prefix :: "message_header \<Rightarrow> bytes \<Rightarrow> nat \<Rightarrow> bytes \<Rightarrow> bytes option" where
  "fill_prefix mh p prefix_len prefix =
     (let len = MESSAGE_HEADER_LENGTH + prefix_len
      in case into_buf mh (vec_resize len prefix) of
           None \<Rightarrow> None
         | Some buf \<Rightarrow> Some (take MESSAGE_HEADER_LENGTH buf @ take prefix_len p))"

definition write_message_buffered ::
  "'s write_all \<Rightarrow> 's flush \<Rightarrow> 's \<Rightarrow> message_header \<Rightarrow> bytes \<Rightarrow> bytes
    \<Rightarrow> (error + unit) \<times> 's \<times> bytes" where
  "write_message_buffered wr fl s0 mh p prefix =
     (let prefix_len = min (length p) (DEFAULT_PAGE_SIZE - MESSAGE_HEADER_LENGTH)
      in case fill_prefix mh p prefix_len prefix of
           None \<Rightarrow> (Err (Others ''panic''), s0, prefix)
         | Some prefix' \<Rightarrow>
             (case wr s0 prefix' of
                (Inl e, s1) \<Rightarrow> (Err (Socket e), s1, prefix')
              | (Inr _, s1) \<Rightarrow>
                  (case wr s1 (drop prefix_len p) of
                     (Inl e, s2) \<Rightarrow> (Err (Socket e), s2, prefix')
                   | (Inr _, s2) \<Rightarrow>
                       (case fl s2 of
                          (Inl e, s3) \<Rightarrow> (Err (Socket e), s3, prefix')
                        | (Inr _, s3) \<Rightarrow> (Ok (), s3, prefix')))))"

definition write_message ::
  "'s write_all \<Rightarrow> 's flush \<Rightarrow> 's \<Rightarrow> message_header \<Rightarrow> bytes \<Rightarrow> (error + unit) \<times> 's" where
  "write_message wr fl s mh p = (case write_message_buffered wr fl s mh p [] of (r, s', _) \<Rightarrow> (r, s'))"

definition gen_write_to :: "'s write_all \<Rightarrow> 's flush \<Rightarrow> gen_message \<Rightarrow> 's \<Rightarrow> (error + unit) \<times> 's" where
  "gen_write_to wr fl m s = write_message wr fl s (header m) (payload m)"

definition gen_write_to_buffered ::
  "'s write_all \<Rightarrow> 's flush \<Rightarrow> gen_message \<Rightarrow> 's \<Rightarrow> bytes \<Rightarrow> (error + unit) \<times> 's \<times> bytes" where
  "gen_write_to_buffered wr fl m s prefix =
     write_message_buffered wr fl s (header m) (payload m) prefix"

subsection \<open>Typed frames\<close>

definition message_write_to ::
  "'m codec \<Rightarrow> 's write_all \<Rightarrow> 's flush \<Rightarrow> 'm message \<Rightarrow> 's \<Rightarrow> (error + unit) \<times> 's" where
  "message_write_to c wr fl m s =
     (case c_encode c (msg_payload m) of
        Inl e \<Rightarrow> (Err (err_to_others ''Encode payload failed.'' e), s)
      | Inr content \<Rightarrow> write_message wr fl s (msg_header m) content)"

definition message_read_from :: "'m codec \<Rightarrow> 's read_exact \<Rightarrow> 's \<Rightarrow> (error + 'm message) \<times> 's" where
  "message_read_from c rd s0 =
     (let decode = (\<lambda>mh content s.
            case c_decode c content of
              Inl e \<Rightarrow> (Err (err_to_others ''Decode payload failed.'' e), s)
            | Inr p \<Rightarrow> (Ok \<lparr>msg_header = mh, msg_payload = p\<rparr>, s))
      in case header_read_from rd s0 of
           (Inl e, s1) \<Rightarrow> (Err (Socket e), s1)
         | (Inr mh, s1) \<Rightarrow>
             if \<not> is_ok (check_oversize (unat (mh_length mh)) True) then
               (case discard_message_body rd s1 mh of
                  (Inl e, s2) \<Rightarrow> (Err e, s2)
                | (Inr _, s2) \<Rightarrow> decode mh [] s2)
             else
               (case rd s1 (unat (mh_length mh)) of
                  (Inl e, s2) \<Rightarrow> (Err (Socket e), s2)
                | (Inr content, s2) \<Rightarrow> decode mh content s2))"

subsection \<open>The framing specification\<close>

text \<open>
  What a stream of bytes means as a frame, independent of how it is read: the outcome and the bytes
  after the frame. \<open>Oversize\<close> frames are recognised by their header and skipped as a whole.
\<close>

datatype parsed = Frame gen_message | Oversize message_header | Truncated

definition parse_frame :: "bytes \<Rightarrow> parsed \<times> bytes" where
  "parse_frame bs =
     (case header_from bs of
        None \<Rightarrow> (Truncated, [])
      | Some mh \<Rightarrow>
          (let n = unat (mh_length mh); body = drop MESSAGE_HEADER_LENGTH bs
           in if length body < n then (Truncated, [])
              else if MESSAGE_LENGTH_MAX < n then (Oversize mh, drop n body)
              else (Frame \<lparr>header = mh, payload = take n body\<rparr>, drop n body)))"

lemma parse_frame_FrameE:
  assumes "parse_frame bs = (Frame m, tail)"
  obtains mh where "header_from bs = Some mh" "unat (mh_length mh) \<le> MESSAGE_LENGTH_MAX"
    "unat (mh_length mh) \<le> length (drop 10 bs)"
    "m = \<lparr>header = mh, payload = take (unat (mh_length mh)) (drop 10 bs)\<rparr>"
    "tail = drop (unat (mh_length mh)) (drop 10 bs)"
  using assms by (auto simp: parse_frame_def Let_def split: option.splits if_splits)

lemma parse_frame_OversizeE:
  assumes "parse_frame bs = (Oversize mh, tail)"
  obtains "header_from bs = Some mh" "MESSAGE_LENGTH_MAX < unat (mh_length mh)"
    "unat (mh_length mh) \<le> length (drop 10 bs)" "tail = drop (unat (mh_length mh)) (drop 10 bs)"
  using assms by (auto simp: parse_frame_def Let_def split: option.splits if_splits)

lemma parse_frame_TruncatedE:
  assumes "parse_frame bs = (Truncated, tail)"
  obtains (no_header) "header_from bs = None"
    | (body) mh where "header_from bs = Some mh" "length (drop 10 bs) < unat (mh_length mh)"
  using assms by (auto simp: parse_frame_def Let_def split: option.splits if_splits)

lemma parse_frame_bytes:
  "frame_ok m \<Longrightarrow> parse_frame (frame_bytes m @ tail) = (Frame m, tail)"
  by (simp add: parse_frame_def frame_bytes_def frame_ok_def Let_def)

lemma parse_frame_oversize:
  "\<lbrakk>length body = unat (mh_length mh); MESSAGE_LENGTH_MAX < length body\<rbrakk>
   \<Longrightarrow> parse_frame (header_bytes mh @ body @ tail) = (Oversize mh, tail)"
  by (simp add: parse_frame_def Let_def)

subsection \<open>What a byte reader promises\<close>

locale exact_reader =
  fixes rd :: "'s read_exact" and rest :: "'s \<Rightarrow> bytes"
  assumes read_enough:
      "n \<le> length (rest s) \<Longrightarrow> \<exists>s'. rd s n = (Ok (take n (rest s)), s') \<and> rest s' = drop n (rest s)"
    and read_eof: "length (rest s) < n \<Longrightarrow> \<exists>e s'. rd s n = (Err e, s')"
begin

lemma discard_loop_enough:
  "n \<le> length (rest s) \<Longrightarrow>
     \<exists>s'. discard_loop rd s n = (Ok (), s') \<and> rest s' = drop n (rest s)"
proof (induction n arbitrary: s rule: less_induct)
  case (less n)
  show ?case
  proof (cases "n = 0")
    case True
    then show ?thesis by (simp add: discard_loop.simps)
  next
    case False
    let ?k = "min DEFAULT_PAGE_SIZE n"
    have k: "?k \<le> length (rest s)" "0 < ?k" "n - ?k < n"
      using False less.prems by auto
    obtain s1 where s1: "rd s ?k = (Ok (take ?k (rest s)), s1)" "rest s1 = drop ?k (rest s)"
      using read_enough [OF k(1)] by blast
    have le: "n - ?k \<le> length (rest s1)"
      unfolding s1(2) length_drop using less.prems by (rule diff_le_mono)
    obtain s2 where s2: "discard_loop rd s1 (n - ?k) = (Ok (), s2)"
        "rest s2 = drop (n - ?k) (rest s1)"
      using less.IH [OF k(3) le] by blast
    have "rest s2 = drop n (rest s)"
      unfolding s2(2) s1(2) drop_drop by (rule arg_cong [of _ _ "\<lambda>i. drop i (rest s)"]) auto
    with s1 s2 False show ?thesis
      by (subst discard_loop.simps) (simp add: Let_def)
  qed
qed

lemma discard_loop_eof:
  "length (rest s) < n \<Longrightarrow> \<exists>e s'. discard_loop rd s n = (Err (Socket e), s')"
proof (induction n arbitrary: s rule: less_induct)
  case (less n)
  let ?k = "min DEFAULT_PAGE_SIZE n"
  have n: "0 < n" "n - ?k < n" using less.prems by auto
  show ?case
  proof (cases "?k \<le> length (rest s)")
    case False
    then have "length (rest s) < ?k" by (simp only: not_le)
    then obtain e s1 where "rd s ?k = (Err e, s1)"
      using read_eof by blast
    with n show ?thesis by (subst discard_loop.simps) (simp add: Let_def)
  next
    case True
    obtain s1 where s1: "rd s ?k = (Ok (take ?k (rest s)), s1)" "rest s1 = drop ?k (rest s)"
      using read_enough [OF True] by blast
    have "length (rest s1) < n - ?k"
      unfolding s1(2) length_drop using less.prems True by (rule diff_less_mono)
    then obtain e s2 where "discard_loop rd s1 (n - ?k) = (Err (Socket e), s2)"
      using less.IH [OF n(2)] by blast
    with n s1 show ?thesis by (subst discard_loop.simps) (simp add: Let_def)
  qed
qed

lemma header_read_ok:
  assumes "rest s = header_bytes mh @ tl_bytes"
  shows "\<exists>s'. header_read_from rd s = (Ok mh, s') \<and> rest s' = tl_bytes"
proof -
  obtain s' where "rd s 10 = (Ok (take 10 (rest s)), s')" "rest s' = drop 10 (rest s)"
    using read_enough [of 10 s] assms by auto
  moreover have "header_from (header_bytes mh) = Some mh"
    using header_from_bytes [of mh "[]"] by simp
  ultimately show ?thesis
    using assms by (simp add: header_read_from_def)
qed

lemma gen_read_frame:
  assumes "rest s = frame_bytes m @ tail" and "frame_ok m"
  shows "\<exists>s'. gen_read_from rd s = (Ok m, s') \<and> rest s' = tail"
proof -
  obtain s1 where s1: "header_read_from rd s = (Ok (header m), s1)" "rest s1 = payload m @ tail"
    using header_read_ok [of s "header m" "payload m @ tail"] assms(1) by (auto simp: frame_bytes_def)
  obtain s2 where "rd s1 (length (payload m)) = (Ok (payload m), s2)" "rest s2 = tail"
    using read_enough [of "length (payload m)" s1] s1(2) by auto
  with s1 assms(2) show ?thesis
    by (simp add: gen_read_from_def frame_ok_def)
qed

lemma gen_read_oversize:
  assumes "rest s = header_bytes mh @ body @ tail"
    and "length body = unat (mh_length mh)" and "MESSAGE_LENGTH_MAX < length body"
  shows "\<exists>e s'. gen_read_from rd s = (Err (ReturnError mh e), s')
           \<and> check_oversize (length body) True = Err e \<and> rest s' = tail"
proof -
  obtain s1 where s1: "header_read_from rd s = (Ok mh, s1)" "rest s1 = body @ tail"
    using header_read_ok [OF assms(1)] by blast
  obtain s2 where "discard_loop rd s1 (length body) = (Ok (), s2)" "rest s2 = tail"
    using discard_loop_enough [of "length body" s1] s1(2) by auto
  with s1 assms(2,3) show ?thesis
    by (auto simp: gen_read_from_def discard_message_body_def check_oversize_def Let_def)
qed

end

context exact_reader
begin

lemma header_read_some:
  assumes "header_from (rest s) = Some mh"
  shows "\<exists>s'. header_read_from rd s = (Ok mh, s') \<and> rest s' = drop 10 (rest s)"
  using header_read_ok header_from_Some [OF assms] by blast

lemma header_read_none:
  assumes "header_from (rest s) = None"
  shows "\<exists>e s'. header_read_from rd s = (Err e, s')"
  using assms read_eof [of s 10] by (auto simp: header_read_from_def header_from_short)

lemma gen_read_truncated:
  assumes "parse_frame (rest s) = (Truncated, tail)"
  shows "\<exists>e s'. gen_read_from rd s = (Err (InternalError (Socket e)), s')"
  using assms
proof (cases rule: parse_frame_TruncatedE)
  case no_header
  then show ?thesis
    using header_read_none [of s] by (auto simp: gen_read_from_def)
next
  case (body mh)
  obtain s1 where s1: "header_read_from rd s = (Ok mh, s1)" "rest s1 = drop 10 (rest s)"
    using header_read_some [OF body(1)] by blast
  have short: "length (rest s1) < unat (mh_length mh)"
    using body(2) s1(2) by simp
  show ?thesis
  proof (cases "unat (mh_length mh) \<le> MESSAGE_LENGTH_MAX")
    case True
    with read_eof [OF short] s1 show ?thesis by (auto simp: gen_read_from_def)
  next
    case False
    with discard_loop_eof [OF short] s1 show ?thesis
      by (auto simp: gen_read_from_def discard_message_body_def check_oversize_def Let_def)
  qed
qed

lemma gen_read_refines:
  "case parse_frame (rest s) of
     (Frame m, tail) \<Rightarrow> \<exists>s'. gen_read_from rd s = (Ok m, s') \<and> rest s' = tail
   | (Oversize mh, tail) \<Rightarrow>
       \<exists>e s'. gen_read_from rd s = (Err (ReturnError mh e), s')
         \<and> check_oversize (unat (mh_length mh)) True = Err e \<and> rest s' = tail
   | (Truncated, _) \<Rightarrow> \<exists>e s'. gen_read_from rd s = (Err (InternalError (Socket e)), s')"
proof (cases "parse_frame (rest s)")
  case (Pair res tail)
  show ?thesis
  proof (cases res)
    case (Frame m)
    with Pair have "parse_frame (rest s) = (Frame m, tail)" by simp
    then obtain mh where mh: "header_from (rest s) = Some mh"
      "unat (mh_length mh) \<le> MESSAGE_LENGTH_MAX" "unat (mh_length mh) \<le> length (drop 10 (rest s))"
      "m = \<lparr>header = mh, payload = take (unat (mh_length mh)) (drop 10 (rest s))\<rparr>"
      "tail = drop (unat (mh_length mh)) (drop 10 (rest s))"
      by (rule parse_frame_FrameE)
    have "rest s = frame_bytes m @ tail"
      using header_from_Some [OF mh(1)] unfolding frame_bytes_def mh(4,5)
      by (simp only: gen_message.simps append.assoc append_take_drop_id)
    moreover have "frame_ok m" using mh by (simp add: frame_ok_def)
    ultimately have "\<exists>s'. gen_read_from rd s = (Ok m, s') \<and> rest s' = tail"
      by (rule gen_read_frame)
    with Pair Frame show ?thesis by simp
  next
    case (Oversize mh)
    with Pair have "parse_frame (rest s) = (Oversize mh, tail)" by simp
    then obtain mh: "header_from (rest s) = Some mh" "MESSAGE_LENGTH_MAX < unat (mh_length mh)"
        "unat (mh_length mh) \<le> length (drop 10 (rest s))"
        "tail = drop (unat (mh_length mh)) (drop 10 (rest s))"
      by (rule parse_frame_OversizeE)
    let ?body = "take (unat (mh_length mh)) (drop 10 (rest s))"
    have len: "length ?body = unat (mh_length mh)" using mh(3) by simp
    have "rest s = header_bytes mh @ ?body @ tail"
      using header_from_Some [OF mh(1)] unfolding mh(4) by (simp only: append_take_drop_id)
    from gen_read_oversize [OF this len] mh(2) Pair Oversize show ?thesis
      unfolding len by simp
  next
    case Truncated
    with Pair gen_read_truncated [of s tail] show ?thesis by simp
  qed
qed

end

subsection \<open>What a byte writer promises\<close>

text \<open>
  \<open>out s\<close> is what has been written so far; \<open>ok s\<close> says the writer has not failed. A writer that
  fails reports an error, and then nothing is promised about the bytes of that call.
\<close>

locale byte_writer =
  fixes wr :: "'s write_all" and fl :: "'s flush" and out :: "'s \<Rightarrow> bytes" and ok :: "'s \<Rightarrow> bool"
  assumes write_ok: "ok s \<Longrightarrow> \<exists>s'. wr s bs = (Ok (), s') \<and> out s' = out s @ bs \<and> ok s'"
    and flush_ok: "ok s \<Longrightarrow> \<exists>s'. fl s = (Ok (), s') \<and> out s' = out s \<and> ok s'"
begin

lemma header_write_ok:
  assumes "ok s"
  shows "\<exists>s'. header_write_to wr fl mh s = (Ok (), s') \<and> out s' = out s @ header_bytes mh \<and> ok s'"
proof -
  obtain s1 where 1: "wr s (be_write_u32 (mh_length mh)) = (Ok (), s1)"
      "out s1 = out s @ be_write_u32 (mh_length mh)" "ok s1"
    using write_ok [OF assms] by blast
  obtain s2 where 2: "wr s1 (be_write_u32 (stream_id mh)) = (Ok (), s2)"
      "out s2 = out s1 @ be_write_u32 (stream_id mh)" "ok s2"
    using write_ok [OF 1(3)] by blast
  obtain s3 where 3: "wr s2 [mh_type mh] = (Ok (), s3)" "out s3 = out s2 @ [mh_type mh]" "ok s3"
    using write_ok [OF 2(3)] by blast
  obtain s4 where 4: "wr s3 [flags mh] = (Ok (), s4)" "out s4 = out s3 @ [flags mh]" "ok s4"
    using write_ok [OF 3(3)] by blast
  from flush_ok [OF 4(3)] 1 2 3 4 show ?thesis
    by (auto simp: header_write_to_def header_bytes_def)
qed

end

lemma length_vec_resize [simp]: "length (vec_resize n v) = n"
  by (simp add: vec_resize_def)

lemma fill_prefix_eq: "fill_prefix mh p k prefix = Some (header_bytes mh @ take k p)"
  by (simp add: fill_prefix_def into_buf_eq)

lemma write_message_buffered_eq:
  "write_message_buffered wr fl s0 mh p prefix =
     (let k = min (length p) (DEFAULT_PAGE_SIZE - MESSAGE_HEADER_LENGTH);
          prefix' = header_bytes mh @ take k p
      in case wr s0 prefix' of
           (Inl e, s1) \<Rightarrow> (Err (Socket e), s1, prefix')
         | (Inr _, s1) \<Rightarrow>
             (case wr s1 (drop k p) of
                (Inl e, s2) \<Rightarrow> (Err (Socket e), s2, prefix')
              | (Inr _, s2) \<Rightarrow>
                  (case fl s2 of
                     (Inl e, s3) \<Rightarrow> (Err (Socket e), s3, prefix')
                   | (Inr _, s3) \<Rightarrow> (Ok (), s3, prefix'))))"
  by (simp add: write_message_buffered_def fill_prefix_eq Let_def)

text \<open>The prefix buffer never outgrows one page, whatever it held before.\<close>

lemma write_message_buffered_prefix:
  assumes "write_message_buffered wr fl s mh p prefix = (r, s', prefix')"
  shows "length prefix' \<le> DEFAULT_PAGE_SIZE"
  using assms
  by (auto simp: write_message_buffered_eq Let_def split: sum.splits prod.splits)

context byte_writer
begin

lemma write_buffered_ok:
  assumes "ok s"
  shows "\<exists>s' prefix'. write_message_buffered wr fl s mh p prefix = (Ok (), s', prefix')
           \<and> out s' = out s @ header_bytes mh @ p \<and> ok s'"
proof -
  let ?k = "min (length p) (DEFAULT_PAGE_SIZE - MESSAGE_HEADER_LENGTH)"
  obtain s1 where 1: "wr s (header_bytes mh @ take ?k p) = (Ok (), s1)"
      "out s1 = out s @ header_bytes mh @ take ?k p" "ok s1"
    using write_ok [OF assms] by blast
  obtain s2 where 2: "wr s1 (drop ?k p) = (Ok (), s2)" "out s2 = out s1 @ drop ?k p" "ok s2"
    using write_ok [OF 1(3)] by blast
  obtain s3 where "fl s2 = (Ok (), s3)" "out s3 = out s2" "ok s3"
    using flush_ok [OF 2(3)] by blast
  with 1 2 show ?thesis
    by (simp add: write_message_buffered_eq Let_def)
qed

end

subsection \<open>Whole connections\<close>

text \<open>The writer task's loop over queued frames, with its one reused prefix buffer.\<close>

fun write_frames ::
  "'s write_all \<Rightarrow> 's flush \<Rightarrow> 's \<Rightarrow> bytes \<Rightarrow> gen_message list \<Rightarrow> (error + unit) \<times> 's" where
  "write_frames wr fl s prefix [] = (Ok (), s)"
| "write_frames wr fl s prefix (m # ms) =
     (case gen_write_to_buffered wr fl m s prefix of
        (Inl e, s', prefix') \<Rightarrow> (Err e, s')
      | (Inr _, s', prefix') \<Rightarrow> write_frames wr fl s' prefix' ms)"

text \<open>Reading a given number of frames in wire order.\<close>

fun read_frames :: "'s read_exact \<Rightarrow> 's \<Rightarrow> nat \<Rightarrow> (gen_message_error + gen_message) list \<times> 's" where
  "read_frames rd s 0 = ([], s)"
| "read_frames rd s (Suc n) =
     (case gen_read_from rd s of (r, s') \<Rightarrow>
        (case read_frames rd s' n of (rs, s'') \<Rightarrow> (r # rs, s'')))"

context byte_writer
begin

lemma write_frames_ok:
  "ok s \<Longrightarrow> \<exists>s'. write_frames wr fl s prefix ms = (Ok (), s')
     \<and> out s' = out s @ concat (map frame_bytes ms) \<and> ok s'"
proof (induction ms arbitrary: s prefix)
  case Nil
  then show ?case by simp
next
  case (Cons m ms)
  obtain s1 prefix1 where
    1: "write_message_buffered wr fl s (header m) (payload m) prefix = (Ok (), s1, prefix1)"
      "out s1 = out s @ frame_bytes m" "ok s1"
    using write_buffered_ok [OF Cons.prems] unfolding frame_bytes_def by blast
  from Cons.IH [OF 1(3), of prefix1] 1 show ?case
    by (auto simp: gen_write_to_buffered_def)
qed

end

context exact_reader
begin

lemma read_frames_ok:
  "\<lbrakk> \<forall>m \<in> set ms. frame_ok m; rest s = concat (map frame_bytes ms) @ tail \<rbrakk>
   \<Longrightarrow> \<exists>s'. read_frames rd s (length ms) = (map Ok ms, s') \<and> rest s' = tail"
proof (induction ms arbitrary: s)
  case Nil
  then show ?case by simp
next
  case (Cons m ms)
  obtain s1 where s1: "gen_read_from rd s = (Ok m, s1)"
      "rest s1 = concat (map frame_bytes ms) @ tail"
    using gen_read_frame [of s m "concat (map frame_bytes ms) @ tail"] Cons.prems by auto
  with Cons.IH [of s1] Cons.prems show ?case by auto
qed

end

subsection \<open>In-memory streams\<close>

text \<open>\<open>&[u8]\<close> as a reader: \<open>read_exact\<close> past the end reports \<open>UnexpectedEof\<close> and empties the slice.\<close>

definition slice_read :: "bytes read_exact" where
  "slice_read s n =
     (if n \<le> length s then (Ok (take n s), drop n s) else (Err ''early eof'', []))"

text \<open>A growing \<open>Vec<u8>\<close> as a writer.\<close>

definition vec_write :: "bytes write_all" where
  "vec_write s bs = (Ok (), s @ bs)"

definition vec_flush :: "bytes flush" where
  "vec_flush s = (Ok (), s)"

interpretation slice: exact_reader slice_read "\<lambda>s. s"
  by unfold_locales (auto simp: slice_read_def)

interpretation vec: byte_writer vec_write vec_flush "\<lambda>s. s" "\<lambda>_. True"
  by unfold_locales (auto simp: vec_write_def vec_flush_def)

subsection \<open>Properties\<close>

text \<open>
  C5: Frames survive the connection. Whatever frames within the limit a writer task queues, over
  any writer that accepts bytes and any reader that delivers the same bytes (followed by anything),
  the writer succeeds with one reused prefix buffer of arbitrary old content, and reading as many
  frames gives back exactly the queued frames in order and leaves the bytes that follow unread.
\<close>

theorem frames_roundtrip:
  assumes "byte_writer wr fl out ok" and "exact_reader rd rest"
    and "ok s" and "out s = []" and "\<forall>m \<in> set ms. frame_ok m"
  shows "\<exists>s'. write_frames wr fl s prefix ms = (Ok (), s')
    \<and> (\<forall>r tail. rest r = out s' @ tail \<longrightarrow>
         (\<exists>r'. read_frames rd r (length ms) = (map Ok ms, r') \<and> rest r' = tail))"
proof -
  obtain s' where s': "write_frames wr fl s prefix ms = (Ok (), s')"
      "out s' = concat (map frame_bytes ms)"
    using byte_writer.write_frames_ok [OF assms(1,3), of prefix ms] assms(4) by auto
  show ?thesis
    unfolding s'(2) [symmetric]
    using s' exact_reader.read_frames_ok [OF assms(2,5)] by metis
qed

theorem frames_roundtrip_witness:
  "\<exists>bs. write_frames vec_write vec_flush [] [1] [gen_new_data 3 [7, 8], gen_new_close 3] = (Ok (), bs)
     \<and> (\<exists>r'. read_frames slice_read (bs @ [9]) 2
            = ([Ok (gen_new_data 3 [7, 8]), Ok (gen_new_close 3)], r') \<and> r' = [9])"
proof -
  let ?ms = "[gen_new_data 3 [7, 8], gen_new_close 3]"
  have "\<forall>m \<in> set ?ms. frame_ok m"
    by (simp add: frame_ok_new)
  from frames_roundtrip [OF vec.byte_writer_axioms slice.exact_reader_axioms TrueI refl this]
  obtain bs where bs: "write_frames vec_write vec_flush [] [1] ?ms = (Ok (), bs)"
    "\<forall>r tail. r = bs @ tail \<longrightarrow> (\<exists>r'. read_frames slice_read r (length ?ms) = (map Ok ?ms, r') \<and> r' = tail)"
    by blast
  from bs(2) [rule_format, of "bs @ [9]" "[9]"] have
    "\<exists>r'. read_frames slice_read (bs @ [9]) 2 = (map Ok ?ms, r') \<and> r' = [9]"
    by (simp add: numeral_2_eq_2)
  with bs(1) show ?thesis by auto
qed

text \<open>
  C6: The asynchronous reader implements the framing specification over any stream: a frame within
  the limit is returned, an oversized frame is reported with its header as a recoverable error
  after all of its body has been skipped, so that the stream stays aligned on the next frame, and a
  truncated frame is an internal (fatal) error.
\<close>

theorem gen_read_from_refines:
  assumes "exact_reader rd rest"
  shows "case parse_frame (rest s) of
     (Frame m, tail) \<Rightarrow> \<exists>s'. gen_read_from rd s = (Ok m, s') \<and> rest s' = tail
   | (Oversize mh, tail) \<Rightarrow>
       \<exists>e s'. gen_read_from rd s = (Err (ReturnError mh e), s')
         \<and> check_oversize (unat (mh_length mh)) True = Err e \<and> rest s' = tail
   | (Truncated, _) \<Rightarrow> \<exists>e s'. gen_read_from rd s = (Err (InternalError (Socket e)), s')"
  by (rule exact_reader.gen_read_refines [OF assms])

definition big_header :: message_header where
  "big_header = header_new_request 5 4194305"

theorem gen_read_from_refines_witness:
  "\<exists>e s'. gen_read_from slice_read (header_bytes big_header @ replicate 4194305 0 @ [1, 2])
     = (Err (ReturnError big_header e), s') \<and> s' = [1, 2]"
proof -
  have "parse_frame (header_bytes big_header @ replicate 4194305 0 @ [1, 2])
      = (Oversize big_header, [1, 2])"
    by (rule parse_frame_oversize) (simp_all add: big_header_def wire_simps)
  with gen_read_from_refines [OF slice.exact_reader_axioms,
      where s = "header_bytes big_header @ replicate 4194305 0 @ [1, 2]"]
  show ?thesis by auto
qed

end
