(* ===== verification/Connection.thy ===== *)
theory Connection
  imports Transform AsyncIO
begin

text \<open>
  The connection driver, \<open>src/src/asynchronous/connection.rs\<close>: the writer task, which serialises
  queued messages onto the transport and honours deadlines and cancellation, and the reader loop,
  which hands frames to a delegate. The delegate interface (\<open>ReaderDelegate\<close>) is a record of state
  transformers, with the locale \<open>delegate_laws\<close> for invariants; the client's and the server's
  readers are its instances.
\<close>

subsection \<open>The writer task\<close>

datatype write_outcome =
  Complete "error + unit" | Discarded error | Cancelled | DeadlineElapsed

text \<open>
  What one message meets: the time and whether its requester is gone when the writer picks it up,
  and which branch of the \<open>select!\<close> finishes first. A lost race leaves the given number of bytes of
  the frame on the wire.
\<close>

datatype write_race = WriteFirst | CancelFirst nat | DeadlineFirst nat

record write_env =
  we_now :: nat
  we_cancelled :: bool
  we_race :: write_race

definition expired :: "nat \<Rightarrow> nat option \<Rightarrow> bool" where
  "expired now deadline = (case deadline of Some d \<Rightarrow> d \<le> now | None \<Rightarrow> False)"

definition write_partially ::
  "'s write_all \<Rightarrow> nat \<Rightarrow> gen_message \<Rightarrow> 's \<Rightarrow> 's" where
  "write_partially wr k m s = (case wr s (take k (frame_bytes m)) of (_, s') \<Rightarrow> s')"

definition conn_write_message ::
  "'s write_all \<Rightarrow> 's flush \<Rightarrow> write_env \<Rightarrow> sending_message \<Rightarrow> 's \<Rightarrow> bytes
    \<Rightarrow> write_outcome \<times> 's \<times> bytes" where
  "conn_write_message wr fl env sm s prefix =
     (let whole = (case gen_write_to_buffered wr fl (sm_msg sm) s prefix of
                     (r, s', prefix') \<Rightarrow> (Complete r, s', prefix'))
      in case control sm of
           None \<Rightarrow> whole
         | Some ctl \<Rightarrow>
             if we_cancelled env then (Discarded LocalClosed, s, prefix)
             else if expired (we_now env) (mc_deadline ctl) then
               (Discarded request_timeout_error, s, prefix)
             else (case we_race env of
                     WriteFirst \<Rightarrow> whole
                   | CancelFirst k \<Rightarrow> (Cancelled, write_partially wr k (sm_msg sm) s, prefix)
                   | DeadlineFirst k \<Rightarrow>
                       (if mc_deadline ctl = None then whole
                        else (DeadlineElapsed, write_partially wr k (sm_msg sm) s, prefix))))"

text \<open>\<open>send_result\<close>: an acknowledgement on the message's own channel, if it has one.\<close>

definition send_result :: "sending_message \<Rightarrow> error + unit \<Rightarrow> (nat \<times> (error + unit)) list" where
  "send_result sm r = (case result_chan sm of Some ch \<Rightarrow> [(ch, r)] | None \<Rightarrow> [])"

text \<open>
  \<open>run_writer\<close> over the messages that \<open>recv\<close> yields until the channel closes: the task's result, the
  transport state and the acknowledgements in order.
\<close>

fun run_writer ::
  "'s write_all \<Rightarrow> 's flush \<Rightarrow> (sending_message \<times> write_env) list \<Rightarrow> 's \<Rightarrow> bytes
    \<Rightarrow> (error + unit) \<times> 's \<times> (nat \<times> (error + unit)) list" where
  "run_writer wr fl [] s prefix = (Ok (), s, [])"
| "run_writer wr fl ((sm, env) # ms) s prefix =
     (case conn_write_message wr fl env sm s prefix of
        (Complete (Inr _), s', prefix') \<Rightarrow>
          (case run_writer wr fl ms s' prefix' of (r, s'', acks) \<Rightarrow> (r, s'', send_result sm (Ok ()) @ acks))
      | (Discarded e, s', prefix') \<Rightarrow>
          (case run_writer wr fl ms s' prefix' of (r, s'', acks) \<Rightarrow> (r, s'', send_result sm (Err e) @ acks))
      | (Complete (Inl e), s', prefix') \<Rightarrow> (Err e, s', send_result sm (Err e))
      | (Cancelled, s', prefix') \<Rightarrow>
          (Err (Socket ''connection closed after a request was cancelled during write''), s',
           send_result sm (Err LocalClosed))
      | (DeadlineElapsed, s', prefix') \<Rightarrow>
          (Err (Socket ''connection closed after a request deadline elapsed during write''), s',
           send_result sm (Err request_timeout_error)))"

subsection \<open>The reader loop\<close>

record 'st delegate =
  dl_disconnect :: "error \<Rightarrow> 'st \<Rightarrow> 'st"
  dl_exit :: "'st \<Rightarrow> 'st"
  dl_handle_msg :: "gen_message \<Rightarrow> 'st \<Rightarrow> 'st"
  dl_handle_err :: "message_header \<Rightarrow> error \<Rightarrow> 'st \<Rightarrow> 'st"

text \<open>The branches of the loop's \<open>select!\<close>, in the order in which they fire.\<close>

datatype run_event =
    WriterReturned "error + unit"
  | WriterPanicked string
  | ShutdownRequested
  | ReadResult "gen_message_error + gen_message"

text \<open>The loop of \<open>Connection::run\<close>: the delegate's state and whether the loop has ended.\<close>

fun run_loop :: "'st delegate \<Rightarrow> run_event list \<Rightarrow> 'st \<Rightarrow> 'st \<times> bool" where
  "run_loop dl [] st = (st, False)"
| "run_loop dl (WriterReturned (Inr _) # evs) st = (st, True)"
| "run_loop dl (WriterReturned (Inl e) # evs) st = (dl_disconnect dl e st, True)"
| "run_loop dl (WriterPanicked e # evs) st =
     (dl_disconnect dl (Others (''Writer task failed: '' @ e)) st, True)"
| "run_loop dl (ShutdownRequested # evs) st = (st, True)"
| "run_loop dl (ReadResult (Inr msg) # evs) st = run_loop dl evs (dl_handle_msg dl msg st)"
| "run_loop dl (ReadResult (Inl (ReturnError h e)) # evs) st = run_loop dl evs (dl_handle_err dl h e st)"
| "run_loop dl (ReadResult (Inl (InternalError e)) # evs) st = (dl_disconnect dl e st, True)"

definition conn_run :: "'st delegate \<Rightarrow> run_event list \<Rightarrow> 'st \<Rightarrow> 'st \<times> bool" where
  "conn_run dl evs st =
     (case run_loop dl evs st of (st', ended) \<Rightarrow> (if ended then dl_exit dl st' else st', ended))"

locale delegate_laws =
  fixes dl :: "'st delegate" and inv :: "'st \<Rightarrow> bool"
  assumes inv_disconnect: "inv st \<Longrightarrow> inv (dl_disconnect dl e st)"
    and inv_exit: "inv st \<Longrightarrow> inv (dl_exit dl st)"
    and inv_msg: "inv st \<Longrightarrow> inv (dl_handle_msg dl m st)"
    and inv_err: "inv st \<Longrightarrow> inv (dl_handle_err dl h e st)"
begin

lemma run_loop_inv: "inv st \<Longrightarrow> inv (fst (run_loop dl evs st))"
proof (induction evs arbitrary: st)
  case (Cons ev evs)
  then show ?case
    by (cases "(dl, ev # evs, st)" rule: run_loop.cases) (simp_all add: inv_disconnect inv_msg inv_err)
qed simp

lemma conn_run_inv: "inv st \<Longrightarrow> inv (fst (conn_run dl evs st))"
  using run_loop_inv [of st evs] by (auto simp: conn_run_def inv_exit split: prod.splits)

end

subsection \<open>What the writer puts on the wire\<close>

definition discards :: "sending_message \<times> write_env \<Rightarrow> bool" where
  "discards x = (case control (fst x) of
     None \<Rightarrow> False
   | Some ctl \<Rightarrow> we_cancelled (snd x) \<or> expired (we_now (snd x)) (mc_deadline ctl))"

definition interrupted :: "sending_message \<times> write_env \<Rightarrow> bool" where
  "interrupted x = (\<not> discards x \<and> (case control (fst x) of
     None \<Rightarrow> False
   | Some ctl \<Rightarrow> (case we_race (snd x) of
       WriteFirst \<Rightarrow> False | CancelFirst _ \<Rightarrow> True | DeadlineFirst _ \<Rightarrow> mc_deadline ctl \<noteq> None)))"

text \<open>The frames written whole, up to the first interrupted one, and what that one leaves on the wire.\<close>

definition written :: "(sending_message \<times> write_env) list \<Rightarrow> gen_message list" where
  "written ms = map (sm_msg \<circ> fst) (filter (\<lambda>x. \<not> discards x) (takeWhile (\<lambda>x. \<not> interrupted x) ms))"

fun race_bytes :: "write_race \<Rightarrow> nat" where
  "race_bytes WriteFirst = 0"
| "race_bytes (CancelFirst k) = k"
| "race_bytes (DeadlineFirst k) = k"

definition beginning :: "(sending_message \<times> write_env) list \<Rightarrow> bytes" where
  "beginning ms =
     (case dropWhile (\<lambda>x. \<not> interrupted x) ms of
        [] \<Rightarrow> []
      | x # _ \<Rightarrow> take (race_bytes (we_race (snd x))) (frame_bytes (sm_msg (fst x))))"

text \<open>The acknowledgements the requesters see.\<close>

fun expected_acks :: "(sending_message \<times> write_env) list \<Rightarrow> (nat \<times> bool) list" where
  "expected_acks [] = []"
| "expected_acks (x # xs) =
     (let mine = (\<lambda>b. case result_chan (fst x) of Some ch \<Rightarrow> [(ch, b)] | None \<Rightarrow> [])
      in if interrupted x then mine False
         else mine (\<not> discards x) @ expected_acks xs)"

lemma written_Nil [simp]: "written [] = []"
  by (simp add: written_def)

lemma written_Cons [simp]:
  "written (x # xs) =
     (if interrupted x then [] else if discards x then written xs else sm_msg (fst x) # written xs)"
  by (cases "interrupted x") (auto simp: written_def)

lemma beginning_simps [simp]:
  "beginning [] = []"
  "beginning (x # xs) =
     (if interrupted x then take (race_bytes (we_race (snd x))) (frame_bytes (sm_msg (fst x))) else beginning xs)"
  by (simp_all add: beginning_def)

lemma beginning_complete: "\<not> (\<exists>x \<in> set ms. interrupted x) \<Longrightarrow> beginning ms = []"
  by (induction ms) auto

context byte_writer
begin

lemma conn_write_message_cases:
  assumes "ok s"
  shows "if discards (sm, env) then
      \<exists>e. conn_write_message wr fl env sm s prefix = (Discarded e, s, prefix)
    else if interrupted (sm, env) then
      \<exists>oc s'. conn_write_message wr fl env sm s prefix = (oc, s', prefix) \<and> ok s'
        \<and> (oc = Cancelled \<or> oc = DeadlineElapsed) \<and> out s' = out s @ take (race_bytes (we_race env)) (frame_bytes (sm_msg sm))
    else \<exists>s' prefix'. conn_write_message wr fl env sm s prefix = (Complete (Ok ()), s', prefix')
        \<and> ok s' \<and> out s' = out s @ frame_bytes (sm_msg sm)"
proof -
  obtain s1 prefix1 where whole: "gen_write_to_buffered wr fl (sm_msg sm) s prefix = (Ok (), s1, prefix1)"
      "ok s1" "out s1 = out s @ frame_bytes (sm_msg sm)"
    using write_buffered_ok [OF assms, of "header (sm_msg sm)" "payload (sm_msg sm)" prefix]
    by (auto simp: gen_write_to_buffered_def frame_bytes_def)
  have partial: "\<exists>s'. write_partially wr k (sm_msg sm) s = s' \<and> ok s'
      \<and> out s' = out s @ take k (frame_bytes (sm_msg sm))" for k
    using write_ok [OF assms, of "take k (frame_bytes (sm_msg sm))"] by (auto simp: write_partially_def)
  show ?thesis
  proof (cases "control sm")
    case None
    with whole show ?thesis by (simp add: conn_write_message_def discards_def interrupted_def)
  next
    case (Some ctl)
    show ?thesis
    proof (cases "discards (sm, env)")
      case True
      with Some show ?thesis by (auto simp: conn_write_message_def discards_def Let_def)
    next
      case False
      with Some have f: "\<not> we_cancelled env" "\<not> expired (we_now env) (mc_deadline ctl)"
        by (simp_all add: discards_def)
      show ?thesis
        using False Some f whole partial
        by (cases "we_race env") (simp_all add: conn_write_message_def interrupted_def Let_def, (auto simp: expired_def)+)
    qed
  qed
qed

lemma acks_send_result:
  "map (\<lambda>(ch, a). (ch, is_ok a)) (send_result sm r)
     = (case result_chan sm of Some ch \<Rightarrow> [(ch, is_ok r)] | None \<Rightarrow> [])"
  by (simp add: send_result_def split: option.split)

lemma run_writer_wire:
  "ok s \<Longrightarrow> \<exists>r s' acks. run_writer wr fl ms s prefix = (r, s', acks)
     \<and> out s' = out s @ concat (map frame_bytes (written ms)) @ beginning ms
     \<and> (is_ok r \<longleftrightarrow> \<not> (\<exists>x \<in> set ms. interrupted x))
     \<and> map (\<lambda>(ch, a). (ch, is_ok a)) acks = expected_acks ms"
proof (induction ms arbitrary: s prefix)
  case Nil
  then show ?case by auto
next
  case (Cons x ms)
  obtain sm env where x: "x = (sm, env)" by force
  note one = conn_write_message_cases [OF Cons.prems, of sm env prefix, folded x]
  have nd: "interrupted x \<Longrightarrow> \<not> discards x" by (simp add: interrupted_def)
  show ?case
  proof (cases "interrupted x")
    case True
    with one nd obtain oc s' where w: "conn_write_message wr fl env sm s prefix = (oc, s', prefix)"
        "oc = Cancelled \<or> oc = DeadlineElapsed" "out s' = out s @ take (race_bytes (we_race env)) (frame_bytes (sm_msg sm))"
      by auto
    then obtain e e' where r: "run_writer wr fl (x # ms) s prefix = (Err e, s', send_result sm (Err e'))"
      unfolding x by auto
    show ?thesis
      by (rule exI [of _ "Err e"], rule exI [of _ s'], rule exI [of _ "send_result sm (Err e')"])
        (simp add: r w(3) True acks_send_result, simp add: x split: option.split)
  next
    case False
    obtain s1 prefix1 a where w: "ok s1"
        "out s1 = out s @ concat (map frame_bytes (if discards x then [] else [sm_msg sm]))"
        "is_ok a \<longleftrightarrow> \<not> discards x"
        "run_writer wr fl (x # ms) s prefix = (case run_writer wr fl ms s1 prefix1 of
           (r, s'', acks) \<Rightarrow> (r, s'', send_result sm a @ acks))"
    proof (cases "discards x")
      case True
      with one obtain e where "conn_write_message wr fl env sm s prefix = (Discarded e, s, prefix)"
        by auto
      with that [of s "Err e" prefix] Cons.prems True x show ?thesis by simp
    next
      case whole: False
      with one False obtain s1 prefix1 where
        "conn_write_message wr fl env sm s prefix = (Complete (Ok ()), s1, prefix1)"
        "ok s1" "out s1 = out s @ frame_bytes (sm_msg sm)"
        by auto
      with that [of s1 "Ok ()" prefix1] whole x show ?thesis by simp
    qed
    obtain r s' acks where ih: "run_writer wr fl ms s1 prefix1 = (r, s', acks)"
        "out s' = out s1 @ concat (map frame_bytes (written ms)) @ beginning ms"
        "is_ok r \<longleftrightarrow> \<not> (\<exists>x \<in> set ms. interrupted x)"
        "map (\<lambda>(ch, a). (ch, is_ok a)) acks = expected_acks ms"
      using Cons.IH [OF w(1), of prefix1] by blast
    have run: "run_writer wr fl (x # ms) s prefix = (r, s', send_result sm a @ acks)"
      using w(4) ih(1) by simp
    have sm: "fst x = sm" by (simp add: x)
    have acks: "map (\<lambda>(ch, a). (ch, is_ok a)) (send_result sm a @ acks) = expected_acks (x # ms)"
      using False w(3) ih(4) sm by (simp add: acks_send_result split: option.split)
    have wire: "out s' = out s @ concat (map frame_bytes (written (x # ms))) @ beginning (x # ms)"
      using False w(2) ih(2) sm by simp
    show ?thesis
      by (rule exI [of _ r], rule exI [of _ s'], rule exI [of _ "send_result sm a @ acks"])
        (simp only: run acks wire, use ih(3) False in simp)
  qed
qed

end

text \<open>
  C11: The writer task is faithful to its queue. Over a transport that accepts bytes, whatever the
  deadlines, cancellations and lost races of the queued messages: the bytes on the wire are the
  whole frames, in queue order, of the messages that were not discarded before the first interrupted
  one, followed by exactly the beginning of that one that had been written when its write was dropped, and
  nothing after it; a discarded message puts nothing on the wire;
  the task fails exactly when a write was interrupted; and every requester with an acknowledgement
  channel that was reached gets one acknowledgement, positive exactly for the frames written whole.
\<close>

theorem writer_task_wire:
  assumes "byte_writer wr fl out ok" and "ok s"
  shows "\<exists>r s' acks. run_writer wr fl ms s prefix = (r, s', acks)
     \<and> out s' = out s @ concat (map frame_bytes (written ms)) @ beginning ms
     \<and> (is_ok r \<longleftrightarrow> \<not> (\<exists>x \<in> set ms. interrupted x))
     \<and> map (\<lambda>(ch, a). (ch, is_ok a)) acks = expected_acks ms"
  by (rule byte_writer.run_writer_wire [OF assms])

text \<open>A queue with a discarded message, and one whose third write is cancelled after two bytes with a message behind it.\<close>

definition sample_queue :: "write_race \<Rightarrow> (sending_message \<times> write_env) list" where
  "sample_queue race =
     [(sending_new_with_result (gen_new_data 1 [5]) 0, \<lparr>we_now = 3, we_cancelled = False, we_race = WriteFirst\<rparr>),
      (sending_new_with_control (gen_new_data 3 [6]) \<lparr>mc_deadline = Some 2, mc_response_tx = 1\<rparr>,
       \<lparr>we_now = 3, we_cancelled = False, we_race = WriteFirst\<rparr>),
      (sending_new_with_control (gen_new_data 5 [7]) \<lparr>mc_deadline = Some 9, mc_response_tx = 1\<rparr>,
       \<lparr>we_now = 4, we_cancelled = False, we_race = race\<rparr>),
      (sending_new (gen_new_data 7 [8]), \<lparr>we_now = 4, we_cancelled = True, we_race = CancelFirst 1\<rparr>)]"

theorem writer_task_wire_witness:
  "(\<exists>acks. run_writer vec_write vec_flush (sample_queue WriteFirst) [] []
     = (Ok (), frame_bytes (gen_new_data 1 [5]) @ frame_bytes (gen_new_data 5 [7]) @ frame_bytes (gen_new_data 7 [8]), acks))
   \<and> (\<exists>e acks. run_writer vec_write vec_flush (sample_queue (CancelFirst 2)) [] []
     = (Err e, frame_bytes (gen_new_data 1 [5]) @ take 2 (frame_bytes (gen_new_data 5 [7])), acks)
     \<and> map (\<lambda>(ch, a). (ch, is_ok a)) acks = [(0, True)])"
proof -
  note queue = sample_queue_def interrupted_def discards_def expired_def sending_new_def
    sending_new_with_result_def sending_new_with_control_def
  have s: "\<not> (\<exists>x \<in> set (sample_queue WriteFirst). interrupted x)"
    "written (sample_queue WriteFirst) = [gen_new_data 1 [5], gen_new_data 5 [7], gen_new_data 7 [8]]"
    "\<exists>x \<in> set (sample_queue (CancelFirst 2)). interrupted x"
    "written (sample_queue (CancelFirst 2)) = [gen_new_data 1 [5]]"
    "beginning (sample_queue (CancelFirst 2)) = take 2 (frame_bytes (gen_new_data 5 [7]))"
    "expected_acks (sample_queue (CancelFirst 2)) = [(0, True)]"
    by (simp_all add: queue)
  note w = writer_task_wire [OF vec.byte_writer_axioms TrueI, where s = "[]" and prefix = "[]"]
  have "\<exists>acks. run_writer vec_write vec_flush (sample_queue WriteFirst) [] []
     = (Ok (), frame_bytes (gen_new_data 1 [5]) @ frame_bytes (gen_new_data 5 [7]) @ frame_bytes (gen_new_data 7 [8]), acks)"
    using w [of "sample_queue WriteFirst"] s(1,2) beginning_complete [OF s(1)] by (auto simp: is_ok_iff)
  moreover have "\<exists>e acks. run_writer vec_write vec_flush (sample_queue (CancelFirst 2)) [] []
     = (Err e, frame_bytes (gen_new_data 1 [5]) @ take 2 (frame_bytes (gen_new_data 5 [7])), acks)
     \<and> map (\<lambda>(ch, a). (ch, is_ok a)) acks = [(0, True)]"
    using w [of "sample_queue (CancelFirst 2)"] s(3) unfolding s(4-6) by (auto simp: not_is_ok_iff)
  ultimately show ?thesis by blast
qed

end
