(* ===== verification/Protobuf.thy ===== *)
theory Protobuf
  imports Wire
begin

text \<open>
  The proto3 encoding of the envelope messages of \<open>src/src/ttrpc.proto\<close>, as the protobuf documentation
  defines it: varints, tagged fields, length-delimited strings and sub-messages, defaults left out,
  unknown fields skipped, the last value of a singular field winning. It is the instance of the
  codec interface on which the rest of the development is evaluated; the codecs the crate really
  calls belong to the protobuf runtimes and stay arguments everywhere else. A string is its bytes
  (UTF-8 validity is not checked), and messages of 2 GiB or more are refused.
\<close>

subsection \<open>Varints and fields\<close>

fun write_varint :: "nat \<Rightarrow> bytes" where
  "write_varint n = (if n < 128 then [of_nat n] else of_nat (n mod 128 + 128) # write_varint (n div 128))"

declare write_varint.simps [simp del]

text \<open>At most the given number of bytes (ten for a 64-bit value).\<close>

fun read_varint :: "nat \<Rightarrow> bytes \<Rightarrow> (nat \<times> bytes) option" where
  "read_varint (Suc k) (b # bs) =
     (if unat b < 128 then Some (unat b, bs)
      else case read_varint k bs of
             None \<Rightarrow> None
           | Some (n, rest) \<Rightarrow> Some (unat b - 128 + 128 * n, rest))"
| "read_varint _ _ = None"

lemma unat_of_nat_u8: "n < 256 \<Longrightarrow> unat (of_nat n :: u8) = n"
  by (simp add: unat_of_nat take_bit_nat_eq_self)

lemma read_write_varint:
  "n < 128 ^ Suc k \<Longrightarrow> read_varint (Suc k) (write_varint n @ rest) = Some (n, rest)"
proof (induction k arbitrary: n)
  case 0
  then show ?case by (simp add: write_varint.simps [of n] unat_of_nat take_bit_nat_eq_self)
next
  case (Suc k)
  show ?case
  proof (cases "n < 128")
    case True
    then show ?thesis by (simp add: write_varint.simps [of n] unat_of_nat take_bit_nat_eq_self)
  next
    case False
    have "unat (of_nat (n mod 128 + 128) :: u8) = n mod 128 + 128"
      by (rule unat_of_nat_u8) (use mod_less_divisor [of 128 n] in linarith)
    moreover have "n div 128 < 128 ^ Suc k"
      using Suc.prems by (simp add: less_mult_imp_div_less)
    ultimately show ?thesis
      using Suc.IH [of "n div 128"] False
      by (simp add: write_varint.simps [of n] del: of_nat_add)
  qed
qed

lemma write_varint_nonempty: "write_varint n \<noteq> []"
  by (subst write_varint.simps) simp

datatype wval = Varint nat | Len bytes | Fixed64 bytes | Fixed32 bytes

type_synonym field = "nat \<times> wval"

fun wire_type :: "wval \<Rightarrow> nat" where
  "wire_type (Varint n) = 0"
| "wire_type (Fixed64 bs) = 1"
| "wire_type (Len bs) = 2"
| "wire_type (Fixed32 bs) = 5"

fun write_val :: "wval \<Rightarrow> bytes" where
  "write_val (Varint n) = write_varint n"
| "write_val (Len bs) = write_varint (length bs) @ bs"
| "write_val (Fixed64 bs) = bs"
| "write_val (Fixed32 bs) = bs"

definition write_field :: "field \<Rightarrow> bytes" where
  "write_field f = (case f of (num, v) \<Rightarrow> write_varint (num * 8 + wire_type v) @ write_val v)"

definition write_fields :: "field list \<Rightarrow> bytes" where
  "write_fields fs = concat (map write_field fs)"

definition take_exact :: "nat \<Rightarrow> bytes \<Rightarrow> (bytes \<times> bytes) option" where
  "take_exact n bs = (if n \<le> length bs then Some (take n bs, drop n bs) else None)"

definition read_val :: "nat \<Rightarrow> bytes \<Rightarrow> (wval \<times> bytes) option" where
  "read_val wt bs =
     (if wt = 0 then map_option (\<lambda>(n, r). (Varint n, r)) (read_varint 10 bs)
      else if wt = 1 then map_option (\<lambda>(p, r). (Fixed64 p, r)) (take_exact 8 bs)
      else if wt = 2 then
        (case read_varint 10 bs of
           None \<Rightarrow> None
         | Some (n, r) \<Rightarrow> map_option (\<lambda>(p, r'). (Len p, r')) (take_exact n r))
      else if wt = 5 then map_option (\<lambda>(p, r). (Fixed32 p, r)) (take_exact 4 bs)
      else None)"

text \<open>Every field takes at least one byte, so the number of bytes is enough fuel.\<close>

fun read_fields :: "nat \<Rightarrow> bytes \<Rightarrow> field list option" where
  "read_fields fuel [] = Some []"
| "read_fields 0 (b # bs) = None"
| "read_fields (Suc k) (b # bs) =
     (case read_varint 10 (b # bs) of
        None \<Rightarrow> None
      | Some (tag, r) \<Rightarrow>
          (case read_val (tag mod 8) r of
             None \<Rightarrow> None
           | Some (v, r') \<Rightarrow> map_option (\<lambda>fs. (tag div 8, v) # fs) (read_fields k r')))"

definition parse_fields :: "bytes \<Rightarrow> field list option" where
  "parse_fields bs = read_fields (length bs) bs"

text \<open>Fields that are written and read back: bounded numbers, varints and lengths.\<close>

fun val_ok :: "wval \<Rightarrow> bool" where
  "val_ok (Varint n) = (n < 2 ^ 64)"
| "val_ok (Len bs) = (length bs < 2 ^ 31)"
| "val_ok _ = False"

definition field_ok :: "field \<Rightarrow> bool" where
  "field_ok f = (fst f < 1000 \<and> val_ok (snd f))"

lemma wire_type_lt: "wire_type v < 8"
  by (cases v) auto

lemma read_varint_10: "n < 2 ^ 64 \<Longrightarrow> read_varint 10 (write_varint n @ rest) = Some (n, rest)"
  using read_write_varint [of n 9 rest] by simp

lemma read_write_val: "val_ok v \<Longrightarrow> read_val (wire_type v) (write_val v @ rest) = Some (v, rest)"
  by (cases v) (simp_all add: read_val_def read_varint_10 take_exact_def)

lemma read_write_fields:
  "\<lbrakk>\<forall>f \<in> set fs. field_ok f; length (write_fields fs) \<le> fuel\<rbrakk>
   \<Longrightarrow> read_fields fuel (write_fields fs) = Some fs"
proof (induction fs arbitrary: fuel)
  case Nil
  then show ?case by (simp add: write_fields_def)
next
  case (Cons f fs)
  obtain num v where f: "f = (num, v)" by force
  let ?tag = "num * 8 + wire_type v"
  from Cons.prems f have ok: "num < 1000" "val_ok v" by (auto simp: field_ok_def)
  have tag: "?tag < 2 ^ 64" "?tag mod 8 = wire_type v" "?tag div 8 = num"
    using ok(1) wire_type_lt [of v] by auto
  have bytes: "write_fields (f # fs) = write_varint ?tag @ write_val v @ write_fields fs"
    by (simp add: write_fields_def write_field_def f)
  obtain b bs where b: "write_fields (f # fs) = b # bs"
    using write_varint_nonempty [of ?tag] unfolding bytes by (cases "write_varint ?tag") auto
  have "0 < length (write_varint ?tag)"
    using write_varint_nonempty by auto
  moreover have "length (write_varint ?tag) + length (write_fields fs) \<le> fuel"
    using Cons.prems(2) bytes by simp
  ultimately have "Suc (length (write_fields fs)) \<le> fuel" by linarith
  then obtain k where k: "fuel = Suc k" "length (write_fields fs) \<le> k"
    by (cases fuel) auto
  have "read_varint 10 (b # bs) = Some (?tag, write_val v @ write_fields fs)"
    unfolding b [symmetric] bytes by (rule read_varint_10 [OF tag(1)])
  with k b Cons.IH [OF _ k(2)] Cons.prems(1) read_write_val [OF ok(2)] tag f show ?case
    by simp
qed

lemma parse_write_fields: "\<forall>f \<in> set fs. field_ok f \<Longrightarrow> parse_fields (write_fields fs) = Some fs"
  by (simp add: parse_fields_def read_write_fields)

text \<open>Applying fields one after the other.\<close>

fun apply_fields :: "(field \<Rightarrow> 'm \<Rightarrow> string + 'm) \<Rightarrow> field list \<Rightarrow> 'm \<Rightarrow> string + 'm" where
  "apply_fields f [] x = Ok x"
| "apply_fields f (y # ys) x = rbind (f y x) (apply_fields f ys)"

lemma apply_fields_append:
  "apply_fields f (xs @ ys) x = rbind (apply_fields f xs x) (apply_fields f ys)"
proof (induction xs arbitrary: x)
  case (Cons a xs)
  then show ?case by (cases "f a x") simp_all
qed simp

definition merge_with :: "(field \<Rightarrow> 'm \<Rightarrow> string + 'm) \<Rightarrow> 'm \<Rightarrow> bytes \<Rightarrow> string + 'm" where
  "merge_with f x bs =
     (case parse_fields bs of
        None \<Rightarrow> Err ''failed to decode Protobuf message''
      | Some fs \<Rightarrow> apply_fields f fs x)"

lemma merge_with_write:
  "\<forall>g \<in> set fs. field_ok g \<Longrightarrow> merge_with f x (write_fields fs) = apply_fields f fs x"
  by (simp add: merge_with_def parse_write_fields)

subsection \<open>Scalar fields\<close>

definition str_bytes :: "string \<Rightarrow> bytes" where
  "str_bytes s = map (\<lambda>c. of_nat (of_char c)) s"

definition bytes_str :: "bytes \<Rightarrow> string" where
  "bytes_str bs = map (\<lambda>b. char_of (unat b)) bs"

lemma bytes_str_bytes [simp]: "bytes_str (str_bytes s) = s"
proof (induction s)
  case (Cons c s)
  have "unat (of_nat (of_char c) :: u8) = of_char c"
    by (simp add: unat_of_nat take_bit_nat_eq_self)
  with Cons show ?case by (simp add: bytes_str_def str_bytes_def)
qed (simp add: bytes_str_def str_bytes_def)

lemma str_bytes_simps [simp]: "str_bytes s = [] \<longleftrightarrow> s = []" "length (str_bytes s) = length s"
  by (simp_all add: str_bytes_def)

definition len_field :: "nat \<Rightarrow> bytes \<Rightarrow> field list" where
  "len_field num bs = (if bs = [] then [] else [(num, Len bs)])"

definition int_field :: "nat \<Rightarrow> nat \<Rightarrow> field list" where
  "int_field num n = (if n = 0 then [] else [(num, Varint n)])"

subsection \<open>The messages\<close>

definition kv_fields :: "key_value \<Rightarrow> field list" where
  "kv_fields kv = len_field 1 (str_bytes (key kv)) @ len_field 2 (str_bytes (kv_value kv))"

fun kv_apply :: "field \<Rightarrow> key_value \<Rightarrow> string + key_value" where
  "kv_apply (num, Len bs) kv =
     (if num = 1 then Ok (kv\<lparr>key := bytes_str bs\<rparr>)
      else if num = 2 then Ok (kv\<lparr>kv_value := bytes_str bs\<rparr>) else Ok kv)"
| "kv_apply _ kv = Ok kv"

definition any_fields :: "any_msg \<Rightarrow> field list" where
  "any_fields a = len_field 1 (str_bytes (type_url a)) @ len_field 2 (any_value a)"

fun any_apply :: "field \<Rightarrow> any_msg \<Rightarrow> string + any_msg" where
  "any_apply (num, Len bs) a =
     (if num = 1 then Ok (a\<lparr>type_url := bytes_str bs\<rparr>)
      else if num = 2 then Ok (a\<lparr>any_value := bs\<rparr>) else Ok a)"
| "any_apply _ a = Ok a"

definition all_codes :: "code list" where
  "all_codes = [OK, CANCELLED, UNKNOWN, INVALID_ARGUMENT, DEADLINE_EXCEEDED, NOT_FOUND,
     ALREADY_EXISTS, PERMISSION_DENIED, RESOURCE_EXHAUSTED, FAILED_PRECONDITION, ABORTED,
     OUT_OF_RANGE, UNIMPLEMENTED, INTERNAL, UNAVAILABLE, DATA_LOSS, UNAUTHENTICATED]"

definition code_of_num :: "nat \<Rightarrow> code option" where
  "code_of_num n = (if n < length all_codes then Some (all_codes ! n) else None)"

lemma code_of_num_code: "code_of_num (nat (code_num c)) = Some c"
  by (cases c) (simp_all add: code_of_num_def all_codes_def)

definition status_fields :: "status \<Rightarrow> field list" where
  "status_fields s = int_field 1 (nat (code_num (st_code s))) @ len_field 2 (str_bytes (st_message s))
     @ map (\<lambda>a. (3, Len (write_fields (any_fields a)))) (st_details s)"

fun status_apply :: "field \<Rightarrow> status \<Rightarrow> string + status" where
  "status_apply (num, Len bs) s =
     (if num = 2 then Ok (s\<lparr>st_message := bytes_str bs\<rparr>)
      else if num = 3 then
        rbind (merge_with any_apply \<lparr>type_url = [], any_value = []\<rparr> bs)
          (\<lambda>a. Ok (s\<lparr>st_details := st_details s @ [a]\<rparr>))
      else Ok s)"
| "status_apply (num, Varint n) s =
     (if num = 1 then
        (case code_of_num n of Some c \<Rightarrow> Ok (s\<lparr>st_code := c\<rparr>) | None \<Rightarrow> Err ''unknown status code'')
      else Ok s)"
| "status_apply _ s = Ok s"

definition request_fields :: "request \<Rightarrow> field list" where
  "request_fields r = len_field 1 (str_bytes (req_service r)) @ len_field 2 (str_bytes (req_method r))
     @ len_field 3 (req_payload r) @ int_field 4 (unat (timeout_nano r))
     @ map (\<lambda>kv. (5, Len (write_fields (kv_fields kv)))) (metadata r)"

fun request_apply :: "field \<Rightarrow> request \<Rightarrow> string + request" where
  "request_apply (num, Len bs) r =
     (if num = 1 then Ok (r\<lparr>req_service := bytes_str bs\<rparr>)
      else if num = 2 then Ok (r\<lparr>req_method := bytes_str bs\<rparr>)
      else if num = 3 then Ok (r\<lparr>req_payload := bs\<rparr>)
      else if num = 5 then
        rbind (merge_with kv_apply \<lparr>key = [], kv_value = []\<rparr> bs)
          (\<lambda>kv. Ok (r\<lparr>metadata := metadata r @ [kv]\<rparr>))
      else Ok r)"
| "request_apply (num, Varint n) r = (if num = 4 then Ok (r\<lparr>timeout_nano := of_nat n\<rparr>) else Ok r)"
| "request_apply _ r = Ok r"

definition response_fields :: "response \<Rightarrow> field list" where
  "response_fields r =
     (case resp_status r of None \<Rightarrow> [] | Some s \<Rightarrow> [(1, Len (write_fields (status_fields s)))])
     @ len_field 2 (resp_payload r)"

fun response_apply :: "field \<Rightarrow> response \<Rightarrow> string + response" where
  "response_apply (num, Len bs) r =
     (if num = 1 then
        rbind (merge_with status_apply
            (case resp_status r of None \<Rightarrow> get_status OK [] | Some s \<Rightarrow> s) bs)
          (\<lambda>s. Ok (r\<lparr>resp_status := Some s\<rparr>))
      else if num = 2 then Ok (r\<lparr>resp_payload := bs\<rparr>) else Ok r)"
| "response_apply _ r = Ok r"

subsection \<open>Codecs\<close>

definition pb_codec :: "('m \<Rightarrow> field list) \<Rightarrow> (field \<Rightarrow> 'm \<Rightarrow> string + 'm) \<Rightarrow> 'm \<Rightarrow> 'm codec" where
  "pb_codec fields_of app dflt =
     \<lparr>c_size = (\<lambda>m. of_nat (length (write_fields (fields_of m)))),
      c_encode = (\<lambda>m. let bs = write_fields (fields_of m)
                     in if length bs < 2 ^ 31 then Ok bs else Err ''message too large''),
      c_decode = (\<lambda>bs. merge_with app dflt bs),
      c_merge = (\<lambda>m bs. merge_with app m bs)\<rparr>"

definition request_codec :: "request codec" where
  "request_codec = pb_codec request_fields request_apply request_default"

definition response_codec :: "response codec" where
  "response_codec = pb_codec response_fields response_apply response_default"

text \<open>A part of a message is shorter than the message.\<close>

lemma length_write_fields_ge: "(num, Len bs) \<in> set fs \<Longrightarrow> length bs \<le> length (write_fields fs)"
proof (induction fs)
  case (Cons f fs)
  have "length bs \<le> length (write_field (num, Len bs))"
    by (simp add: write_field_def)
  with Cons show ?case by (auto simp: write_fields_def)
qed simp

text \<open>A message whose fields are tagged with small numbers and 64-bit varints is read back.\<close>

definition fields_ok :: "field list \<Rightarrow> bool" where
  "fields_ok fs \<longleftrightarrow> (\<forall>(num, v) \<in> set fs. num < 1000 \<and> (case v of Varint n \<Rightarrow> n < 2 ^ 64 | Len bs \<Rightarrow> True | _ \<Rightarrow> False))"

lemma fields_ok_field_ok:
  assumes "fields_ok fs" and "length (write_fields fs) < 2 ^ 31"
  shows "\<forall>f \<in> set fs. field_ok f"
proof
  fix f
  assume f: "f \<in> set fs"
  obtain num v where nv: "f = (num, v)" by force
  from assms(1) f nv have "num < 1000" "case v of Varint n \<Rightarrow> n < 2 ^ 64 | Len bs \<Rightarrow> True | _ \<Rightarrow> False"
    by (auto simp: fields_ok_def)
  with f nv assms(2) length_write_fields_ge show "field_ok f"
    by (cases v) (fastforce simp: field_ok_def)+
qed

lemma fields_ok_simps [simp]:
  "fields_ok []" "fields_ok (xs @ ys) \<longleftrightarrow> fields_ok xs \<and> fields_ok ys"
  "num < 1000 \<Longrightarrow> fields_ok (len_field num bs)"
  "num < 1000 \<Longrightarrow> n < 2 ^ 64 \<Longrightarrow> fields_ok (int_field num n)"
  "num < 1000 \<Longrightarrow> fields_ok (map (\<lambda>x. (num, Len (g x))) zs)"
  "num < 1000 \<Longrightarrow> fields_ok [(num, Len bs)]"
  by (auto simp: fields_ok_def len_field_def int_field_def)

lemma nat_code_num_lt: "nat (code_num c) < 2 ^ 64"
  by (cases c) simp_all

lemma unat_i64_lt: "unat (w :: i64) < 2 ^ 64"
  using unsigned_less [of w, where ?'a = nat] by simp

lemma message_fields_ok [simp]:
  "fields_ok (kv_fields kv)" "fields_ok (any_fields a)" "fields_ok (status_fields s)"
  "fields_ok (request_fields r)" "fields_ok (response_fields p)"
  using unat_i64_lt [of "timeout_nano r"] nat_code_num_lt
  by (simp_all add: kv_fields_def any_fields_def status_fields_def request_fields_def
      response_fields_def split: option.split)

lemma merge_sub:
  assumes "fields_ok fs" and "length (write_fields fs) < 2 ^ 31" and "apply_fields f fs x = Ok y"
  shows "merge_with f x (write_fields fs) = Ok y"
  using merge_with_write [OF fields_ok_field_ok [OF assms(1,2)], of f x] assms(3) by simp

lemma kv_roundtrip: "apply_fields kv_apply (kv_fields kv) \<lparr>key = [], kv_value = []\<rparr> = Ok kv"
  by (cases kv) (simp add: kv_fields_def len_field_def apply_fields_append)

lemma any_roundtrip: "apply_fields any_apply (any_fields a) \<lparr>type_url = [], any_value = []\<rparr> = Ok a"
  by (cases a) (simp add: any_fields_def len_field_def apply_fields_append)

lemma details_apply:
  "\<forall>a \<in> set as. length (write_fields (any_fields a)) < 2 ^ 31 \<Longrightarrow>
   apply_fields status_apply (map (\<lambda>a. (3, Len (write_fields (any_fields a)))) as) s
     = Ok (s\<lparr>st_details := st_details s @ as\<rparr>)"
proof (induction as arbitrary: s)
  case (Cons a as)
  then have "merge_with any_apply \<lparr>type_url = [], any_value = []\<rparr> (write_fields (any_fields a)) = Ok a"
    by (intro merge_sub any_roundtrip) simp_all
  with Cons show ?case by simp
qed simp

lemma metadata_apply:
  "\<forall>kv \<in> set kvs. length (write_fields (kv_fields kv)) < 2 ^ 31 \<Longrightarrow>
   apply_fields request_apply (map (\<lambda>kv. (5, Len (write_fields (kv_fields kv)))) kvs) r
     = Ok (r\<lparr>metadata := metadata r @ kvs\<rparr>)"
proof (induction kvs arbitrary: r)
  case (Cons kv kvs)
  then have "merge_with kv_apply \<lparr>key = [], kv_value = []\<rparr> (write_fields (kv_fields kv)) = Ok kv"
    by (intro merge_sub kv_roundtrip) simp_all
  with Cons show ?case by simp
qed simp

lemma status_roundtrip:
  assumes "length (write_fields (status_fields s)) < 2 ^ 31"
  shows "apply_fields status_apply (status_fields s) (get_status OK []) = Ok s"
proof -
  have sub: "\<forall>a \<in> set (st_details s). length (write_fields (any_fields a)) < 2 ^ 31"
  proof
    fix a
    assume "a \<in> set (st_details s)"
    then have "(3, Len (write_fields (any_fields a))) \<in> set (status_fields s)"
      by (simp add: status_fields_def)
    from length_write_fields_ge [OF this] assms
    show "length (write_fields (any_fields a)) < 2 ^ 31" by linarith
  qed
  have "apply_fields status_apply (int_field 1 (nat (code_num (st_code s)))) (get_status OK [])
      = Ok (get_status (st_code s) [])"
    using code_of_num_code [of "st_code s"]
    by (cases "st_code s") (simp_all add: int_field_def get_status_def)
  moreover have "apply_fields status_apply (len_field 2 (str_bytes (st_message s))) (get_status (st_code s) [])
      = Ok (get_status (st_code s) (st_message s))"
    by (simp add: len_field_def get_status_def)
  ultimately show ?thesis
    using details_apply [OF sub] by (cases s) (simp add: status_fields_def apply_fields_append get_status_def)
qed

lemma request_roundtrip:
  assumes "length (write_fields (request_fields r)) < 2 ^ 31"
  shows "apply_fields request_apply (request_fields r) request_default = Ok r"
proof -
  have sub: "\<forall>kv \<in> set (metadata r). length (write_fields (kv_fields kv)) < 2 ^ 31"
  proof
    fix kv
    assume "kv \<in> set (metadata r)"
    then have "(5, Len (write_fields (kv_fields kv))) \<in> set (request_fields r)"
      by (simp add: request_fields_def)
    from length_write_fields_ge [OF this] assms
    show "length (write_fields (kv_fields kv)) < 2 ^ 31" by linarith
  qed
  obtain s m p tm md where r: "r = \<lparr>req_service = s, req_method = m, req_payload = p,
      timeout_nano = tm, metadata = md\<rparr>"
    by (cases r)
  have "apply_fields request_apply (int_field 4 (unat tm)) x = Ok (if tm = 0 then x else x\<lparr>timeout_nano := tm\<rparr>)" for x
    by (simp add: int_field_def unat_eq_0)
  then show ?thesis
    using metadata_apply [OF sub] r
    by (simp add: request_fields_def apply_fields_append request_default_def len_field_def)
qed

lemma response_roundtrip:
  assumes "length (write_fields (response_fields r)) < 2 ^ 31"
  shows "apply_fields response_apply (response_fields r) response_default = Ok r"
proof (cases "resp_status r")
  case None
  then show ?thesis
    by (cases r) (simp add: response_fields_def response_default_def len_field_def)
next
  case (Some s)
  have "length (write_fields (status_fields s)) \<le> length (write_fields (response_fields r))"
    by (rule length_write_fields_ge [of 1]) (simp add: response_fields_def Some)
  with assms have len: "length (write_fields (status_fields s)) < 2 ^ 31" by linarith
  have "merge_with status_apply (get_status OK []) (write_fields (status_fields s)) = Ok s"
    by (rule merge_sub [OF _ len status_roundtrip [OF len]]) simp
  with Some show ?thesis
    by (cases r) (simp add: response_fields_def response_default_def len_field_def)
qed

text \<open>The interface laws for any message type whose fields read back.\<close>

lemma pb_codec_laws:
  assumes "\<And>m. fields_ok (fields_of m)"
    and "\<And>m. length (write_fields (fields_of m)) < 2 ^ 31 \<Longrightarrow> apply_fields app (fields_of m) dflt = Ok m"
  shows "codec_laws (pb_codec fields_of app dflt) dflt"
proof
  fix m bs
  assume e: "c_encode (pb_codec fields_of app dflt) m = Ok bs"
  then have bs: "bs = write_fields (fields_of m)" "length bs < 2 ^ 31"
    by (simp_all add: pb_codec_def Let_def split: if_splits)
  then show "c_size (pb_codec fields_of app dflt) m = of_nat (length bs)"
    by (simp add: pb_codec_def)
  have "merge_with app dflt (write_fields (fields_of m)) = Ok m"
    using bs by (intro merge_sub assms) simp_all
  with bs show "c_decode (pb_codec fields_of app dflt) bs = Ok m"
    by (simp add: pb_codec_def)
qed (simp add: pb_codec_def)

interpretation req_codec: codec_laws request_codec request_default
  unfolding request_codec_def
  by (rule pb_codec_laws) (simp_all add: request_roundtrip)

interpretation resp_codec: codec_laws response_codec response_default
  unfolding response_codec_def
  by (rule pb_codec_laws) (simp_all add: response_roundtrip)

subsection \<open>The crate's test vector\<close>

definition test_request :: request where
  "test_request = request_set_payload [1, 2, 3, 4, 5, 6, 7, 8, 9]
     (init_request ''grpc.TestServices'' ''Test'' 20000000
        [\<lparr>key = ''test_key1'', kv_value = ''test_value1''\<rparr>])"

definition PROTOBUF_REQUEST :: bytes where
  "PROTOBUF_REQUEST =
     [10, 17, 103, 114, 112, 99, 46, 84, 101, 115, 116, 83, 101, 114, 118, 105, 99, 101, 115, 18,
      4, 84, 101, 115, 116, 26, 9, 1, 2, 3, 4, 5, 6, 7, 8, 9, 32, 128, 218, 196, 9, 42, 24, 10,
      9, 116, 101, 115, 116, 95, 107, 101, 121, 49, 18, 11, 116, 101, 115, 116, 95, 118, 97, 108,
      117, 101, 49]"

lemma test_vector: "c_encode request_codec test_request = Ok PROTOBUF_REQUEST"
proof -
  have varint: "write_varint n = [of_nat n]" if "n < 128" for n
    using that by (simp add: write_varint.simps)
  have tmo: "write_varint 20000000 = [128, 218, 196, 9]"
    by (simp add: write_varint.simps)
  have fields: "write_fields (request_fields test_request) = PROTOBUF_REQUEST"
    by (simp add: test_request_def init_request_def request_set_payload_def request_default_def
        request_fields_def kv_fields_def len_field_def int_field_def str_bytes_def write_fields_def
        write_field_def varint tmo PROTOBUF_REQUEST_def)
  show ?thesis
    by (simp add: request_codec_def pb_codec_def Let_def fields) (simp add: PROTOBUF_REQUEST_def)
qed

text \<open>
  A request survives framing: for any codec that keeps its contract, the message that
  \<open>Message::new_request\<close> builds becomes a frame within the limit with the given stream id, the
  request type, no flags and an honest length, and \<open>Message::try_from\<close> of that frame is the message
  again.
\<close>

theorem request_frame_roundtrip:
  assumes "codec_laws c dflt" and "message_new_request c sid m = Ok msg"
    and "gen_try_from c msg = Ok g" and "length (payload g) < 2 ^ 32"
  shows "frame_ok g \<and> stream_id (header g) = sid \<and> mh_type (header g) = MESSAGE_TYPE_REQUEST
    \<and> flags (header g) = 0 \<and> message_try_from c g = Ok msg \<and> msg_payload msg = m"
  using codec_laws.new_request_frame_ok [OF assms] codec_laws.try_from_roundtrip [OF assms(1,3)] assms(2)
  by (auto simp: message_new_request_def rbind_Ok_iff Let_def)

theorem request_frame_roundtrip_witness:
  "\<exists>msg g. message_new_request request_codec 5 test_request = Ok msg
     \<and> gen_try_from request_codec msg = Ok g \<and> payload g = PROTOBUF_REQUEST
     \<and> frame_ok g \<and> message_try_from request_codec g = Ok msg"
proof -
  let ?msg = "\<lparr>msg_header = header_new_request 5 67, msg_payload = test_request\<rparr>"
  let ?g = "\<lparr>header = header_new_request 5 67, payload = PROTOBUF_REQUEST\<rparr>"
  have "c_size request_codec test_request = 67"
    using req_codec.size_encode [OF test_vector] by (simp add: PROTOBUF_REQUEST_def)
  then have n: "message_new_request request_codec 5 test_request = Ok ?msg"
    by (simp add: message_new_request_def)
  have g: "gen_try_from request_codec ?msg = Ok ?g"
    by (simp add: gen_try_from_def test_vector)
  have "length (payload ?g) < 2 ^ 32" by (simp add: PROTOBUF_REQUEST_def)
  from request_frame_roundtrip [OF req_codec.codec_laws_axioms n g this] n g show ?thesis by auto
qed

end
