(* ===== verification/Stream.thy ===== *)
theory Stream
  imports Transform Protobuf
begin

text \<open>
  Streams, \<open>src/src/asynchronous/stream.rs\<close>: the untyped sender and receiver halves and the typed
  wrappers used by generated bindings. A sender's \<open>local_closed\<close> flag and a receiver's
  \<open>remote_closed\<close> flag are returned updated; the receiver's channel is the list of results that the
  connection reader has put there, and \<open>rx_closed\<close> says that its senders are gone. \<open>debug_assert\<close>s are
  not modelled.
\<close>

subsection \<open>The two halves\<close>

datatype kind = Client | Server

record stream_sender =
  ss_stream_id :: u32
  sendable :: bool
  local_closed :: bool
  ss_kind :: kind

record stream_receiver =
  sr_stream_id :: u32
  recveivable :: bool
  remote_closed :: bool
  sr_kind :: kind

record stream_inner =
  si_sender :: stream_sender
  si_receiver :: stream_receiver

definition stream_inner_new :: "u32 \<Rightarrow> bool \<Rightarrow> bool \<Rightarrow> kind \<Rightarrow> stream_inner" where
  "stream_inner_new sid ss rcv k =
     \<lparr>si_sender = \<lparr>ss_stream_id = sid, sendable = ss, local_closed = False, ss_kind = k\<rparr>,
      si_receiver = \<lparr>sr_stream_id = sid, recveivable = rcv, remote_closed = False, sr_kind = k\<rparr>\<rparr>"

definition new_client :: "u32 \<Rightarrow> bool \<Rightarrow> bool \<Rightarrow> stream_inner" where
  "new_client sid ss rcv = stream_inner_new sid ss rcv Client"

definition new_server :: "u32 \<Rightarrow> bool \<Rightarrow> bool \<Rightarrow> stream_inner" where
  "new_server sid ss rcv = stream_inner_new sid ss rcv Server"

definition stream_split :: "stream_inner \<Rightarrow> stream_sender \<times> stream_receiver" where
  "stream_split si = (si_sender si, si_receiver si)"

text \<open>Dropping a receiver unregisters the stream.\<close>

definition receiver_drop :: "stream_receiver \<Rightarrow> (u32 \<rightharpoonup> 'm) \<Rightarrow> (u32 \<rightharpoonup> 'm)" where
  "receiver_drop r streams = streams(sr_stream_id r := None)"

definition stream_send ::
  "('d, 't) conn_ctx \<Rightarrow> send_env \<Rightarrow> stream_sender \<Rightarrow> bytes \<Rightarrow> 't \<Rightarrow> sending_message list
    \<Rightarrow> 't send_result" where
  "stream_send cx env ss buf t q =
     (if local_closed ss then (Some (Err LocalClosed), t, q)
      else transform_send cx env False True (gen_new_data (ss_stream_id ss) buf) t q)"

definition stream_close_send ::
  "('d, 't) conn_ctx \<Rightarrow> send_env \<Rightarrow> stream_sender \<Rightarrow> 't \<Rightarrow> sending_message list
    \<Rightarrow> 't send_result \<times> stream_sender" where
  "stream_close_send cx env ss t q =
     (if local_closed ss then ((Some (Err LocalClosed), t, q), ss)
      else case transform_send cx env False True (gen_new_close (ss_stream_id ss)) t q of
             (Some (Inr u), t', q') \<Rightarrow> ((Some (Ok u), t', q'), ss\<lparr>local_closed := True\<rparr>)
           | res \<Rightarrow> (res, ss))"

text \<open>
  \<open>recv\<close>, given what the channel delivers next: \<open>Some\<close> result, or \<open>None\<close> when the channel is closed
  and drained.
\<close>

definition recv_item :: "(error + gen_message) option \<Rightarrow> error + gen_message" where
  "recv_item it =
     (case it of Some r \<Rightarrow> r | None \<Rightarrow> Err (Others ''Receive packet from Receiver error''))"

definition stream_recv_msg ::
  "response codec \<Rightarrow> stream_receiver \<Rightarrow> gen_message \<Rightarrow> (error + bytes) \<times> stream_receiver" where
  "stream_recv_msg rc r msg =
     (let closed = r\<lparr>remote_closed := True\<rparr>
      in if mh_type (header msg) = MESSAGE_TYPE_RESPONSE then
           (case c_decode rc (payload msg) of
              Inl e \<Rightarrow> (Err (err_to_others ''Decode message failed.'' e), closed)
            | Inr resp \<Rightarrow>
                (case resp_status resp of
                   Some st \<Rightarrow>
                     if st_code st \<noteq> OK then (Err (RpcStatus st), closed)
                     else (Ok (resp_payload resp), closed)
                 | None \<Rightarrow> (Ok (resp_payload resp), closed)))
         else if mh_type (header msg) = MESSAGE_TYPE_DATA then
           (if \<not> recveivable r then
              (Err (Others ''received data from non-streaming server.''), closed)
            else
              let remote = has_flag (flags (header msg)) FLAG_REMOTE_CLOSED;
                  r' = (if remote then closed else r)
              in if remote \<and> has_flag (flags (header msg)) FLAG_NO_DATA then
                   (if payload msg \<noteq> [] then
                      (Err (Others (''stream '' @ show_nat (unat (sr_stream_id r))
                         @ '': close message cannot include data'')), r')
                    else (Err Eof, r'))
                 else
                   (rbind (check_oversize (length (payload msg)) False) (\<lambda>_. Ok (payload msg)), r'))
         else (Err (Others ''not support''), r))"

definition stream_recv ::
  "response codec \<Rightarrow> stream_receiver \<Rightarrow> (error + gen_message) list
    \<Rightarrow> (error + bytes) \<times> stream_receiver \<times> (error + gen_message) list" where
  "stream_recv rc r rx =
     (if remote_closed r then (Err RemoteClosed, r, rx)
      else let it = (case rx of [] \<Rightarrow> None | x # _ \<Rightarrow> Some x); rx' = tl rx
           in case recv_item it of
                Inl e \<Rightarrow> (Err e, r, rx')
              | Inr msg \<Rightarrow> (case stream_recv_msg rc r msg of (res, r') \<Rightarrow> (res, r', rx')))"

subsection \<open>Typed wrappers\<close>

text \<open>\<open>send\<close> of \<open>CSSender\<close>, \<open>SSSender\<close>, \<open>ClientStreamSender\<close> and \<open>ServerStreamSender\<close>.\<close>

definition typed_send ::
  "'q codec \<Rightarrow> ('d, 't) conn_ctx \<Rightarrow> send_env \<Rightarrow> stream_sender \<Rightarrow> 'q \<Rightarrow> 't \<Rightarrow> sending_message list
    \<Rightarrow> 't send_result" where
  "typed_send c cx env ss req t q =
     (case c_encode c req of
        Inl e \<Rightarrow> (Some (Err (err_to_others ''Encode message failed.'' e)), t, q)
      | Inr buf \<Rightarrow> stream_send cx env ss buf t q)"

text \<open>\<open>CSReceiver::recv\<close>: the end of the stream is an error.\<close>

definition cs_recv ::
  "'p codec \<Rightarrow> response codec \<Rightarrow> stream_receiver \<Rightarrow> (error + gen_message) list
    \<Rightarrow> (error + 'p) \<times> stream_receiver \<times> (error + gen_message) list" where
  "cs_recv c rc r rx =
     (case stream_recv rc r rx of
        (res, r', rx') \<Rightarrow>
          (rbind res (\<lambda>buf. map_err (err_to_others ''Decode message failed.'') (c_decode c buf)), r', rx'))"

text \<open>
  \<open>recv\<close> of \<open>SSReceiver\<close>, \<open>ClientStreamReceiver\<close> and \<open>ServerStreamReceiver\<close>: a graceful close is
  \<open>Ok(None)\<close>.
\<close>

definition opt_recv ::
  "'p codec \<Rightarrow> response codec \<Rightarrow> stream_receiver \<Rightarrow> (error + gen_message) list
    \<Rightarrow> (error + 'p option) \<times> stream_receiver \<times> (error + gen_message) list" where
  "opt_recv c rc r rx =
     (case stream_recv rc r rx of
        (res, r', rx') \<Rightarrow>
          (case res of
             Inl Eof \<Rightarrow> (Ok None, r', rx')
           | _ \<Rightarrow>
             (rbind res (\<lambda>buf.
                rbind (map_err (err_to_others ''Decode message failed.'') (c_decode c buf))
                  (\<lambda>m. Ok (Some m))), r', rx')))"

text \<open>\<open>ClientStreamSender::close_and_recv\<close>.\<close>

definition close_and_recv ::
  "'p codec \<Rightarrow> response codec \<Rightarrow> ('d, 't) conn_ctx \<Rightarrow> send_env \<Rightarrow> stream_inner
    \<Rightarrow> (error + gen_message) list \<Rightarrow> 't \<Rightarrow> sending_message list
    \<Rightarrow> (error + 'p) option \<times> stream_inner \<times> 't \<times> sending_message list" where
  "close_and_recv c rc cx env si rx t q =
     (case stream_close_send cx env (si_sender si) t q of
        ((None, t', q'), ss) \<Rightarrow> (None, si\<lparr>si_sender := ss\<rparr>, t', q')
      | ((Some (Inl e), t', q'), ss) \<Rightarrow> (Some (Err e), si\<lparr>si_sender := ss\<rparr>, t', q')
      | ((Some (Inr _), t', q'), ss) \<Rightarrow>
          (case cs_recv c rc (si_receiver si) rx of
             (res, r', _) \<Rightarrow> (Some res, \<lparr>si_sender = ss, si_receiver = r'\<rparr>, t', q')))"

text \<open>Receiving until the channel has been read \<open>n\<close> times.\<close>

fun recv_n ::
  "'p codec \<Rightarrow> response codec \<Rightarrow> nat \<Rightarrow> stream_receiver \<Rightarrow> (error + gen_message) list
    \<Rightarrow> (error + 'p option) list \<times> stream_receiver" where
  "recv_n c rc 0 r rx = ([], r)"
| "recv_n c rc (Suc n) r rx =
     (case opt_recv c rc r rx of (res, r', rx') \<Rightarrow>
        (case recv_n c rc n r' rx' of (rs, r'') \<Rightarrow> (res # rs, r'')))"

subsection \<open>Lemmas\<close>

lemma no_flags_zero: "\<not> has_flag 0 FLAG_REMOTE_CLOSED"
  by (simp add: has_flag_def message_flags)

lemma close_flags: "has_flag 5 FLAG_REMOTE_CLOSED" "has_flag 5 FLAG_NO_DATA"
  by (simp_all add: has_flag_def message_flags)

lemma close_flags_value: "FLAG_REMOTE_CLOSED OR FLAG_NO_DATA = 5"
  by (simp add: message_flags)

lemma recv_data:
  assumes "\<not> remote_closed r" and "recveivable r" and "length buf \<le> MESSAGE_LENGTH_MAX"
  shows "stream_recv rc r (Ok (gen_new_data sid buf) # rx) = (Ok buf, r, rx)"
  using assms
  by (simp add: stream_recv_def recv_item_def stream_recv_msg_def wire_simps message_types
      no_flags_zero Let_def)

lemma recv_close:
  assumes "\<not> remote_closed r" and "recveivable r"
  shows "stream_recv rc r (Ok (gen_new_close sid) # rx) = (Err Eof, r\<lparr>remote_closed := True\<rparr>, rx)"
  using assms
  by (simp add: stream_recv_def recv_item_def stream_recv_msg_def wire_simps message_types
      close_flags close_flags_value Let_def)

lemma recv_after_close: "remote_closed r \<Longrightarrow> stream_recv rc r rx = (Err RemoteClosed, r, rx)"
  by (simp add: stream_recv_def)

lemma recv_n_after_close: "remote_closed r \<Longrightarrow> recv_n c rc n r rx = (replicate n (Err RemoteClosed), r)"
  by (induction n) (simp_all add: opt_recv_def recv_after_close)

lemma remote_closed_mono:
  assumes "stream_recv rc r rx = (res, r', rx')" and "remote_closed r"
  shows "remote_closed r'"
  using assms by (simp add: stream_recv_def)

lemma recv_n_messages:
  assumes "\<forall>m \<in> set ms. c_encode c m = Ok (enc m) \<and> c_decode c (enc m) = Ok m
             \<and> length (enc m) \<le> MESSAGE_LENGTH_MAX"
    and "\<not> remote_closed r" and "recveivable r"
  shows "recv_n c rc (length ms + k) r (map (\<lambda>m. Ok (gen_new_data sid (enc m))) ms @ rx)
    = (case recv_n c rc k r rx of (rs, r') \<Rightarrow> (map (\<lambda>m. Ok (Some m)) ms @ rs, r'))"
  using assms
  by (induction ms) (auto simp: opt_recv_def recv_data split: prod.splits)

subsection \<open>Properties\<close>

text \<open>
  A typed stream delivers what was sent. For any list of messages whose encodings are within the
  limit, the frames that \<open>send\<close> builds for them followed by the frame that \<open>close_send\<close> builds make
  the receiver return exactly those messages, in order, then the end of the stream once, and
  \<open>RemoteClosed\<close> for every further call, whatever else arrives.
\<close>

theorem stream_delivers:
  assumes "codec_laws c dflt"
    and "\<forall>m \<in> set ms. c_encode c m = Ok (enc m) \<and> length (enc m) \<le> MESSAGE_LENGTH_MAX"
    and "recveivable r" and "\<not> remote_closed r"
  shows "recv_n c rc (length ms + (1 + k)) r
      (map (\<lambda>m. Ok (gen_new_data sid (enc m))) ms @ Ok (gen_new_close sid) # junk)
    = (map (\<lambda>m. Ok (Some m)) ms @ Ok None # replicate k (Err RemoteClosed), r\<lparr>remote_closed := True\<rparr>)"
proof -
  have dec: "\<forall>m \<in> set ms. c_encode c m = Ok (enc m) \<and> c_decode c (enc m) = Ok m
      \<and> length (enc m) \<le> MESSAGE_LENGTH_MAX"
    using assms(2) codec_laws.decode_encode [OF assms(1)] by blast
  have close: "recv_n c rc (1 + k) r (Ok (gen_new_close sid) # junk)
      = (Ok None # replicate k (Err RemoteClosed), r\<lparr>remote_closed := True\<rparr>)"
    using recv_close [OF assms(4,3)] by (simp add: opt_recv_def recv_n_after_close)
  show ?thesis
    unfolding recv_n_messages [OF dec assms(4,3), where k = "1 + k"] close by simp
qed

theorem stream_delivers_witness:
  "recv_n response_codec response_codec 4 (si_receiver (new_server 3 True True))
     [Ok (gen_new_data 3 [18, 1, 9]), Ok (gen_new_close 3), Err Eof]
   = ([Ok (Some (response_set_payload [9] response_default)), Ok None, Err RemoteClosed, Err RemoteClosed],
      (si_receiver (new_server 3 True True))\<lparr>remote_closed := True\<rparr>)"
proof -
  let ?m = "response_set_payload [9] response_default"
  have "c_encode response_codec ?m = Ok [18, 1, 9]"
    by (simp add: response_codec_def pb_codec_def Let_def response_set_payload_def
        response_default_def response_fields_def len_field_def write_fields_def write_field_def
        write_varint.simps)
  then have enc: "\<forall>m \<in> set [?m]. c_encode response_codec m = Ok ((\<lambda>_. [18, 1, 9]) m)
      \<and> length ((\<lambda>_. [18, 1, 9 :: u8]) m) \<le> MESSAGE_LENGTH_MAX"
    by simp
  have r: "recveivable (si_receiver (new_server 3 True True))"
    "\<not> remote_closed (si_receiver (new_server 3 True True))"
    by (simp_all add: new_server_def stream_inner_new_def)
  from stream_delivers [OF resp_codec.codec_laws_axioms enc r, where k = 2 and sid = 3
      and junk = "[Err Eof]" and rc = response_codec]
  show ?thesis by (simp add: numeral_eq_Suc)
qed

text \<open>
  Closing the sending half is definitive exactly when the close frame went out: after a
  successful \<open>close_send\<close> every \<open>send\<close> and \<open>close_send\<close> fails with \<open>LocalClosed\<close> without touching the
  transform or the queue; a \<open>close_send\<close> that failed or is still waiting leaves the sender open.
\<close>

theorem close_send_definitive:
  "(\<forall>t' q' ss'. stream_close_send cx env ss t q = ((Some (Ok ()), t', q'), ss') \<longrightarrow>
      stream_send cx env' ss' buf t' q' = (Some (Err LocalClosed), t', q')
      \<and> stream_close_send cx env' ss' t' q' = ((Some (Err LocalClosed), t', q'), ss'))
   \<and> (\<forall>r t' q' ss'. stream_close_send cx env ss t q = ((r, t', q'), ss') \<and> r \<noteq> Some (Ok ()) \<longrightarrow>
      ss' = ss)"
  by (auto simp: stream_close_send_def stream_send_def
      split: if_splits prod.splits option.splits sum.splits)

definition open_sender :: stream_sender where
  "open_sender = \<lparr>ss_stream_id = 3, sendable = True, local_closed = False, ss_kind = Client\<rparr>"

theorem close_send_definitive_witness:
  "stream_send (conn_ctx_default :: (unit, unit) conn_ctx) free_env
     (open_sender\<lparr>local_closed := True\<rparr>) [1] ()
     [(sending_new_with_result (gen_new_close 3) 0)]
   = (Some (Err LocalClosed), (), [(sending_new_with_result (gen_new_close 3) 0)])"
proof -
  have "stream_close_send (conn_ctx_default :: (unit, unit) conn_ctx) free_env open_sender () []
    = ((Some (Ok ()), (), [sending_new_with_result (gen_new_close 3) 0]), open_sender\<lparr>local_closed := True\<rparr>)"
    by (simp add: stream_close_send_def open_sender_def transform_send_def transform_send_inner_def
        conn_ctx_default_def free_env_def reserve_message_slot_def acquire_lock_def outbound_def
        send_ack_def enqueue_def sending_new_with_result_def wire_simps)
  with close_send_definitive [of "conn_ctx_default :: (unit, unit) conn_ctx" free_env open_sender "()" "[]"
      free_env "[1]"]
  show ?thesis by blast
qed

text \<open>
  A receiver never delivers data it should not: a successful \<open>recv\<close> returns the payload of a
  DATA frame of a streaming server without the no-data close flags, or the payload of a response
  whose status is absent or OK; it is within the limit for DATA, and after a response or a frame
  that closes the remote half the receiver is closed.
\<close>

theorem stream_recv_sound:
  assumes "stream_recv rc r rx = (Ok p, r', rx')"
  shows "\<exists>msg. rx = Ok msg # rx' \<and>
    ((mh_type (header msg) = MESSAGE_TYPE_DATA \<and> recveivable r \<and> p = payload msg
        \<and> length p \<le> MESSAGE_LENGTH_MAX
        \<and> \<not> (has_flag (flags (header msg)) FLAG_REMOTE_CLOSED
             \<and> has_flag (flags (header msg)) FLAG_NO_DATA)
        \<and> (remote_closed r' \<longleftrightarrow> has_flag (flags (header msg)) FLAG_REMOTE_CLOSED)) \<or>
     (mh_type (header msg) = MESSAGE_TYPE_RESPONSE \<and> remote_closed r'
        \<and> (\<exists>resp. c_decode rc (payload msg) = Ok resp \<and> p = resp_payload resp \<and> non_ok resp = None)))"
proof -
  from assms have open_r: "\<not> remote_closed r"
    by (auto simp: stream_recv_def)
  from assms obtain msg where msg: "rx = Ok msg # rx'" "stream_recv_msg rc r msg = (Ok p, r')"
    by (auto simp: stream_recv_def recv_item_def split: if_splits list.splits sum.splits prod.splits)
  show ?thesis
  proof (cases "mh_type (header msg) = MESSAGE_TYPE_RESPONSE")
    case True
    with msg show ?thesis
      by (auto simp: stream_recv_msg_def non_ok_def get_status_def Let_def
          split: sum.splits option.splits if_splits)
  next
    case False
    with msg open_r show ?thesis
      by (auto simp: stream_recv_msg_def Let_def rbind_Ok_iff split: if_splits)
  qed
qed

theorem stream_recv_sound_witness:
  "\<exists>r'. stream_recv response_codec (si_receiver (new_server 3 True True)) [Ok (gen_new_data 3 [7])]
     = (Ok [7], r', [])
     \<and> (\<exists>msg. Ok (gen_new_data 3 [7]) = (Ok msg :: error + gen_message)
          \<and> (remote_closed r' \<longleftrightarrow> has_flag (flags (header msg)) FLAG_REMOTE_CLOSED))"
proof -
  have "stream_recv response_codec (si_receiver (new_server 3 True True)) [Ok (gen_new_data 3 [7])]
      = (Ok [7], si_receiver (new_server 3 True True), [])"
    by (rule recv_data) (simp_all add: new_server_def stream_inner_new_def)
  with stream_recv_sound [OF this] show ?thesis
    by (auto simp: wire_simps message_types)
qed

end
