(* ===== verification/AsyncClient.thy ===== *)
theory AsyncClient
  imports Connection Stream
begin

text \<open>
  The asynchronous client, \<open>src/src/asynchronous/client.rs\<close>: stream id allocation, unary requests with
  their registration guard and deadline, opening of streams, and the connection reader that routes
  responses to the per-call mailboxes. The interleaving of calls, the reader, the writer's end and
  the disconnect is the step relation \<open>cl_step\<close>.

  A mailbox (an unbounded channel) is a number; the client state holds what each mailbox contains
  and whether its receiver is alive. The \<open>Debug\<close> text of a header is an argument, and so is the
  order in which \<open>disconnect\<close> drains the map.
\<close>

record 't client =
  next_stream_id :: u32
  streams :: "u32 \<rightharpoonup> nat"
  mail :: "nat \<Rightarrow> (error + gen_message) list"
  rx_alive :: "nat \<Rightarrow> bool"
  next_mb :: nat
  req_tx :: "sending_message list"
  rx_open :: bool
  xst :: 't

definition client_new :: "'t \<Rightarrow> 't client" where
  "client_new t = \<lparr>next_stream_id = 1, streams = Map.empty, mail = (\<lambda>_. []), rx_alive = (\<lambda>_. False),
     next_mb = 0, req_tx = [], rx_open = True, xst = t\<rparr>"

text \<open>\<open>new_inner\<close>: the context of a new client, from the connect hook if there is one.\<close>

definition new_inner ::
  "(int \<Rightarrow> hook_error + ('d, 't) hook_output) option \<Rightarrow> int option \<Rightarrow> error + ('d, 't) conn_ctx" where
  "new_inner hook raw_fd =
     (case hook of
        Some h \<Rightarrow>
          (case raw_fd of
             Some fd \<Rightarrow>
               (case h fd of
                  Inr output \<Rightarrow> Ok (conn_ctx_new (Some output))
                | Inl e \<Rightarrow> Err (Others (''client connect hook failed (fd='' @ show_int fd @ ''): ''
                            @ hook_error_display e)))
           | None \<Rightarrow> Err (Others (''client connect hook configured but socket has no raw fd; construct ''
                      @ ''the Socket via Socket::connect or Socket::from(<platform stream>)'')))
      | None \<Rightarrow> Ok conn_ctx_default)"

subsection \<open>The reader\<close>

definition mailbox_send :: "nat \<Rightarrow> error + gen_message \<Rightarrow> 't client \<Rightarrow> bool \<times> 't client" where
  "mailbox_send mb r st =
     (if rx_alive st mb then (True, st\<lparr>mail := (mail st)(mb := mail st mb @ [r])\<rparr>) else (False, st))"

definition remove_stream :: "u32 \<Rightarrow> 't client \<Rightarrow> 't client" where
  "remove_stream sid st = st\<lparr>streams := (streams st)(sid := None)\<rparr>"

definition cl_send_result :: "u32 \<Rightarrow> nat \<Rightarrow> error + gen_message \<Rightarrow> 't client \<Rightarrow> 't client" where
  "cl_send_result sid mb r st =
     (case mailbox_send mb r st of (sent, st') \<Rightarrow> (if sent then st' else remove_stream sid st'))"

definition fail_stream :: "u32 \<Rightarrow> error \<Rightarrow> 't client \<Rightarrow> 't client" where
  "fail_stream sid e st =
     (case streams st sid of
        Some mb \<Rightarrow> cl_send_result sid mb (Err e) (remove_stream sid st)
      | None \<Rightarrow> remove_stream sid st)"

definition get_resp_tx ::
  "(message_header \<Rightarrow> string) \<Rightarrow> message_header \<Rightarrow> 't client \<Rightarrow> nat option \<times> 't client" where
  "get_resp_tx dbg mh st =
     (let sid = stream_id mh
      in if mh_type mh = MESSAGE_TYPE_RESPONSE then (streams st sid, remove_stream sid st)
         else if mh_type mh = MESSAGE_TYPE_DATA then
           (if has_flag (flags mh) FLAG_REMOTE_CLOSED then (streams st sid, remove_stream sid st)
            else (streams st sid, st))
         else (None, fail_stream sid (Others (''Receiver got malformed packet '' @ dbg mh)) st))"

definition cl_handle_msg ::
  "('d, 't) conn_ctx \<Rightarrow> (message_header \<Rightarrow> string) \<Rightarrow> gen_message \<Rightarrow> 't client \<Rightarrow> 't client" where
  "cl_handle_msg cx dbg msg st =
     (let sid = stream_id (header msg)
      in case inbound cx (xst st) msg False of
           (Inl e, t', _) \<Rightarrow> fail_stream sid e (st\<lparr>xst := t'\<rparr>)
         | (Inr _, t', msg') \<Rightarrow>
             (case get_resp_tx dbg (header msg') (st\<lparr>xst := t'\<rparr>) of
                (Some mb, st') \<Rightarrow> cl_send_result sid mb (Ok msg') st'
              | (None, st') \<Rightarrow> st'))"

definition cl_handle_err :: "message_header \<Rightarrow> error \<Rightarrow> 't client \<Rightarrow> 't client" where
  "cl_handle_err mh e st = fail_stream (stream_id mh) e st"

definition disconnect_one :: "error \<Rightarrow> 't client \<Rightarrow> u32 \<times> nat \<Rightarrow> 't client" where
  "disconnect_one e st kv = (case mailbox_send (snd kv) (Err e) st of (_, st') \<Rightarrow> st')"

definition cl_disconnect :: "((u32 \<rightharpoonup> nat) \<Rightarrow> (u32 \<times> nat) list) \<Rightarrow> error \<Rightarrow> 't client \<Rightarrow> 't client" where
  "cl_disconnect order e st =
     foldl (disconnect_one e) (st\<lparr>streams := Map.empty\<rparr>) (order (streams st))"

definition client_delegate ::
  "('d, 't) conn_ctx \<Rightarrow> (message_header \<Rightarrow> string) \<Rightarrow> ((u32 \<rightharpoonup> nat) \<Rightarrow> (u32 \<times> nat) list)
    \<Rightarrow> 't client delegate" where
  "client_delegate cx dbg order =
     \<lparr>dl_disconnect = cl_disconnect order, dl_exit = (\<lambda>st. st),
      dl_handle_msg = cl_handle_msg cx dbg, dl_handle_err = cl_handle_err\<rparr>"

subsection \<open>Requests\<close>

definition alloc_stream_id :: "'t client \<Rightarrow> u32 \<times> 't client" where
  "alloc_stream_id st = (next_stream_id st, st\<lparr>next_stream_id := next_stream_id st + 2\<rparr>)"

definition encode_request :: "request codec \<Rightarrow> u32 \<Rightarrow> request \<Rightarrow> error + gen_message" where
  "encode_request c sid req =
     rbind (message_new_request c sid req) (\<lambda>msg.
     rbind (map_err Others (gen_try_from c msg)) (\<lambda>g.
     rbind (check_oversize (length (payload g)) False) (\<lambda>_. Ok g)))"

definition register_stream :: "u32 \<Rightarrow> 't client \<Rightarrow> nat \<times> 't client" where
  "register_stream sid st =
     (next_mb st, st\<lparr>streams := (streams st)(sid \<mapsto> next_mb st), mail := (mail st)(next_mb st := []),
        rx_alive := (rx_alive st)(next_mb st := True), next_mb := next_mb st + 1\<rparr>)"

record call =
  ca_sid :: u32
  ca_mb :: nat
  ca_deadline :: "nat option"

definition request_deadline :: "nat \<Rightarrow> request \<Rightarrow> nat option" where
  "request_deadline now req =
     (if timeout_nano req = 0 then None else Some (now + unat (timeout_nano req)))"

text \<open>\<open>request\<close> up to the registration of its mailbox.\<close>

definition request_start ::
  "request codec \<Rightarrow> nat \<Rightarrow> request \<Rightarrow> 't client \<Rightarrow> (error + gen_message \<times> call) \<times> 't client" where
  "request_start c now req st =
     (case alloc_stream_id st of
        (sid, st1) \<Rightarrow>
          (case encode_request c sid req of
             Inl e \<Rightarrow> (Err e, st1)
           | Inr g \<Rightarrow>
               (case register_stream sid st1 of
                  (mb, st2) \<Rightarrow>
                    (Ok (g, \<lparr>ca_sid = sid, ca_mb = mb, ca_deadline = request_deadline now req\<rparr>), st2))))"

text \<open>
  Leaving \<open>request\<close>: the receiver is dropped, and the guard removes the registration unless it has
  been disarmed.
\<close>

definition request_leave :: "bool \<Rightarrow> call \<Rightarrow> 't client \<Rightarrow> 't client" where
  "request_leave disarmed ca st =
     (let st' = (if disarmed then st else remove_stream (ca_sid ca) st)
      in st'\<lparr>rx_alive := (rx_alive st')(ca_mb ca := False)\<rparr>)"

text \<open>The send of \<open>request\<close>; \<open>None\<close> means that it is still waiting.\<close>

definition request_send ::
  "('d, 't) conn_ctx \<Rightarrow> send_env \<Rightarrow> call \<Rightarrow> gen_message \<Rightarrow> 't client \<Rightarrow> (error + unit) option \<times> 't client" where
  "request_send cx env ca g st =
     (case transform_send_with_control cx env False False g
             \<lparr>mc_deadline = ca_deadline ca, mc_response_tx = ca_mb ca\<rparr> (xst st) (req_tx st) of
        (None, t', q') \<Rightarrow> (None, st\<lparr>xst := t', req_tx := q'\<rparr>)
      | (Some (Inl e), t', q') \<Rightarrow> (Some (Err e), request_leave False ca (st\<lparr>xst := t', req_tx := q'\<rparr>))
      | (Some (Inr _), t', q') \<Rightarrow> (Some (Ok ()), st\<lparr>xst := t', req_tx := q'\<rparr>))"

text \<open>
  The wait of \<open>request\<close> for its mailbox and what becomes of the answer: the result and whether the
  guard was disarmed before it was computed.
\<close>

definition request_result ::
  "response codec \<Rightarrow> (error + gen_message) option waited \<Rightarrow> (error + response) option \<times> bool" where
  "request_result rc w =
     (case w of
        Hangs \<Rightarrow> (None, False)
      | Elapsed \<Rightarrow> (Some (Err request_timeout_error), False)
      | Done None \<Rightarrow> (Some (Err RemoteClosed), False)
      | Done (Some (Inl e)) \<Rightarrow> (Some (Err e), True)
      | Done (Some (Inr msg)) \<Rightarrow>
          (case c_decode rc (payload msg) of
             Inl e \<Rightarrow> (Some (Err (err_to_others ''Unpack response error '' e)), True)
           | Inr res \<Rightarrow>
               (case non_ok res of
                  Some st \<Rightarrow> (Some (Err (RpcStatus st)), True)
                | None \<Rightarrow> (Some (Ok res), True))))"

definition request_finish ::
  "response codec \<Rightarrow> (error + gen_message) option wait \<Rightarrow> call \<Rightarrow> 't client
    \<Rightarrow> (error + response) option \<times> 't client" where
  "request_finish rc w ca st =
     (case request_result rc (await_deadline (ca_deadline ca) w) of
        (None, _) \<Rightarrow> (None, st)
      | (Some r, disarmed) \<Rightarrow> (Some r, request_leave disarmed ca st))"

subsection \<open>Streams\<close>

definition new_stream_msg ::
  "request codec \<Rightarrow> u32 \<Rightarrow> request \<Rightarrow> bool \<Rightarrow> error + gen_message" where
  "new_stream_msg c sid req streaming_client =
     rbind (encode_request c sid req) (\<lambda>g.
       if streaming_client then
         (if req_payload req \<noteq> [] then
            Err (get_rpc_status INVALID_ARGUMENT
              ''Creating a ClientStream and sending payload at the same time is not allowed'')
          else Ok (g\<lparr>header := add_flags (FLAG_REMOTE_OPEN OR FLAG_NO_DATA) (header g)\<rparr>))
       else Ok (g\<lparr>header := add_flags FLAG_REMOTE_CLOSED (header g)\<rparr>))"

definition new_stream ::
  "request codec \<Rightarrow> ('d, 't) conn_ctx \<Rightarrow> send_env \<Rightarrow> request \<Rightarrow> bool \<Rightarrow> bool \<Rightarrow> 't client
    \<Rightarrow> (error + stream_inner \<times> call) option \<times> 't client" where
  "new_stream c cx env req streaming_client streaming_server st =
     (case alloc_stream_id st of
        (sid, st1) \<Rightarrow>
          (case new_stream_msg c sid req streaming_client of
             Inl e \<Rightarrow> (Some (Err e), st1)
           | Inr g \<Rightarrow>
               (case register_stream sid st1 of
                  (mb, st2) \<Rightarrow>
                    (let ca = \<lparr>ca_sid = sid, ca_mb = mb, ca_deadline = None\<rparr>
                     in case transform_send cx env False False g (xst st2) (req_tx st2) of
                          (None, t', q') \<Rightarrow> (None, st2\<lparr>xst := t', req_tx := q'\<rparr>)
                        | (Some (Inl e), t', q') \<Rightarrow>
                            (Some (Err e), request_leave False ca (st2\<lparr>xst := t', req_tx := q'\<rparr>))
                        | (Some (Inr _), t', q') \<Rightarrow>
                            (Some (Ok (new_client sid streaming_client streaming_server, ca)),
                             st2\<lparr>xst := t', req_tx := q'\<rparr>)))))"

subsection \<open>What the reader leaves alone\<close>

lemmas cl_defs = mailbox_send_def remove_stream_def cl_send_result_def fail_stream_def
  get_resp_tx_def alloc_stream_id_def register_stream_def request_leave_def

lemma fail_stream_frame [frame_rules]:
  "next_stream_id (fail_stream sid e st) = next_stream_id st"
  "rx_alive (fail_stream sid e st) = rx_alive st" "next_mb (fail_stream sid e st) = next_mb st"
  "req_tx (fail_stream sid e st) = req_tx st" "rx_open (fail_stream sid e st) = rx_open st"
  "xst (fail_stream sid e st) = xst st"
  by (auto simp: cl_defs split: option.splits)

lemma fail_stream_streams: "streams (fail_stream sid e st) = (streams st)(sid := None)"
  by (auto simp: cl_defs split: option.splits)

lemma fail_stream_mail:
  "mail (fail_stream sid e st) mb =
     (if streams st sid = Some mb \<and> rx_alive st mb then mail st mb @ [Err e] else mail st mb)"
  by (auto simp: cl_defs split: option.splits)

lemma send_result_frame [frame_rules]:
  "next_stream_id (cl_send_result sid mb r st) = next_stream_id st"
  "rx_alive (cl_send_result sid mb r st) = rx_alive st"
  "next_mb (cl_send_result sid mb r st) = next_mb st"
  "req_tx (cl_send_result sid mb r st) = req_tx st"
  "rx_open (cl_send_result sid mb r st) = rx_open st" "xst (cl_send_result sid mb r st) = xst st"
  by (auto simp: cl_defs)

text \<open>What the reader does with one frame, in terms of the outcome of the inbound pipeline.\<close>

definition ends_stream :: "message_header \<Rightarrow> bool" where
  "ends_stream mh \<longleftrightarrow> mh_type mh = MESSAGE_TYPE_RESPONSE
     \<or> mh_type mh = MESSAGE_TYPE_DATA \<and> has_flag (flags mh) FLAG_REMOTE_CLOSED"

definition routable :: "message_header \<Rightarrow> bool" where
  "routable mh \<longleftrightarrow> mh_type mh = MESSAGE_TYPE_RESPONSE \<or> mh_type mh = MESSAGE_TYPE_DATA"

lemma ends_routable: "ends_stream mh \<Longrightarrow> routable mh"
  by (auto simp: ends_stream_def routable_def)

lemma cl_handle_msg_ok:
  assumes "inbound cx (xst st) msg False = (Ok (), t', msg')" and "routable (header msg')"
    and "stream_id (header msg') = stream_id (header msg)"
  shows "cl_handle_msg cx dbg msg st =
    (let st1 = st\<lparr>xst := t'\<rparr>; sid = stream_id (header msg);
         st2 = (if ends_stream (header msg') then remove_stream sid st1 else st1)
     in case streams st sid of Some mb \<Rightarrow> cl_send_result sid mb (Ok msg') st2 | None \<Rightarrow> st2)"
  using assms
  by (auto simp: cl_handle_msg_def get_resp_tx_def ends_stream_def routable_def Let_def message_types
      split: option.splits)

lemma cl_handle_msg_fail:
  assumes "inbound cx (xst st) msg False = (r, t', msg')"
    and "\<not> (is_ok r \<and> routable (header msg'))"
    and "is_ok r \<Longrightarrow> stream_id (header msg') = stream_id (header msg)"
  shows "\<exists>e. cl_handle_msg cx dbg msg st = fail_stream (stream_id (header msg)) e (st\<lparr>xst := t'\<rparr>)"
  using assms
  by (cases r) (auto simp: cl_handle_msg_def get_resp_tx_def routable_def Let_def)

lemma inbound_stream_id:
  "inbound cx t msg b = (Ok (), t', msg') \<Longrightarrow> stream_id (header msg') = stream_id (header msg)"
  using inbound_ok(2) [of cx t msg b t' msg'] by (simp add: same_route_def)

text \<open>The two possible effects of one frame on a client.\<close>

lemma cl_handle_msg_cases:
  obtains (failed) e t' where
      "cl_handle_msg cx dbg msg st = fail_stream (stream_id (header msg)) e (st\<lparr>xst := t'\<rparr>)"
    | (routed) t' msg' where
      "inbound cx (xst st) msg False = (Ok (), t', msg')" "routable (header msg')"
      "streams (cl_handle_msg cx dbg msg st) =
         (if ends_stream (header msg') \<or>
             (\<exists>mb. streams st (stream_id (header msg)) = Some mb \<and> \<not> rx_alive st mb)
          then (streams st)(stream_id (header msg) := None) else streams st)"
      "\<And>mb. mail (cl_handle_msg cx dbg msg st) mb =
         (if streams st (stream_id (header msg)) = Some mb \<and> rx_alive st mb
          then mail st mb @ [Ok msg'] else mail st mb)"
      "rx_alive (cl_handle_msg cx dbg msg st) = rx_alive st"
      "next_mb (cl_handle_msg cx dbg msg st) = next_mb st"
      "rx_open (cl_handle_msg cx dbg msg st) = rx_open st"
proof -
  obtain r t' msg' where i: "inbound cx (xst st) msg False = (r, t', msg')"
    by (metis surj_pair)
  have sid: "is_ok r \<Longrightarrow> stream_id (header msg') = stream_id (header msg)"
    using i inbound_stream_id by (cases r) auto
  show thesis
  proof (cases "is_ok r \<and> routable (header msg')")
    case False
    with cl_handle_msg_fail [OF i _ sid] failed show ?thesis by blast
  next
    case True
    then have ok: "inbound cx (xst st) msg False = (Ok (), t', msg')"
      using i by (cases r) auto
    note eq = cl_handle_msg_ok [OF ok conjunct2 [OF True] sid, of dbg]
    show ?thesis
      by (rule routed [OF ok conjunct2 [OF True]])
        (use True in \<open>auto simp: eq Let_def cl_defs split: option.splits\<close>)
  qed
qed

text \<open>
  C19: Responses reach their own call and nothing else. Whatever frame the reader gets, the
  registrations and mailboxes of all other streams are unchanged. For the frame's own stream, with a
  live receiver: if the frame passes the inbound pipeline and is a response or data, exactly its
  decoded message is appended to the stream's mailbox, and the registration is removed exactly when
  the frame ends the stream; otherwise an error is appended and the registration is removed.
\<close>

theorem client_routing:
  assumes "st' = cl_handle_msg cx dbg msg st" and "sid = stream_id (header msg)"
  shows "(\<forall>sid'. sid' \<noteq> sid \<longrightarrow> streams st' sid' = streams st sid')
    \<and> (\<forall>mb. streams st sid \<noteq> Some mb \<longrightarrow> mail st' mb = mail st mb)
    \<and> (\<forall>mb. streams st sid = Some mb \<and> rx_alive st mb \<longrightarrow>
         (case inbound cx (xst st) msg False of (r, t', msg') \<Rightarrow>
            if is_ok r \<and> routable (header msg') then
              mail st' mb = mail st mb @ [Ok msg']
              \<and> streams st' sid = (if ends_stream (header msg') then None else Some mb)
            else (\<exists>e. mail st' mb = mail st mb @ [Err e]) \<and> streams st' sid = None))"
proof -
  obtain r t' msg' where i: "inbound cx (xst st) msg False = (r, t', msg')"
    by (metis surj_pair)
  have sid: "is_ok r \<Longrightarrow> stream_id (header msg') = stream_id (header msg)"
    using i inbound_stream_id by (cases r) auto
  show ?thesis
  proof (cases "is_ok r \<and> routable (header msg')")
    case True
    then have ok: "inbound cx (xst st) msg False = (Ok (), t', msg')"
      using i by (cases r) auto
    show ?thesis
      using True i assms cl_handle_msg_ok [OF ok conjunct2 [OF True] sid, of dbg]
      by (auto simp: cl_defs Let_def split: option.splits)
  next
    case False
    obtain e where "st' = fail_stream sid e (st\<lparr>xst := t'\<rparr>)"
      using cl_handle_msg_fail [OF i False sid] assms by blast
    with False i show ?thesis by (auto simp: fail_stream_streams fail_stream_mail)
  qed
qed

definition dbg0 :: "message_header \<Rightarrow> string" where
  "dbg0 mh = show_nat (unat (stream_id mh))"

definition two_calls :: "unit client" where
  "two_calls = snd (register_stream 3 (snd (register_stream 1 (client_new ()))))"

theorem client_routing_witness:
  "mail (cl_handle_msg (conn_ctx_default :: (unit, unit) conn_ctx) dbg0 (gen_new_response 3 [7]) two_calls) 1
     = [Ok (gen_new_response 3 [7])]
   \<and> streams (cl_handle_msg (conn_ctx_default :: (unit, unit) conn_ctx) dbg0 (gen_new_response 3 [7]) two_calls) 3
     = None"
proof -
  have "streams two_calls 3 = Some 1" "rx_alive two_calls 1" "mail two_calls 1 = []"
    by (simp_all add: two_calls_def register_stream_def client_new_def)
  moreover have "inbound (conn_ctx_default :: (unit, unit) conn_ctx) (xst two_calls) (gen_new_response 3 [7]) False
      = (Ok (), (), gen_new_response 3 [7])"
    by (simp add: inbound_def conn_ctx_default_def wire_simps)
  moreover have "routable (header (gen_new_response 3 [7]))" "ends_stream (header (gen_new_response 3 [7]))"
    "stream_id (header (gen_new_response 3 [7])) = 3"
    by (simp_all add: routable_def ends_stream_def wire_simps)
  ultimately show ?thesis
    using client_routing [where msg = "gen_new_response 3 [7]" and st = two_calls and dbg = dbg0
        and cx = "conn_ctx_default :: (unit, unit) conn_ctx", OF refl refl]
    by auto
qed

definition nth_stream_id :: "'t \<Rightarrow> nat \<Rightarrow> u32" where
  "nth_stream_id t n = fst (alloc_stream_id (((\<lambda>st. snd (alloc_stream_id st)) ^^ n) (client_new t)))"

lemma nth_stream_id_eq: "nth_stream_id t n = of_nat (2 * n + 1)"
proof -
  have "next_stream_id (((\<lambda>st. snd (alloc_stream_id st)) ^^ n) (client_new t)) = of_nat (2 * n + 1)"
    by (induction n) (simp_all add: alloc_stream_id_def client_new_def)
  then show ?thesis by (simp add: nth_stream_id_def alloc_stream_id_def)
qed

lemma double_mod_eq: "(2 * m + 1) mod 2 ^ 32 = (2 * n + 1 :: nat) mod 2 ^ 32 \<longleftrightarrow> m mod 2 ^ 31 = n mod 2 ^ 31"
proof -
  have "(2 * k + 1) mod 2 ^ 32 = 2 * (k mod 2 ^ 31) + (1 :: nat)" for k :: nat
    by (simp add: mod_mult2_eq [of "2 * k + 1" 2 "2 ^ 31", simplified])
  then show ?thesis by simp
qed

text \<open>
  Stream ids of one client are odd, start at 1 and go up by two: the \<open>n\<close>-th one is
  \<open>2 * n + 1\<close> modulo \<open>2 ^ 32\<close>. Two allocations get the same id exactly when their numbers agree modulo
  \<open>2 ^ 31\<close>: ids are unique for the first \<open>2 ^ 31\<close> calls of a connection, and reused after that.
\<close>

theorem stream_ids:
  "uint (nth_stream_id t n) = (2 * int n + 1) mod 2 ^ 32 \<and> odd (nth_stream_id t n)
   \<and> (nth_stream_id t m = nth_stream_id t n \<longleftrightarrow> m mod 2 ^ 31 = n mod 2 ^ 31)"
proof -
  have "(of_nat (2 * m + 1) :: u32) = of_nat (2 * n + 1) \<longleftrightarrow> (2 * m + 1) mod 2 ^ 32 = (2 * n + 1) mod 2 ^ 32"
    by (simp add: word_of_nat_eq_iff take_bit_eq_mod del: of_nat_add of_nat_mult of_nat_Suc)
  moreover have "uint (of_nat (2 * n + 1) :: u32) = (2 * int n + 1) mod 2 ^ 32"
    by (simp add: unsigned_of_nat take_bit_eq_mod zmod_int del: of_nat_add of_nat_mult of_nat_Suc)
      (simp add: add.commute)
  moreover have "odd (of_nat (2 * n + 1) :: u32)"
    by (simp add: even_word_iff)
  ultimately show ?thesis
    unfolding nth_stream_id_eq double_mod_eq by blast
qed

subsection \<open>Interleavings of calls, reader and teardown\<close>

datatype phase = Starting gen_message | Waiting | Streaming | Ended

record 't cl_sys =
  cl :: "'t client"
  calls :: "nat \<rightharpoonup> call \<times> phase"
  down :: bool

definition active :: "'t cl_sys \<Rightarrow> nat \<Rightarrow> call \<Rightarrow> bool" where
  "active s mb ca \<longleftrightarrow> (\<exists>ph. calls s mb = Some (ca, ph) \<and> ph \<noteq> Ended)"

text \<open>
  The id is in use neither as a registration nor by a call that has not ended; by the previous
  property this is so unless a connection makes \<open>2 ^ 31\<close> calls during the life of one.
\<close>

definition fresh_id :: "'t cl_sys \<Rightarrow> u32 \<Rightarrow> bool" where
  "fresh_id s sid \<longleftrightarrow> streams (cl s) sid = None \<and> (\<forall>mb ca. active s mb ca \<longrightarrow> ca_sid ca \<noteq> sid)"

text \<open>A queue whose receiver is gone grants no slot.\<close>

definition env_matches :: "'t client \<Rightarrow> send_env \<Rightarrow> bool" where
  "env_matches st env \<longleftrightarrow> (\<not> rx_open st \<longrightarrow> \<not> try_reserve env \<and> (\<exists>tm e. reserve env = At tm (Err e)))"

inductive cl_step ::
  "request codec \<Rightarrow> ('d, 't) conn_ctx \<Rightarrow> (message_header \<Rightarrow> string)
    \<Rightarrow> ((u32 \<rightharpoonup> nat) \<Rightarrow> (u32 \<times> nat) list) \<Rightarrow> 't cl_sys \<Rightarrow> 't cl_sys \<Rightarrow> bool"
  for c cx dbg order where
  st_start: "request_start c now req (cl s) = (Ok (g, ca), cl') \<Longrightarrow> fresh_id s (ca_sid ca) \<Longrightarrow>
    cl_step c cx dbg order s (s\<lparr>cl := cl', calls := (calls s)(ca_mb ca \<mapsto> (ca, Starting g))\<rparr>)"
| st_start_err: "request_start c now req (cl s) = (Err e, cl') \<Longrightarrow>
    cl_step c cx dbg order s (s\<lparr>cl := cl'\<rparr>)"
| st_send: "calls s mb = Some (ca, Starting g) \<Longrightarrow> env_matches (cl s) env \<Longrightarrow>
    request_send cx env ca g (cl s) = (r, cl') \<Longrightarrow>
    cl_step c cx dbg order s (s\<lparr>cl := cl', calls := (calls s)(mb \<mapsto>
      (ca, case r of None \<Rightarrow> Starting g | Some (Inr _) \<Rightarrow> Waiting | Some (Inl _) \<Rightarrow> Ended))\<rparr>)"
| st_open: "env_matches (cl s) env \<Longrightarrow>
    new_stream c cx env req sc ss (cl s) = (Some (Ok (si, ca)), cl') \<Longrightarrow> fresh_id s (ca_sid ca) \<Longrightarrow>
    cl_step c cx dbg order s (s\<lparr>cl := cl', calls := (calls s)(ca_mb ca \<mapsto> (ca, Streaming))\<rparr>)"
| st_msg: "\<not> down s \<Longrightarrow> cl_step c cx dbg order s (s\<lparr>cl := cl_handle_msg cx dbg msg (cl s)\<rparr>)"
| st_err: "\<not> down s \<Longrightarrow> cl_step c cx dbg order s (s\<lparr>cl := cl_handle_err mh e (cl s)\<rparr>)"
| st_writer_end: "cl_step c cx dbg order s (s\<lparr>cl := (cl s)\<lparr>rx_open := False\<rparr>\<rparr>)"
| st_disconnect: "\<not> down s \<Longrightarrow> \<not> rx_open (cl s) \<Longrightarrow>
    cl_step c cx dbg order s (s\<lparr>cl := cl_disconnect order e (cl s), down := True\<rparr>)"
| st_finish: "calls s mb = Some (ca, Waiting) \<Longrightarrow> mail (cl s) mb = r # rs \<Longrightarrow>
    cl_step c cx dbg order s (s\<lparr>cl := request_leave True ca ((cl s)\<lparr>mail := (mail (cl s))(mb := rs)\<rparr>),
      calls := (calls s)(mb \<mapsto> (ca, Ended))\<rparr>)"
| st_timeout: "calls s mb = Some (ca, Waiting) \<Longrightarrow>
    cl_step c cx dbg order s (s\<lparr>cl := request_leave False ca (cl s), calls := (calls s)(mb \<mapsto> (ca, Ended))\<rparr>)"
| st_drop: "calls s mb = Some (ca, Streaming) \<Longrightarrow>
    cl_step c cx dbg order s (s\<lparr>cl := request_leave False ca (cl s), calls := (calls s)(mb \<mapsto> (ca, Ended))\<rparr>)"

inductive cl_reach ::
  "request codec \<Rightarrow> ('d, 't) conn_ctx \<Rightarrow> (message_header \<Rightarrow> string)
    \<Rightarrow> ((u32 \<rightharpoonup> nat) \<Rightarrow> (u32 \<times> nat) list) \<Rightarrow> 't \<Rightarrow> 't cl_sys \<Rightarrow> bool"
  for c cx dbg order t where
  cl_init: "cl_reach c cx dbg order t \<lparr>cl = client_new t, calls = Map.empty, down = False\<rparr>"
| cl_next: "cl_reach c cx dbg order t s \<Longrightarrow> cl_step c cx dbg order s s' \<Longrightarrow> cl_reach c cx dbg order t s'"
subsection \<open>The invariant\<close>

definition good :: "'t client \<Rightarrow> bool" where
  "good st \<longleftrightarrow> (\<forall>a b mb. streams st a = Some mb \<and> streams st b = Some mb \<longrightarrow> a = b)
     \<and> (\<forall>a mb. streams st a = Some mb \<longrightarrow> mb < next_mb st) \<and> finite (dom (streams st))"

definition ok_call :: "'t client \<Rightarrow> nat \<Rightarrow> call \<Rightarrow> phase \<Rightarrow> bool" where
  "ok_call st mb ca ph \<longleftrightarrow> ca_mb ca = mb \<and> mb < next_mb st
     \<and> (ph \<noteq> Ended \<longrightarrow> rx_alive st mb)
     \<and> (ph \<noteq> Ended \<and> ph \<noteq> Streaming \<longrightarrow> streams st (ca_sid ca) = Some mb \<or> mail st mb \<noteq> [])"

definition uniq_ids :: "'t cl_sys \<Rightarrow> bool" where
  "uniq_ids s \<longleftrightarrow>
     (\<forall>mb mb' ca ca'. active s mb ca \<and> active s mb' ca' \<and> ca_sid ca = ca_sid ca' \<longrightarrow> mb = mb')"

definition down_ok :: "'t cl_sys \<Rightarrow> bool" where
  "down_ok s \<longleftrightarrow> (down s \<longrightarrow> \<not> rx_open (cl s)
     \<and> (\<forall>mb ca. calls s mb = Some (ca, Waiting) \<longrightarrow> mail (cl s) mb \<noteq> []))"

definition calls_ok :: "'t cl_sys \<Rightarrow> bool" where
  "calls_ok s \<longleftrightarrow> (\<forall>mb ca ph. calls s mb = Some (ca, ph) \<longrightarrow> ok_call (cl s) mb ca ph)"

definition cl_inv :: "'t cl_sys \<Rightarrow> bool" where
  "cl_inv s \<longleftrightarrow> good (cl s) \<and> calls_ok s \<and> uniq_ids s \<and> down_ok s"

lemma cl_invD:
  assumes "cl_inv s"
  shows "good (cl s)" "calls s mb = Some (ca, ph) \<Longrightarrow> ok_call (cl s) mb ca ph"
    "uniq_ids s" "down_ok s"
  using assms by (auto simp: cl_inv_def calls_ok_def)

lemma uniq_ids_sub:
  "uniq_ids s \<Longrightarrow> (\<And>mb ca. active s' mb ca \<Longrightarrow> active s mb ca) \<Longrightarrow> uniq_ids s'"
  unfolding uniq_ids_def by blast

lemma good_sub:
  "\<lbrakk>good st; streams st' \<subseteq>\<^sub>m streams st; next_mb st' = next_mb st\<rbrakk> \<Longrightarrow> good st'"
proof -
  assume g: "good st" and le: "streams st' \<subseteq>\<^sub>m streams st" and n: "next_mb st' = next_mb st"
  have sub: "streams st a = Some mb" if "streams st' a = Some mb" for a mb
    using le that by (metis domI map_le_def)
  have "dom (streams st') \<subseteq> dom (streams st)" using sub by blast
  with g n sub show "good st'" by (fastforce simp: good_def intro: finite_subset)
qed

lemma map_le_remove [simp]: "m(k := None) \<subseteq>\<^sub>m m"
  by (simp add: map_le_def)

text \<open>
  What any action of the reader does: it only removes registrations, only appends to mailboxes, and
  a live mailbox that loses its registration is not left empty.
\<close>

definition reader_effect :: "'t client \<Rightarrow> 't client \<Rightarrow> bool" where
  "reader_effect st st' \<longleftrightarrow> rx_alive st' = rx_alive st \<and> next_mb st' = next_mb st \<and> rx_open st' = rx_open st
     \<and> streams st' \<subseteq>\<^sub>m streams st \<and> (\<forall>mb. mail st mb \<noteq> [] \<longrightarrow> mail st' mb \<noteq> [])
     \<and> (\<forall>sid mb. streams st sid = Some mb \<and> rx_alive st mb \<and> streams st' sid \<noteq> Some mb \<longrightarrow> mail st' mb \<noteq> [])"

lemma reader_effect_fail: "reader_effect st (fail_stream sid e (st\<lparr>xst := t'\<rparr>))"
  by (auto simp: reader_effect_def frame_rules fail_stream_streams fail_stream_mail)

lemma reader_effect_err: "reader_effect st (cl_handle_err mh e st)"
  by (auto simp: cl_handle_err_def reader_effect_def frame_rules fail_stream_streams fail_stream_mail)

lemma reader_effect_msg: "reader_effect st (cl_handle_msg cx dbg msg st)"
proof (cases rule: cl_handle_msg_cases [of cx dbg msg st])
  case (failed e t')
  then show ?thesis by (simp add: reader_effect_fail)
next
  case (routed t' msg')
  then show ?thesis by (auto simp: reader_effect_def)
qed

lemma disconnect_fold:
  "streams (foldl (disconnect_one e) st kvs) = streams st
    \<and> rx_alive (foldl (disconnect_one e) st kvs) = rx_alive st
    \<and> next_mb (foldl (disconnect_one e) st kvs) = next_mb st
    \<and> rx_open (foldl (disconnect_one e) st kvs) = rx_open st"
proof (induction kvs arbitrary: st)
  case (Cons kv kvs)
  then show ?case by (simp add: disconnect_one_def mailbox_send_def)
qed simp

lemma disconnect_fold_mail:
  "\<exists>n. mail (foldl (disconnect_one e) st kvs) mb = mail st mb @ replicate n (Err e)
     \<and> (0 < n \<longleftrightarrow> mb \<in> snd ` set kvs \<and> rx_alive st mb)"
proof (induction kvs arbitrary: st)
  case (Cons kv kvs)
  let ?st = "disconnect_one e st kv"
  have fr: "rx_alive ?st = rx_alive st"
    "mail ?st = (if rx_alive st (snd kv) then (mail st)(snd kv := mail st (snd kv) @ [Err e]) else mail st)"
    by (simp_all add: disconnect_one_def mailbox_send_def)
  obtain n where n: "mail (foldl (disconnect_one e) ?st kvs) mb = mail ?st mb @ replicate n (Err e)"
      "0 < n \<longleftrightarrow> mb \<in> snd ` set kvs \<and> rx_alive st mb"
    using Cons.IH [of ?st] fr(1) by auto
  show ?case
  proof (cases "mb = snd kv \<and> rx_alive st (snd kv)")
    case True
    then have "mail (foldl (disconnect_one e) st (kv # kvs)) mb = mail st mb @ replicate (Suc n) (Err e)"
      using n(1) fr(2) by simp
    with True show ?thesis by (intro exI [of _ "Suc n"]) simp
  next
    case False
    with n fr(2) show ?thesis by (intro exI [of _ n]) auto
  qed
qed simp

definition drains :: "((u32 \<rightharpoonup> nat) \<Rightarrow> (u32 \<times> nat) list) \<Rightarrow> bool" where
  "drains order \<longleftrightarrow> (\<forall>m. finite (dom m) \<longrightarrow> enumerates (order m) m)"

lemma disconnect_effect:
  assumes "drains order" and "finite (dom (streams st))"
  shows "reader_effect st (cl_disconnect order e st)"
    and "streams (cl_disconnect order e st) = Map.empty"
    and "\<And>sid mb. streams st sid = Some mb \<Longrightarrow> rx_alive st mb \<Longrightarrow>
      \<exists>n. mail (cl_disconnect order e st) mb = mail st mb @ replicate (Suc n) (Err e)"
proof -
  let ?kvs = "order (streams st)" and ?st = "st\<lparr>streams := Map.empty\<rparr>"
  have d: "cl_disconnect order e st = foldl (disconnect_one e) ?st ?kvs"
    by (simp add: cl_disconnect_def)
  note df = disconnect_fold [of e ?st ?kvs, folded d]
  have dm: "\<exists>n. mail (cl_disconnect order e st) mb = mail st mb @ replicate n (Err e)
      \<and> (0 < n \<longleftrightarrow> mb \<in> snd ` set ?kvs \<and> rx_alive st mb)" for mb
    using disconnect_fold_mail [of e ?st ?kvs mb, folded d] by simp
  have en: "enumerates ?kvs (streams st)" using assms by (simp add: drains_def)
  have reg: "mb \<in> snd ` set ?kvs" if "streams st sid = Some mb" for sid mb
    using enumerates_in [OF en, of sid mb] that by force
  show app: "\<exists>n. mail (cl_disconnect order e st) mb = mail st mb @ replicate (Suc n) (Err e)"
    if regd: "streams st sid = Some mb" and live: "rx_alive st mb" for sid mb
  proof -
    obtain n where "mail (cl_disconnect order e st) mb = mail st mb @ replicate n (Err e)" "0 < n"
      using dm [of mb] reg [OF regd] live by blast
    then show ?thesis by (metis Suc_pred)
  qed
  show "streams (cl_disconnect order e st) = Map.empty" using df by simp
  have "mail (cl_disconnect order e st) mb \<noteq> []" if "mail st mb \<noteq> []" for mb
    using dm [of mb] that by auto
  moreover have "mail (cl_disconnect order e st) mb \<noteq> []"
    if "streams st sid = Some mb" "rx_alive st mb" for sid mb
    using app [OF that] by auto
  ultimately show "reader_effect st (cl_disconnect order e st)"
    using df by (auto simp: reader_effect_def)
qed

text \<open>An action of the reader preserves the invariant.\<close>

lemma ok_call_reader:
  "reader_effect st st' \<Longrightarrow> ok_call st mb ca ph \<Longrightarrow> ok_call st' mb ca ph"
  by (fastforce simp: reader_effect_def ok_call_def)

lemma cl_inv_reader:
  assumes inv: "cl_inv s" and eff: "reader_effect (cl s) st'" and "\<not> down s"
  shows "cl_inv (s\<lparr>cl := st'\<rparr>)"
  unfolding cl_inv_def
proof (intro conjI)
  show "good (cl (s\<lparr>cl := st'\<rparr>))"
    by (rule good_sub [OF cl_invD(1) [OF inv]]) (use eff in \<open>simp_all add: reader_effect_def\<close>)
  show "calls_ok (s\<lparr>cl := st'\<rparr>)"
    using ok_call_reader [OF eff] cl_invD(2) [OF inv] by (auto simp: calls_ok_def)
  show "uniq_ids (s\<lparr>cl := st'\<rparr>)"
    by (rule uniq_ids_sub [OF cl_invD(3) [OF inv]]) (simp add: active_def)
  show "down_ok (s\<lparr>cl := st'\<rparr>)"
    using assms(3) by (simp add: down_ok_def)
qed

text \<open>So does a call that leaves: nobody else uses its id.\<close>

lemma leave_frame [frame_rules]:
  "mail (request_leave d ca st) = mail st" "next_mb (request_leave d ca st) = next_mb st"
  "rx_open (request_leave d ca st) = rx_open st"
  "rx_alive (request_leave d ca st) = (rx_alive st)(ca_mb ca := False)"
  "streams (request_leave d ca st) = (if d then streams st else (streams st)(ca_sid ca := None))"
  by (simp_all add: request_leave_def remove_stream_def Let_def)

text \<open>\<open>mail'\<close> may differ from the old mailboxes at the leaving call only.\<close>

lemma cl_inv_leave:
  assumes inv: "cl_inv s" and call: "calls s mb = Some (ca, ph)" and ph: "ph \<noteq> Ended"
    and st: "streams st = streams (cl s)" "rx_alive st = rx_alive (cl s)" "next_mb st = next_mb (cl s)"
      "rx_open st = rx_open (cl s)" "\<forall>mb'. mb' \<noteq> mb \<longrightarrow> mail st mb' = mail (cl s) mb'"
  shows "cl_inv (s\<lparr>cl := request_leave d ca st, calls := (calls s)(mb \<mapsto> (ca, Ended))\<rparr>)"
proof -
  let ?s = "s\<lparr>cl := request_leave d ca st, calls := (calls s)(mb \<mapsto> (ca, Ended))\<rparr>"
  have mb: "ca_mb ca = mb" "mb < next_mb (cl s)"
    using cl_invD(2) [OF inv call] by (auto simp: ok_call_def)
  have act: "active s mb' ca'" if "calls s mb' = Some (ca', ph')" "ph' \<noteq> Ended" for mb' ca' ph'
    using that by (auto simp: active_def)
  have other: "ca_sid ca' \<noteq> ca_sid ca" if "active s mb' ca'" "mb' \<noteq> mb" for mb' ca'
    using cl_invD(3) [OF inv] that act [OF call ph] unfolding uniq_ids_def by blast
  have "good (request_leave d ca st)"
    by (rule good_sub [OF cl_invD(1) [OF inv]]) (use st in \<open>simp_all add: frame_rules\<close>)
  moreover have "ok_call (request_leave d ca st) mb' ca' ph'"
    if c: "calls ?s mb' = Some (ca', ph')" for mb' ca' ph'
  proof (cases "mb' = mb")
    case True
    with c mb st show ?thesis by (simp add: ok_call_def frame_rules)
  next
    case False
    with c have c': "calls s mb' = Some (ca', ph')" by simp
    then have "ok_call (cl s) mb' ca' ph'" by (rule cl_invD(2) [OF inv])
    with False mb st other [OF act [OF c'] False] show ?thesis
      by (auto simp: ok_call_def frame_rules)
  qed
  moreover have "uniq_ids ?s"
    by (rule uniq_ids_sub [OF cl_invD(3) [OF inv]]) (auto simp: active_def split: if_splits)
  moreover have "down_ok ?s"
    using cl_invD(4) [OF inv] st by (auto simp: down_ok_def frame_rules)
  ultimately show ?thesis by (simp add: cl_inv_def calls_ok_def)
qed

text \<open>A call that registers gets a mailbox and an id of its own.\<close>

lemma cl_inv_register:
  assumes inv: "cl_inv s" and fresh: "fresh_id s sid" and ca: "ca_sid ca = sid" "ca_mb ca = next_mb (cl s)"
    and ph: "ph = Starting g \<or> ph = Streaming"
    and st: "streams st = (streams (cl s))(sid \<mapsto> next_mb (cl s))"
      "mail st = (mail (cl s))(next_mb (cl s) := [])"
      "rx_alive st = (rx_alive (cl s))(next_mb (cl s) := True)" "next_mb st = next_mb (cl s) + 1"
      "rx_open st = rx_open (cl s)"
  shows "cl_inv (s\<lparr>cl := st, calls := (calls s)(ca_mb ca \<mapsto> (ca, ph))\<rparr>)"
proof -
  let ?s = "s\<lparr>cl := st, calls := (calls s)(ca_mb ca \<mapsto> (ca, ph))\<rparr>"
  have old: "mb < next_mb (cl s)" if "calls s mb = Some (ca', ph')" for mb ca' ph'
    using cl_invD(2) [OF inv that] by (simp add: ok_call_def)
  have none: "streams (cl s) sid = None" using fresh by (simp add: fresh_id_def)
  have "good st"
    using cl_invD(1) [OF inv] none st unfolding good_def
    by (auto simp: less_Suc_eq split: if_splits)
  moreover have "ok_call st mb' ca' ph'" if c: "calls ?s mb' = Some (ca', ph')" for mb' ca' ph'
  proof (cases "mb' = next_mb (cl s)")
    case True
    with c ca st show ?thesis by (auto simp: ok_call_def)
  next
    case False
    with c ca have c': "calls s mb' = Some (ca', ph')" by simp
    have "ca_sid ca' \<noteq> sid" if "ph' \<noteq> Ended"
      using fresh c' that by (auto simp: fresh_id_def active_def)
    with cl_invD(2) [OF inv c'] False st show ?thesis by (auto simp: ok_call_def)
  qed
  moreover have "uniq_ids ?s"
  proof -
    have "active s mb' ca'" "ca_sid ca' \<noteq> sid" if "active ?s mb' ca'" "mb' \<noteq> next_mb (cl s)" for mb' ca'
      using that ca fresh by (auto simp: active_def fresh_id_def split: if_splits)
    moreover have "ca' = ca" if "active ?s (next_mb (cl s)) ca'" for ca'
      using that ca by (auto simp: active_def)
    ultimately show ?thesis
      using cl_invD(3) [OF inv] ca(1) unfolding uniq_ids_def by metis
  qed
  moreover have "down_ok ?s"
    using cl_invD(4) [OF inv] st ph old ca by (fastforce simp: down_ok_def split: if_splits)
  ultimately show ?thesis by (simp add: cl_inv_def calls_ok_def)
qed

text \<open>A closed queue refuses every send.\<close>

lemma closed_slot:
  assumes "env_matches st env" and "\<not> rx_open st"
  shows "\<exists>e. reserve_message_slot (try_reserve env) (reserve env) d = Some (Err e)"
  using assms by (cases d) (auto simp: env_matches_def reserve_message_slot_def)

lemma closed_send:
  assumes "env_matches st env" and "\<not> rx_open st"
  shows "\<exists>e. transform_send_inner cx env b aw ctl msg t q = (Some (Err e), t, q)"
  using closed_slot [OF assms, of "Option.bind ctl mc_deadline"]
  by (auto simp: transform_send_inner_def Let_def)

lemma request_send_cases:
  assumes "request_send cx env ca g st = (r, st')"
  obtains (waiting) t q where "r = None" "st' = st\<lparr>xst := t, req_tx := q\<rparr>"
    | (failed) e t q where "r = Some (Err e)" "st' = request_leave False ca (st\<lparr>xst := t, req_tx := q\<rparr>)"
    | (sent) t q where "r = Some (Ok ())" "st' = st\<lparr>xst := t, req_tx := q\<rparr>"
  using assms
  by (auto simp: request_send_def split: prod.splits option.splits sum.splits)

lemma request_send_open:
  assumes "request_send cx env ca g st = (Some (Ok ()), st')" and "env_matches st env"
  shows "rx_open st"
proof (rule ccontr)
  assume "\<not> rx_open st"
  from closed_send [OF assms(2) this, where cx = cx and b = False and aw = False and msg = g and t = "xst st"
      and q = "req_tx st" and ctl = "Some \<lparr>mc_deadline = ca_deadline ca, mc_response_tx = ca_mb ca\<rparr>"]
  show False using assms(1) by (auto simp: request_send_def transform_send_with_control_def)
qed

lemma cl_inv_phase:
  assumes inv: "cl_inv s" and call: "calls s mb = Some (ca, Starting g)"
    and ph: "ph = Starting g \<or> ph = Waiting" "ph = Waiting \<Longrightarrow> \<not> down s"
    and st: "streams st = streams (cl s)" "rx_alive st = rx_alive (cl s)" "next_mb st = next_mb (cl s)"
      "rx_open st = rx_open (cl s)" "mail st = mail (cl s)"
  shows "cl_inv (s\<lparr>cl := st, calls := (calls s)(mb \<mapsto> (ca, ph))\<rparr>)"
proof -
  let ?s = "s\<lparr>cl := st, calls := (calls s)(mb \<mapsto> (ca, ph))\<rparr>"
  have "good st"
    by (rule good_sub [OF cl_invD(1) [OF inv]]) (use st in simp_all)
  moreover have "ok_call st mb' ca' ph'" if "calls ?s mb' = Some (ca', ph')" for mb' ca' ph'
    using that ph(1) st cl_invD(2) [OF inv, of mb' ca'] call
    by (fastforce simp: ok_call_def split: if_splits)
  moreover have "uniq_ids ?s"
    by (rule uniq_ids_sub [OF cl_invD(3) [OF inv]]) (use call in \<open>auto simp: active_def split: if_splits\<close>)
  moreover have "down_ok ?s"
    using cl_invD(4) [OF inv] st ph by (auto simp: down_ok_def split: if_splits)
  ultimately show ?thesis by (simp add: cl_inv_def calls_ok_def)
qed

lemma cl_inv_same:
  assumes inv: "cl_inv s" and st: "streams st = streams (cl s)" "rx_alive st = rx_alive (cl s)"
      "next_mb st = next_mb (cl s)" "mail st = mail (cl s)" "rx_open st \<longrightarrow> rx_open (cl s)"
  shows "cl_inv (s\<lparr>cl := st\<rparr>)"
proof -
  have "good st"
    by (rule good_sub [OF cl_invD(1) [OF inv]]) (use st in simp_all)
  moreover have "calls_ok (s\<lparr>cl := st\<rparr>)"
    using cl_invD(2) [OF inv] st by (simp add: calls_ok_def ok_call_def)
  moreover have "uniq_ids (s\<lparr>cl := st\<rparr>)"
    by (rule uniq_ids_sub [OF cl_invD(3) [OF inv]]) (simp add: active_def)
  moreover have "down_ok (s\<lparr>cl := st\<rparr>)"
    using cl_invD(4) [OF inv] st by (auto simp: down_ok_def)
  ultimately show ?thesis by (simp add: cl_inv_def)
qed

lemma request_start_ok:
  assumes "request_start c now req st = (Ok (g, ca), st')"
  shows "ca_sid ca = next_stream_id st" "ca_mb ca = next_mb st"
    "streams st' = (streams st)(ca_sid ca \<mapsto> next_mb st)" "mail st' = (mail st)(next_mb st := [])"
    "rx_alive st' = (rx_alive st)(next_mb st := True)" "next_mb st' = next_mb st + 1"
    "rx_open st' = rx_open st"
  using assms
  by (auto simp: request_start_def alloc_stream_id_def register_stream_def split: sum.splits)

lemma request_start_err:
  assumes "request_start c now req st = (Err e, st')"
  shows "st' = st\<lparr>next_stream_id := next_stream_id st + 2\<rparr>"
  using assms
  by (auto simp: request_start_def alloc_stream_id_def register_stream_def split: sum.splits)

lemma new_stream_ok:
  assumes "new_stream c cx env req sc ss st = (Some (Ok (si, ca)), st')"
  shows "ca_sid ca = next_stream_id st" "ca_mb ca = next_mb st"
    "streams st' = (streams st)(ca_sid ca \<mapsto> next_mb st)" "mail st' = (mail st)(next_mb st := [])"
    "rx_alive st' = (rx_alive st)(next_mb st := True)" "next_mb st' = next_mb st + 1"
    "rx_open st' = rx_open st"
  using assms
  by (auto simp: new_stream_def alloc_stream_id_def register_stream_def Let_def
      split: sum.splits prod.splits option.splits)

lemma cl_inv_step:
  assumes "drains order" and "cl_step c cx dbg order s s'" and inv: "cl_inv s"
  shows "cl_inv s'"
  using assms(2)
proof cases
  case (st_start now req g ca cl')
  note r = request_start_ok [OF st_start(2)]
  show ?thesis
    unfolding st_start(1)
    by (rule cl_inv_register [OF inv st_start(3) refl r(2) disjI1 [OF refl] r(3-7)])
next
  case (st_start_err now req e cl')
  show ?thesis
    unfolding st_start_err(1)
    by (rule cl_inv_same [OF inv]) (simp_all add: request_start_err [OF st_start_err(2)])
next
  case (st_send mb ca g env r cl')
  from st_send(4) show ?thesis
  proof (cases rule: request_send_cases)
    case (waiting t q)
    show ?thesis
      unfolding st_send(1) by (rule cl_inv_phase [OF inv st_send(2)]) (simp_all add: waiting)
  next
    case (failed e t q)
    show ?thesis
      unfolding st_send(1) failed
      using cl_inv_leave [OF inv st_send(2), of "(cl s)\<lparr>xst := t, req_tx := q\<rparr>"] by simp
  next
    case (sent t q)
    have "rx_open (cl s)" using request_send_open st_send(3,4) sent(1) by blast
    then have "\<not> down s" using cl_invD(4) [OF inv] by (simp add: down_ok_def)
    then show ?thesis
      unfolding st_send(1) by (intro cl_inv_phase [OF inv st_send(2)]) (simp_all add: sent)
  qed
next
  case (st_open env req sc ss si ca cl')
  note r = new_stream_ok [OF st_open(3)]
  show ?thesis
    unfolding st_open(1)
    by (rule cl_inv_register [OF inv st_open(4) refl r(2) disjI2 [OF refl] r(3-7)])
next
  case (st_msg msg)
  then show ?thesis using cl_inv_reader [OF inv reader_effect_msg] by simp
next
  case (st_err mh e)
  then show ?thesis using cl_inv_reader [OF inv reader_effect_err] by simp
next
  case st_writer_end
  then show ?thesis using cl_inv_same [OF inv, of "(cl s)\<lparr>rx_open := False\<rparr>"] by simp
next
  case (st_disconnect e)
  have fin: "finite (dom (streams (cl s)))" using cl_invD(1) [OF inv] by (simp add: good_def)
  note d = disconnect_effect [OF assms(1) fin, where e = e]
  have i: "cl_inv (s\<lparr>cl := cl_disconnect order e (cl s)\<rparr>)"
    by (rule cl_inv_reader [OF inv d(1) st_disconnect(2)])
  have "mail (cl_disconnect order e (cl s)) mb \<noteq> []" if "calls s mb = Some (ca, Waiting)" for mb ca
    using cl_invD(2) [OF i, of mb ca Waiting] that d(2) by (simp add: ok_call_def)
  moreover have "\<not> rx_open (cl_disconnect order e (cl s))"
    using d(1) st_disconnect(3) by (simp add: reader_effect_def)
  ultimately show ?thesis
    using i unfolding st_disconnect(1) cl_inv_def
    by (auto simp: calls_ok_def uniq_ids_def down_ok_def active_def)
next
  case (st_finish mb ca r rs)
  show ?thesis
    unfolding st_finish(1)
    by (rule cl_inv_leave [OF inv st_finish(2)]) simp_all
next
  case (st_timeout mb ca)
  show ?thesis
    unfolding st_timeout(1) by (rule cl_inv_leave [OF inv st_timeout(2)]) simp_all
next
  case (st_drop mb ca)
  show ?thesis
    unfolding st_drop(1) by (rule cl_inv_leave [OF inv st_drop(2)]) simp_all
qed

lemma cl_reach_inv:
  assumes "drains order" and "cl_reach c cx dbg order t s"
  shows "cl_inv s"
  using assms(2)
proof (induction rule: cl_reach.induct)
  case cl_init
  show ?case
    by (simp add: cl_inv_def good_def client_new_def calls_ok_def uniq_ids_def down_ok_def active_def)
next
  case (cl_next s s')
  then show ?case using cl_inv_step [OF assms(1)] by blast
qed

subsection \<open>An iteration order, and the reader as a delegate\<close>

definition word_order :: "(u32 \<rightharpoonup> nat) \<Rightarrow> (u32 \<times> nat) list" where
  "word_order m = map (\<lambda>k. (k, the (m k))) (filter (\<lambda>k. m k \<noteq> None) (map of_nat [0..<2 ^ 32]))"

lemma all_u32: "set (map of_nat [0..<2 ^ 32]) = (UNIV :: u32 set)"
proof -
  have "k \<in> of_nat ` {0..<2 ^ 32}" for k :: u32
    using unsigned_less [of k, where ?'a = nat] by (intro image_eqI [of _ _ "unat k"]) simp_all
  then show ?thesis by auto
qed

lemma distinct_u32: "distinct (map (of_nat :: nat \<Rightarrow> u32) [0..<2 ^ 32])"
  unfolding distinct_map
proof
  show "inj_on (of_nat :: nat \<Rightarrow> u32) (set [0..<2 ^ 32])"
    by (rule inj_on_inverseI [of _ unat]) simp
qed simp

lemma drains_word_order: "drains word_order"
  unfolding drains_def
proof (intro allI impI)
  fix m :: "u32 \<rightharpoonup> nat"
  let ?ks = "filter (\<lambda>k. m k \<noteq> None) (map of_nat [0..<2 ^ 32])"
  have "set ?ks = dom m" using all_u32 by (auto simp del: set_map)
  then have "map_of (word_order m) = m"
    unfolding word_order_def map_of_map_restrict
    by (auto simp: restrict_map_def fun_eq_iff dom_def)
  moreover have "distinct (map fst (word_order m))"
    using distinct_u32 by (simp add: word_order_def comp_def)
  ultimately show "enumerates (word_order m) m" by (simp add: enumerates_def)
qed

interpretation cl_delegate: delegate_laws "client_delegate cx dbg word_order" good
  for cx :: "('d, 't) conn_ctx" and dbg
proof
  have eff: "good st \<Longrightarrow> reader_effect st st' \<Longrightarrow> good st'" for st st' :: "'t client"
    by (rule good_sub) (simp_all add: reader_effect_def)
  fix st :: "'t client" and e m h
  assume g: "good st"
  then have fin: "finite (dom (streams st))" by (simp add: good_def)
  show "good (dl_disconnect (client_delegate cx dbg word_order) e st)"
    using eff [OF g disconnect_effect(1) [OF drains_word_order fin]] by (simp add: client_delegate_def)
  show "good (dl_exit (client_delegate cx dbg word_order) st)"
    using g by (simp add: client_delegate_def)
  show "good (dl_handle_msg (client_delegate cx dbg word_order) m st)"
    using eff [OF g reader_effect_msg] by (simp add: client_delegate_def)
  show "good (dl_handle_err (client_delegate cx dbg word_order) h e st)"
    using eff [OF g reader_effect_err] by (simp add: client_delegate_def)
qed

text \<open>Frames and recoverable errors keep a pending call pending or answer it.\<close>

definition pending_or_answered :: "'t client \<Rightarrow> u32 \<Rightarrow> nat \<Rightarrow> bool" where
  "pending_or_answered st sid mb \<longleftrightarrow> rx_alive st mb \<and> (streams st sid = Some mb \<or> mail st mb \<noteq> [])"

lemma reader_effect_pending:
  "reader_effect st st' \<Longrightarrow> pending_or_answered st sid mb \<Longrightarrow> pending_or_answered st' sid mb"
  by (fastforce simp: reader_effect_def pending_or_answered_def)

definition nonfatal :: "run_event \<Rightarrow> bool" where
  "nonfatal ev \<longleftrightarrow> (case ev of ReadResult (Inr _) \<Rightarrow> True | ReadResult (Inl (ReturnError _ _)) \<Rightarrow> True | _ \<Rightarrow> False)"

lemma run_loop_nonfatal:
  assumes "\<forall>ev \<in> set evs. nonfatal ev" and "good st" and "pending_or_answered st sid mb"
  shows "\<exists>st'. run_loop (client_delegate cx dbg order) (evs @ rest) st
      = run_loop (client_delegate cx dbg order) rest st'
    \<and> good st' \<and> pending_or_answered st' sid mb"
  using assms
proof (induction evs arbitrary: st)
  case Nil
  then show ?case by auto
next
  case (Cons ev evs)
  let ?dl = "client_delegate cx dbg order"
  obtain st1 where st1: "run_loop ?dl (ev # evs @ rest) st = run_loop ?dl (evs @ rest) st1"
      "good st1" "reader_effect st st1"
  proof (cases ev)
    case (ReadResult x)
    show ?thesis
    proof (cases x)
      case (Inl ge)
      with Cons.prems(1) ReadResult obtain h e where ge: "ge = ReturnError h e"
        by (auto simp: nonfatal_def split: gen_message_error.splits)
      show ?thesis
        by (rule that [of "dl_handle_err ?dl h e st"])
          (use ReadResult Inl ge Cons.prems(2) cl_delegate.inv_err reader_effect_err in
            \<open>simp_all add: client_delegate_def\<close>)
    next
      case (Inr m)
      show ?thesis
        by (rule that [of "dl_handle_msg ?dl m st"])
          (use ReadResult Inr Cons.prems(2) cl_delegate.inv_msg reader_effect_msg in
            \<open>simp_all add: client_delegate_def\<close>)
    qed
  qed (use Cons.prems(1) in \<open>simp_all add: nonfatal_def\<close>)
  have "pending_or_answered st1 sid mb"
    by (rule reader_effect_pending [OF st1(3) Cons.prems(3)])
  with Cons.IH [OF _ st1(2)] Cons.prems(1) st1(1) show ?case by simp
qed

text \<open>
  C20: Losing the connection fails every pending call. Whatever frames and recoverable read errors
  the reader has handled before, when the read fails or the writer task fails the run of the
  connection ends, no registration is left, and the mailbox of every call that was pending at the
  start holds an answer or an error, in whatever order the map is drained, so no call waits for ever.
\<close>

theorem connection_loss_fails_pending:
  assumes "drains order" and "\<forall>ev \<in> set evs. nonfatal ev" and "good st" and "streams st sid = Some mb" and "rx_alive st mb"
    and "last_ev = ReadResult (Err (InternalError e)) \<or> last_ev = WriterReturned (Err e)
      \<or> last_ev = WriterPanicked p"
  shows "\<exists>st'. conn_run (client_delegate cx dbg order) (evs @ [last_ev]) st = (st', True)
    \<and> streams st' = Map.empty \<and> mail st' mb \<noteq> []"
proof -
  let ?dl = "client_delegate cx dbg order"
  have "pending_or_answered st sid mb" using assms(4,5) by (simp add: pending_or_answered_def)
  then obtain st1 where st1: "run_loop ?dl (evs @ [last_ev]) st = run_loop ?dl [last_ev] st1"
      "good st1" "pending_or_answered st1 sid mb"
    using run_loop_nonfatal [OF assms(2,3)] by blast
  obtain e' where l: "run_loop ?dl [last_ev] st1 = (cl_disconnect order e' st1, True)"
    using assms(6) by (auto simp: client_delegate_def)
  have fin: "finite (dom (streams st1))" using st1(2) by (simp add: good_def)
  note d = disconnect_effect [OF assms(1) fin, where e = e']
  have "pending_or_answered (cl_disconnect order e' st1) sid mb"
    by (rule reader_effect_pending [OF d(1) st1(3)])
  then have "mail (cl_disconnect order e' st1) mb \<noteq> []"
    using d(2) by (simp add: pending_or_answered_def)
  with st1(1) l d(2) show ?thesis
    by (simp add: conn_run_def client_delegate_def)
qed

theorem connection_loss_fails_pending_witness:
  "\<exists>st'. conn_run (client_delegate (conn_ctx_default :: (unit, unit) conn_ctx) dbg0 word_order)
      ([ReadResult (Ok (gen_new_response 3 [7]))] @ [WriterReturned (Err Eof)]) two_calls = (st', True)
    \<and> streams st' = Map.empty \<and> mail st' 0 \<noteq> []"
proof (rule connection_loss_fails_pending [where sid = 1])
  show "drains word_order" by (rule drains_word_order)
  show "good two_calls"
    by (auto simp: two_calls_def good_def register_stream_def client_new_def split: if_splits)
  show "streams two_calls 1 = Some 0" "rx_alive two_calls 0"
    by (simp_all add: two_calls_def register_stream_def client_new_def)
  show "\<forall>ev \<in> set [ReadResult (Ok (gen_new_response 3 [7]))]. nonfatal ev"
    by (simp add: nonfatal_def)
qed simp

text \<open>
  C4: No request hangs across a teardown, in any interleaving. In every state that calls, reader,
  writer and disconnect can reach together, with ids not reused while in use: no two calls share a
  mailbox or an id, a call that is being sent or waits is still registered or already has an answer,
  and after the disconnect every waiting call has an answer in its mailbox, including calls that
  registered while the connection was going down.
\<close>

theorem no_request_hangs:
  assumes "drains order" and "cl_reach c cx dbg order t s"
  shows "(\<forall>mb ca. calls s mb = Some (ca, Waiting) \<longrightarrow>
       rx_alive (cl s) mb \<and> (streams (cl s) (ca_sid ca) = Some mb \<or> mail (cl s) mb \<noteq> [])
       \<and> (down s \<longrightarrow> mail (cl s) mb \<noteq> []))
    \<and> (\<forall>mb mb' ca ca'. active s mb ca \<and> active s mb' ca' \<and> ca_sid ca = ca_sid ca' \<longrightarrow> mb = mb')
    \<and> (\<forall>a b mb. streams (cl s) a = Some mb \<and> streams (cl s) b = Some mb \<longrightarrow> a = b)"
proof -
  note inv = cl_reach_inv [OF assms]
  show ?thesis
    using cl_invD(1,3,4) [OF inv] cl_invD(2) [OF inv]
    unfolding good_def uniq_ids_def down_ok_def ok_call_def by blast
qed
text \<open>A request that is waiting when the connection goes down.\<close>

definition sample_call :: call where
  "sample_call = \<lparr>ca_sid = 1, ca_mb = 0, ca_deadline = None\<rparr>"

definition sample_req :: gen_message where
  "sample_req = \<lparr>header = header_new_request 1 0, payload = []\<rparr>"

lemma sample_start:
  "fst (request_start request_codec 0 request_default (client_new ())) = Ok (sample_req, sample_call)"
  by (simp add: request_start_def alloc_stream_id_def client_new_def encode_request_def
      message_new_request_def request_codec_def pb_codec_def request_fields_def request_default_def
      len_field_def int_field_def str_bytes_def write_fields_def gen_try_from_def register_stream_def
      sample_req_def sample_call_def request_deadline_def wire_simps)

lemma sample_send:
  "fst (request_send (conn_ctx_default :: (unit, unit) conn_ctx) free_env sample_call sample_req st)
     = Some (Ok ())"
  by (simp add: request_send_def transform_send_with_control_def transform_send_inner_def
      conn_ctx_default_def free_env_def reserve_message_slot_def acquire_lock_def outbound_def
      sample_req_def)

theorem no_request_hangs_witness:
  "\<exists>s. cl_reach request_codec (conn_ctx_default :: (unit, unit) conn_ctx) dbg0 word_order () s
     \<and> down s \<and> calls s 0 = Some (sample_call, Waiting) \<and> mail (cl s) 0 \<noteq> []"
proof -
  let ?cx = "conn_ctx_default :: (unit, unit) conn_ctx"
  let ?step = "cl_step request_codec ?cx dbg0 word_order"
  let ?s0 = "\<lparr>cl = client_new (), calls = Map.empty, down = False\<rparr>"
  let ?c1 = "snd (request_start request_codec 0 request_default (client_new ()))"
  let ?s1 = "?s0\<lparr>cl := ?c1, calls := (calls ?s0)(0 \<mapsto> (sample_call, Starting sample_req))\<rparr>"
  let ?c2 = "snd (request_send ?cx free_env sample_call sample_req ?c1)"
  let ?s2 = "?s1\<lparr>cl := ?c2, calls := (calls ?s1)(0 \<mapsto> (sample_call, Waiting))\<rparr>"
  let ?s3 = "?s2\<lparr>cl := (cl ?s2)\<lparr>rx_open := False\<rparr>\<rparr>"
  let ?s4 = "?s3\<lparr>cl := cl_disconnect word_order Eof (cl ?s3), down := True\<rparr>"
  have start: "request_start request_codec 0 request_default (client_new ()) = (Ok (sample_req, sample_call), ?c1)"
    using sample_start by (simp add: prod_eq_iff)
  have "rx_open ?c1"
    using request_start_ok(7) [OF start] by (simp add: client_new_def)
  then have env: "env_matches ?c1 free_env" by (simp add: env_matches_def)
  have 1: "?step ?s0 ?s1"
    using st_start [of request_codec 0 request_default ?s0 sample_req sample_call ?c1 ?cx dbg0 word_order]
      sample_start
    by (simp add: prod_eq_iff fresh_id_def active_def client_new_def) (simp add: sample_call_def)
  have 2: "?step ?s1 ?s2"
    using st_send [of ?s1 0 sample_call sample_req free_env ?cx "Some (Ok ())" ?c2 request_codec dbg0 word_order]
      sample_send env
    by (simp add: prod_eq_iff)
  have 3: "?step ?s2 ?s3" by (rule st_writer_end)
  have 4: "?step ?s3 ?s4" by (rule st_disconnect) simp_all
  have r: "cl_reach request_codec ?cx dbg0 word_order () ?s4"
    by (rule cl_next [OF cl_next [OF cl_next [OF cl_next [OF cl_init 1] 2] 3] 4])
  have w: "calls ?s4 0 = Some (sample_call, Waiting)" "down ?s4" by simp_all
  with r no_request_hangs [OF drains_word_order r] show ?thesis by blast
qed

text \<open>
  A unary call answered by a DATA frame that does not close the stream leaves its registration
  behind: the reader keeps the entry for such a frame, and \<open>request\<close> disarms its guard as soon as
  anything arrives, so the entry of the ended call stays until another frame for that id finds its
  receiver gone.
\<close>

theorem unary_data_leaves_registration:
  assumes "streams st (ca_sid ca) = Some (ca_mb ca)" and "rx_alive st (ca_mb ca)"
    and "mail st (ca_mb ca) = []" and "length p \<le> MESSAGE_LENGTH_MAX" and "payload_transform cx = None"
    and "st1 = cl_handle_msg cx dbg (gen_new_data (ca_sid ca) p) st"
  shows "\<exists>r st2. request_finish rc (At 0 (Some (hd (mail st1 (ca_mb ca))))) ca st1 = (Some r, st2)
    \<and> streams st2 (ca_sid ca) = Some (ca_mb ca) \<and> \<not> rx_alive st2 (ca_mb ca)"
proof -
  let ?m = "gen_new_data (ca_sid ca) p"
  have i: "inbound cx (xst st) ?m False = (Ok (), xst st, ?m)"
    using assms(4,5) by (simp add: inbound_def wire_simps)
  have m: "routable (header ?m)" "\<not> ends_stream (header ?m)" "stream_id (header ?m) = ca_sid ca"
    by (simp_all add: routable_def ends_stream_def wire_simps message_types no_flags_zero)
  have st1: "mail st1 (ca_mb ca) = [Ok ?m]" "streams st1 (ca_sid ca) = Some (ca_mb ca)"
    using cl_handle_msg_ok [OF i m(1), of dbg] assms m
    by (simp_all add: cl_defs Let_def)
  have d: "\<exists>r. request_result rc (Done (Some (Ok ?m))) = (Some r, True)"
    by (simp add: request_result_def split: sum.split option.split)
  have a: "await_deadline (ca_deadline ca) (At 0 x) = Done x" for x :: "(error + gen_message) option"
    by (cases "ca_deadline ca") simp_all
  from d obtain r where "request_finish rc (At 0 (Some (Ok ?m))) ca st1 = (Some r, request_leave True ca st1)"
    by (auto simp: request_finish_def a)
  with st1 show ?thesis by (simp add: frame_rules)
qed

theorem unary_data_leaves_registration_witness:
  "\<exists>r st2. request_finish response_codec (At 0 (Some (hd (mail
       (cl_handle_msg (conn_ctx_default :: (unit, unit) conn_ctx) dbg0 (gen_new_data 1 []) two_calls) 0))))
     sample_call (cl_handle_msg (conn_ctx_default :: (unit, unit) conn_ctx) dbg0 (gen_new_data 1 []) two_calls)
     = (Some r, st2) \<and> streams st2 1 = Some 0 \<and> \<not> rx_alive st2 0"
proof -
  have "streams two_calls (ca_sid sample_call) = Some (ca_mb sample_call)"
    "rx_alive two_calls (ca_mb sample_call)" "mail two_calls (ca_mb sample_call) = []"
    "length ([] :: bytes) \<le> MESSAGE_LENGTH_MAX"
    "payload_transform (conn_ctx_default :: (unit, unit) conn_ctx) = None"
    by (simp_all add: two_calls_def register_stream_def client_new_def sample_call_def conn_ctx_default_def)
  from unary_data_leaves_registration [OF this refl, of response_codec dbg0]
  show ?thesis by (simp add: sample_call_def)
qed

end
