(* ===== verification/Metadata.thy ===== *)
theory Metadata
  imports Wire
begin

text \<open>
  Call contexts and metadata, \<open>src/src/context.rs\<close>. The metadata \<open>HashMap\<close> is a map from keys to
  value lists. Where the code iterates over the map the order is unspecified; the definition takes
  an enumeration of the map as an association list, and the properties hold for every enumeration.
  \<open>str::to_lowercase\<close> folds by the Unicode tables, which are not part of the sources: it is the
  argument \<open>lower\<close>.
\<close>

type_synonym metadata_map = "string \<rightharpoonup> string list"

record ctx =
  ctx_metadata :: metadata_map
  ctx_timeout_nano :: i64

definition ctx_default :: ctx where
  "ctx_default = \<lparr>ctx_metadata = Map.empty, ctx_timeout_nano = 0\<rparr>"

definition with_timeout :: "i64 \<Rightarrow> ctx" where
  "with_timeout i = ctx_default\<lparr>ctx_timeout_nano := i\<rparr>"

text \<open>A \<open>Duration\<close> is its number of nanoseconds; \<open>as i64\<close> keeps the low 64 bits.\<close>

definition with_duration :: "nat \<Rightarrow> ctx" where
  "with_duration nanos = with_timeout (of_nat nanos)"

definition with_metadata :: "metadata_map \<Rightarrow> ctx" where
  "with_metadata md = ctx_default\<lparr>ctx_metadata := md\<rparr>"

definition ctx_add :: "(string \<Rightarrow> string) \<Rightarrow> string \<Rightarrow> string \<Rightarrow> ctx \<Rightarrow> ctx" where
  "ctx_add lower k v c =
     (case ctx_metadata c k of
        Some vl \<Rightarrow> c\<lparr>ctx_metadata := (ctx_metadata c)(k \<mapsto> vl @ [v])\<rparr>
      | None \<Rightarrow> c\<lparr>ctx_metadata := (ctx_metadata c)(lower k \<mapsto> [v])\<rparr>)"

definition ctx_set :: "(string \<Rightarrow> string) \<Rightarrow> string \<Rightarrow> string list \<Rightarrow> ctx \<Rightarrow> ctx" where
  "ctx_set lower k vs c =
     (if vs = [] then c\<lparr>ctx_metadata := (ctx_metadata c)(k := None)\<rparr>
      else c\<lparr>ctx_metadata := (ctx_metadata c)(lower k \<mapsto> vs)\<rparr>)"

subsection \<open>Conversion to and from protobuf entries\<close>

definition from_pb_step :: "metadata_map \<Rightarrow> key_value \<Rightarrow> metadata_map" where
  "from_pb_step meta kv =
     (case meta (key kv) of
        Some vl \<Rightarrow> meta(key kv \<mapsto> vl @ [kv_value kv])
      | None \<Rightarrow> meta(key kv \<mapsto> [kv_value kv]))"

definition from_pb :: "key_value list \<Rightarrow> metadata_map" where
  "from_pb kvs = foldl from_pb_step Map.empty kvs"

text \<open>The inner loop of \<open>to_pb\<close>: the key is cloned, and moved out (leaving \<open>""\<close>) at the last value.\<close>

fun to_pb_values :: "string \<Rightarrow> string list \<Rightarrow> key_value list" where
  "to_pb_values k [] = []"
| "to_pb_values k (v # vs) =
     (if vs \<noteq> [] then \<lparr>key = k, kv_value = v\<rparr> # to_pb_values k vs
      else \<lparr>key = k, kv_value = v\<rparr> # to_pb_values [] vs)"

definition to_pb :: "(string \<times> string list) list \<Rightarrow> key_value list" where
  "to_pb kvs = concat (map (\<lambda>(k, vl). to_pb_values k vl) kvs)"

subsection \<open>Correctness of the conversions\<close>

definition values_of :: "string \<Rightarrow> key_value list \<Rightarrow> string list" where
  "values_of k kvs = map kv_value (filter (\<lambda>kv. key kv = k) kvs)"

lemma values_of_simps [simp]:
  "values_of k [] = []"
  "values_of k (kv # kvs) = (if key kv = k then kv_value kv # values_of k kvs else values_of k kvs)"
  "values_of k (xs @ ys) = values_of k xs @ values_of k ys"
  by (simp_all add: values_of_def)

text \<open>Grouping by key, keeping the order of the values of each key.\<close>

definition grouped :: "key_value list \<Rightarrow> metadata_map" where
  "grouped kvs k = (if values_of k kvs = [] then None else Some (values_of k kvs))"

lemma from_pb_step_grouped: "from_pb_step (grouped kvs) kv = grouped (kvs @ [kv])"
  by (rule ext) (auto simp: from_pb_step_def grouped_def)

lemma foldl_from_pb: "foldl from_pb_step (grouped xs) ys = grouped (xs @ ys)"
  by (induction ys arbitrary: xs) (simp_all add: from_pb_step_grouped)

lemma from_pb_grouped: "from_pb kvs = grouped kvs"
proof -
  have "grouped [] = Map.empty" by (rule ext) (simp add: grouped_def)
  with foldl_from_pb [of "[]" kvs] show ?thesis by (simp add: from_pb_def)
qed

lemma to_pb_values_eq: "to_pb_values k vs = map (\<lambda>v. \<lparr>key = k, kv_value = v\<rparr>) vs"
  by (induction vs) auto

lemma values_of_to_pb_values: "values_of k (to_pb_values k' vs) = (if k = k' then vs else [])"
  by (induction vs) (auto simp: to_pb_values_eq)

lemma values_of_to_pb_notin: "k \<notin> fst ` set kvs \<Longrightarrow> values_of k (to_pb kvs) = []"
  by (induction kvs) (auto simp: to_pb_def values_of_to_pb_values)

lemma values_of_to_pb:
  "distinct (map fst kvs) \<Longrightarrow>
     values_of k (to_pb kvs) = (case map_of kvs k of None \<Rightarrow> [] | Some vs \<Rightarrow> vs)"
proof (induction kvs)
  case Nil
  then show ?case by (simp add: to_pb_def)
next
  case (Cons kv kvs)
  obtain k' vs where kv: "kv = (k', vs)" by force
  have "to_pb (kv # kvs) = to_pb_values k' vs @ to_pb kvs"
    by (simp add: to_pb_def kv)
  with Cons kv show ?case
    by (auto simp: values_of_to_pb_values values_of_to_pb_notin)
qed

subsection \<open>Properties\<close>

text \<open>
  Metadata survives the request envelope: whatever order the sender iterates its map in, the
  receiver's \<open>from_pb\<close> of the sender's \<open>to_pb\<close> is the sender's map, with the values of each key in
  their order; only keys with an empty value list are lost.
\<close>

theorem metadata_roundtrip:
  assumes "enumerates kvs md"
  shows "from_pb (to_pb kvs) = (\<lambda>k. case md k of Some [] \<Rightarrow> None | r \<Rightarrow> r)"
proof
  fix k
  from assms have "distinct (map fst kvs)" "map_of kvs = md"
    by (simp_all add: enumerates_def)
  then show "from_pb (to_pb kvs) k = (case md k of Some [] \<Rightarrow> None | r \<Rightarrow> r)"
    by (auto simp: from_pb_grouped grouped_def values_of_to_pb split: option.splits list.splits)
qed

theorem metadata_roundtrip_witness:
  "enumerates [(''a'', [''1'', ''2'']), (''b'', [])] [''a'' \<mapsto> [''1'', ''2''], ''b'' \<mapsto> []]
   \<and> from_pb (to_pb [(''a'', [''1'', ''2'']), (''b'', [])]) ''a'' = Some [''1'', ''2'']
   \<and> from_pb (to_pb [(''a'', [''1'', ''2'']), (''b'', [])]) ''b'' = None"
proof -
  have e: "enumerates [(''a'', [''1'', ''2'']), (''b'', [])] [''a'' \<mapsto> [''1'', ''2''], ''b'' \<mapsto> []]"
    by (auto simp: enumerates_def)
  show ?thesis
    using e unfolding metadata_roundtrip [OF e] by simp
qed

text \<open>
  C36: The timeout survives \<open>with_duration\<close> exactly for durations below \<open>2 ^ 63\<close> nanoseconds; for
  every duration only the value modulo \<open>2 ^ 64\<close> is kept, so a duration that is a multiple of
  \<open>2 ^ 64\<close> nanoseconds becomes the zero timeout, which means no timeout at all.
\<close>

theorem with_duration_bounds:
  "(sint (ctx_timeout_nano (with_duration n)) = int n \<longleftrightarrow> n < 2 ^ 63)
   \<and> uint (ctx_timeout_nano (with_duration n)) = int n mod 2 ^ 64
   \<and> (ctx_timeout_nano (with_duration n) = 0 \<longleftrightarrow> 2 ^ 64 dvd n)"
proof -
  have w: "ctx_timeout_nano (with_duration n) = of_nat n"
    by (simp add: with_duration_def with_timeout_def)
  have "sint (of_nat n :: i64) = int n \<longleftrightarrow> n < 2 ^ 63"
  proof
    assume "sint (of_nat n :: i64) = int n"
    moreover have "sint (of_nat n :: i64) < 2 ^ 63"
      using sint_lt [of "of_nat n :: i64"] by simp
    ultimately have "int n < int (2 ^ 63)" by simp
    then show "n < 2 ^ 63" by (simp only: of_nat_less_iff)
  next
    assume "n < 2 ^ 63"
    then have "int n < 2 ^ 63" by simp
    then show "sint (of_nat n :: i64) = int n"
      by (simp add: signed_of_nat signed_take_bit_int_eq_self)
  qed
  moreover have "uint (of_nat n :: i64) = int n mod 2 ^ 64"
    by (simp add: uint_word_of_int unsigned_of_nat take_bit_eq_mod zmod_int)
  moreover have "(of_nat n :: i64) = 0 \<longleftrightarrow> 2 ^ 64 dvd n"
    by (simp add: word_of_nat_eq_0_iff)
  ultimately show ?thesis by (simp only: w)
qed

text \<open>
  For a key that lower-casing leaves alone, \<open>add\<close> appends to the key's values and touches no
  other key, and \<open>set\<close> replaces them, an empty list removing the key. For a key with capitals that
  is not stored verbatim \<open>add\<close> does not append: it replaces what is stored under the folded key.
\<close>

theorem ctx_add_set:
  assumes "lower k = k"
  shows "ctx_metadata (ctx_add lower k v c)
       = (ctx_metadata c)(k \<mapsto> (case ctx_metadata c k of None \<Rightarrow> [] | Some vl \<Rightarrow> vl) @ [v])
     \<and> ctx_metadata (ctx_set lower k vs c)
       = (ctx_metadata c)(k := (if vs = [] then None else Some vs))
     \<and> (\<forall>K. ctx_metadata c K = None \<and> lower K = k \<longrightarrow>
          ctx_metadata (ctx_add lower K v c) k = Some [v])"
  using assms by (auto simp: ctx_add_def ctx_set_def split: option.splits)

text \<open>ASCII case folding, for evaluation on examples.\<close>

definition ascii_lower :: "string \<Rightarrow> string" where
  "ascii_lower = to_lowercase"

theorem ctx_add_set_witness:
  "ctx_metadata (ctx_add ascii_lower ''ab'' ''y'' (with_metadata [''ab'' \<mapsto> [''x'']])) ''ab''
     = Some [''x'', ''y'']
   \<and> ctx_metadata (ctx_add ascii_lower ''Ab'' ''y'' (with_metadata [''ab'' \<mapsto> [''x'']])) ''ab''
     = Some [''y'']"
proof -
  have l: "ascii_lower ''ab'' = ''ab''" "ascii_lower ''Ab'' = ''ab''"
    by code_simp+
  have "ctx_metadata (with_metadata [''ab'' \<mapsto> [''x'']]) ''Ab'' = None"
    by (simp add: with_metadata_def)
  with ctx_add_set [where lower = ascii_lower and k = "''ab''" and v = "''y''"
      and c = "with_metadata [''ab'' \<mapsto> [''x'']]", OF l(1)] l(2)
  show ?thesis by (simp add: with_metadata_def)
qed

end
