(* ===== verification/Shutdown.thy ===== *)
theory Shutdown
  imports Security
begin

text \<open>
  Cooperative shutdown, \<open>src/src/asynchronous/shutdown.rs\<close>: the shared flag and waiter counter with
  the atomic operations on them, and the two waiting loops (\<open>Waiter::wait_shutdown\<close> and
  \<open>Notifier::wait\<close>) as a step relation in which every atomic access and every \<open>notify_waiters\<close> is a
  step of its own, so that all interleavings of the tasks are covered (for sequentially consistent
  accesses). Tokio's \<open>Notify::notify_waiters\<close> wakes every \<open>notified()\<close> future created before it.
\<close>

subsection \<open>Atomic operations\<close>

record shared =
  sh_shutdown :: bool
  sh_waiters :: nat

definition shared_with_timeout :: shared where
  "shared_with_timeout = \<lparr>sh_shutdown = False, sh_waiters = 1\<rparr>"

definition is_shutdown :: "shared \<Rightarrow> bool" where
  "is_shutdown sh = sh_shutdown sh"

text \<open>\<open>swap(true)\<close>: whether \<open>notify_waiters\<close> has to follow, and the new state.\<close>

definition notifier_shutdown :: "shared \<Rightarrow> bool \<times> shared" where
  "notifier_shutdown sh = (\<not> sh_shutdown sh, sh\<lparr>sh_shutdown := True\<rparr>)"

text \<open>\<open>from_shared\<close>, used by \<open>clone\<close> and \<open>subscribe\<close>.\<close>

definition waiter_from_shared :: "shared \<Rightarrow> shared" where
  "waiter_from_shared sh = sh\<lparr>sh_waiters := sh_waiters sh + 1\<rparr>"

text \<open>\<open>Waiter::drop\<close>: whether this was the last waiter, so that \<open>notify_waiters\<close> has to follow.\<close>

definition waiter_drop :: "shared \<Rightarrow> bool \<times> shared" where
  "waiter_drop sh = (sh_waiters sh = 1, sh\<lparr>sh_waiters := sh_waiters sh - 1\<rparr>)"

subsection \<open>The waiting loop\<close>

text \<open>
  The program points of both loops: \<open>Check\<close> is the \<open>while\<close> condition, \<open>Create\<close> the creation of the
  \<open>notified()\<close> future, \<open>Registered\<close> the second check, \<open>Sleeping\<close> the \<open>await\<close>; the Boolean says
  whether the future has been woken.
\<close>

datatype wpc = Check | Create | Registered bool | Sleeping bool | Returned

fun wait_step :: "bool \<Rightarrow> wpc \<Rightarrow> wpc" where
  "wait_step c Check = (if c then Returned else Create)"
| "wait_step c Create = Registered False"
| "wait_step c (Registered w) = (if c then Returned else Sleeping w)"
| "wait_step c (Sleeping w) = (if w then Check else Sleeping False)"
| "wait_step c Returned = Returned"

fun wake :: "wpc \<Rightarrow> wpc" where
  "wake (Registered w) = Registered True"
| "wake (Sleeping w) = Sleeping True"
| "wake pc = pc"

lemma wake_not_asleep [simp]: "wake pc \<noteq> Sleeping False"
  by (cases pc) auto

lemma wait_step_asleep: "wait_step c pc = Sleeping False \<Longrightarrow> \<not> c \<or> pc = Sleeping False"
  by (cases "(c, pc)" rule: wait_step.cases) (auto split: if_splits)

text \<open>\<open>wait_all_exit\<close>: the loop under the configured timeout.\<close>

definition wait_all_exit :: "nat option \<Rightarrow> unit wait \<Rightarrow> (unit + unit) option" where
  "wait_all_exit wait_time w =
     (case wait_time of
        Some tm \<Rightarrow> (case await_deadline (Some tm) w of Done _ \<Rightarrow> Some (Ok ()) | _ \<Rightarrow> Some (Err ()))
      | None \<Rightarrow> (case await_deadline None w of Done _ \<Rightarrow> Some (Ok ()) | _ \<Rightarrow> None))"

subsection \<open>Interleavings\<close>

text \<open>
  \<open>live\<close> counts the \<open>Waiter\<close> values in existence; \<open>pend_shutdown\<close> and \<open>pend_exit\<close> count the tasks
  that are between their atomic access and the \<open>notify_waiters\<close> that must follow it; \<open>w_task\<close> and
  \<open>e_task\<close> are the tasks in \<open>wait_shutdown\<close> and in \<open>Notifier::wait\<close>.
\<close>

record sys =
  sh :: shared
  live :: nat
  pend_shutdown :: nat
  pend_exit :: nat
  w_task :: "nat \<Rightarrow> wpc"
  e_task :: "nat \<Rightarrow> wpc"

inductive sd_step :: "sys \<Rightarrow> sys \<Rightarrow> bool" where
  sd_swap: "notifier_shutdown (sh s) = (notify, sh') \<Longrightarrow>
    sd_step s (s\<lparr>sh := sh', pend_shutdown := pend_shutdown s + (if notify then 1 else 0)\<rparr>)"
| sd_notify: "0 < pend_shutdown s \<Longrightarrow>
    sd_step s (s\<lparr>pend_shutdown := pend_shutdown s - 1, w_task := wake \<circ> w_task s\<rparr>)"
| sd_clone: "sd_step s (s\<lparr>sh := waiter_from_shared (sh s), live := live s + 1\<rparr>)"
| sd_drop: "0 < live s \<Longrightarrow> waiter_drop (sh s) = (notify, sh') \<Longrightarrow>
    sd_step s (s\<lparr>sh := sh', live := live s - 1, pend_exit := pend_exit s + (if notify then 1 else 0)\<rparr>)"
| sd_notify_exit: "0 < pend_exit s \<Longrightarrow>
    sd_step s (s\<lparr>pend_exit := pend_exit s - 1, e_task := wake \<circ> e_task s\<rparr>)"
| sd_wait: "sd_step s (s\<lparr>w_task := (w_task s)(i := wait_step (is_shutdown (sh s)) (w_task s i))\<rparr>)"
| sd_wait_exit: "sd_step s (s\<lparr>e_task := (e_task s)(i := wait_step (sh_waiters (sh s) = 0) (e_task s i))\<rparr>)"

definition sd_init :: sys where
  "sd_init = \<lparr>sh = shared_with_timeout, live = 1, pend_shutdown = 0, pend_exit = 0,
     w_task = (\<lambda>_. Check), e_task = (\<lambda>_. Check)\<rparr>"

inductive sd_reach :: "sys \<Rightarrow> bool" where
  sd_start: "sd_reach sd_init"
| sd_next: "sd_reach s \<Longrightarrow> sd_step s s' \<Longrightarrow> sd_reach s'"

definition sd_inv :: "sys \<Rightarrow> bool" where
  "sd_inv s \<longleftrightarrow> sh_waiters (sh s) = live s
     \<and> (sh_shutdown (sh s) \<longrightarrow> pend_shutdown s = 0 \<longrightarrow> (\<forall>i. w_task s i \<noteq> Sleeping False))
     \<and> (sh_waiters (sh s) = 0 \<longrightarrow> pend_exit s = 0 \<longrightarrow> (\<forall>i. e_task s i \<noteq> Sleeping False))"

lemmas sd_op_defs = notifier_shutdown_def waiter_from_shared_def waiter_drop_def is_shutdown_def

lemma sd_inv_step: "sd_step s s' \<Longrightarrow> sd_inv s \<Longrightarrow> sd_inv s'"
proof (induction rule: sd_step.induct)
  case (sd_swap s notify sh')
  then show ?case by (auto simp: sd_inv_def sd_op_defs)
next
  case (sd_drop s notify sh')
  then show ?case by (auto simp: sd_inv_def sd_op_defs)
next
  case (sd_wait s i)
  then show ?case using wait_step_asleep by (fastforce simp: sd_inv_def sd_op_defs)
next
  case (sd_wait_exit s i)
  then show ?case using wait_step_asleep by (fastforce simp: sd_inv_def sd_op_defs)
qed (auto simp: sd_inv_def sd_op_defs)

lemma sd_reach_inv: "sd_reach s \<Longrightarrow> sd_inv s"
proof (induction rule: sd_reach.induct)
  case sd_start
  then show ?case by (simp add: sd_inv_def sd_init_def shared_with_timeout_def)
qed (rule sd_inv_step)

lemma wait_step_returns: "pc \<noteq> Sleeping False \<Longrightarrow> (wait_step True ^^ 2) pc = Returned"
  by (cases pc) (auto simp: numeral_2_eq_2)

text \<open>
  C12: No wakeup is lost, in any interleaving. The counter always equals the number of live waiters;
  once shutdown is requested and its notification has been delivered, every task in
  \<open>wait_shutdown\<close> returns within two of its own steps; and once the last waiter is gone and its
  notification has been delivered, every task in \<open>wait_all_exit\<close>'s loop returns within two of its
  own steps.
\<close>

theorem shutdown_no_lost_wakeup:
  assumes "sd_reach s"
  shows "sh_waiters (sh s) = live s
    \<and> (sh_shutdown (sh s) \<and> pend_shutdown s = 0 \<longrightarrow>
         (wait_step (is_shutdown (sh s)) ^^ 2) (w_task s i) = Returned)
    \<and> (live s = 0 \<and> pend_exit s = 0 \<longrightarrow>
         (wait_step (sh_waiters (sh s) = 0) ^^ 2) (e_task s i) = Returned)"
  using sd_reach_inv [OF assms] wait_step_returns
  by (auto simp: sd_inv_def is_shutdown_def)

text \<open>
  A waiter goes to sleep, shutdown is requested, and the notification arrives.
\<close>

theorem shutdown_no_lost_wakeup_witness:
  "\<exists>s. sd_reach s \<and> w_task s 0 = Sleeping True \<and> sh_shutdown (sh s) \<and> pend_shutdown s = 0
     \<and> (wait_step (is_shutdown (sh s)) ^^ 2) (w_task s 0) = Returned"
proof -
  let ?s1 = "sd_init\<lparr>w_task := (w_task sd_init)(0 := Create)\<rparr>"
  let ?s2 = "sd_init\<lparr>w_task := (w_task sd_init)(0 := Registered False)\<rparr>"
  let ?s3 = "sd_init\<lparr>w_task := (w_task sd_init)(0 := Sleeping False)\<rparr>"
  let ?s4 = "?s3\<lparr>sh := (sh ?s3)\<lparr>sh_shutdown := True\<rparr>, pend_shutdown := 1\<rparr>"
  let ?s5 = "?s4\<lparr>pend_shutdown := 0, w_task := wake \<circ> w_task ?s4\<rparr>"
  have "sd_step sd_init ?s1" using sd_wait [of sd_init 0]
    by (simp add: sd_init_def shared_with_timeout_def is_shutdown_def)
  moreover have "sd_step ?s1 ?s2" using sd_wait [of ?s1 0] by simp
  moreover have "sd_step ?s2 ?s3" using sd_wait [of ?s2 0]
    by (simp add: sd_init_def shared_with_timeout_def is_shutdown_def)
  moreover have "sd_step ?s3 ?s4" using sd_swap [of ?s3]
    by (simp add: sd_init_def shared_with_timeout_def notifier_shutdown_def)
  moreover have "sd_step ?s4 ?s5" using sd_notify [of ?s4] by simp
  ultimately have r: "sd_reach ?s5" by (meson sd_reach.intros)
  have "w_task ?s5 0 = Sleeping True" "sh_shutdown (sh ?s5)" "pend_shutdown ?s5 = 0"
    by (simp_all add: sd_init_def)
  with r shutdown_no_lost_wakeup [OF r, of 0] show ?thesis by blast
qed

end
