(* ===== verification/AsyncServer.thy ===== *)
theory AsyncServer
  imports Connection Stream Metadata Shutdown
begin

text \<open>
  The asynchronous server, \<open>src/src/asynchronous/server.rs\<close> and \<open>utils.rs\<close>: the server's
  configuration and life cycle, and per connection the reader that authenticates frames in wire
  order, dispatches requests to methods and streams, routes stream data and builds responses.

  Handlers are application code: a method handler is a function from the request context and the
  request to what it returns and when (\<open>wait\<close>); a stream handler is given the stream, and its task
  ends at once with some outcome or later (\<open>None\<close>, then \<open>hc_stream_done\<close> is its end). Each handled frame
  makes at most one send, whose fate is the \<open>send_env\<close>.

  The reader spawns a task for every frame and waits until the task lets it go on. The task of a request does so
  once the stream, if it is one, is registered; it is modelled as one step together with the reading. The task of a \<open>DATA\<close> frame does so before it
  has looked anything up: it becomes a pending task of its own, and each of its steps is an event of the connection, in any order with
  those of the other tasks.
\<close>

subsection \<open>Contexts, services and handlers\<close>

record 'd ttrpc_context =
  tc_mh :: message_header
  tc_metadata :: metadata_map
  tc_timeout_nano :: i64
  tc_connection_data :: "string \<rightharpoonup> 'd"

type_synonym 'd method_handler = "'d ttrpc_context \<Rightarrow> request \<Rightarrow> (error + response) wait"
type_synonym task_outcome = "string + (error + response option)"
type_synonym 'd stream_handler = "'d ttrpc_context \<Rightarrow> stream_inner \<Rightarrow> task_outcome option"

record 'd service =
  methods :: "string \<rightharpoonup> 'd method_handler"
  svc_streams :: "string \<rightharpoonup> 'd stream_handler"

definition get_method :: "'d service \<Rightarrow> string \<Rightarrow> 'd method_handler option" where
  "get_method srv name = methods srv name"

definition get_stream :: "'d service \<Rightarrow> string \<Rightarrow> 'd stream_handler option" where
  "get_stream srv name = svc_streams srv name"

definition get_path :: "string \<Rightarrow> string \<Rightarrow> string" where
  "get_path srv meth = ''/'' @ srv @ ''/'' @ meth"

subsection \<open>The handler context of a connection\<close>

text \<open>
  The task of a \<open>DATA\<close> frame: about to look its stream up, or sending to the stream's channel. \<open>sv_mail\<close> is what has been put into a
  channel since it was made, \<open>sv_taken\<close> how many of these its receiver has taken.
\<close>

datatype data_task = Lookup gen_message | Delivering nat gen_message

fun task_msg :: "data_task \<Rightarrow> gen_message" where
  "task_msg (Lookup msg) = msg"
| "task_msg (Delivering mb msg) = msg"

record 't server_conn =
  sv_tx :: "sending_message list"
  sv_streams :: "u32 \<rightharpoonup> nat"
  sv_mail :: "nat \<Rightarrow> (error + gen_message) list"
  sv_taken :: "nat \<Rightarrow> nat"
  sv_tasks :: "data_task list"
  sv_rx_alive :: "nat \<Rightarrow> bool"
  sv_next_mb :: nat
  sv_xst :: 't
  handler_shutdown :: shared

definition server_conn_new :: "'t \<Rightarrow> 't server_conn" where
  "server_conn_new t = \<lparr>sv_tx = [], sv_streams = Map.empty, sv_mail = (\<lambda>_. []),
     sv_taken = (\<lambda>_. 0), sv_tasks = [], sv_rx_alive = (\<lambda>_. False), sv_next_mb = 0, sv_xst = t, handler_shutdown = shared_with_timeout\<rparr>"

text \<open>A send of the handler; \<open>None\<close> means that it is still waiting.\<close>

definition sv_send ::
  "('d, 't) conn_ctx \<Rightarrow> send_env \<Rightarrow> bool \<Rightarrow> gen_message \<Rightarrow> 't server_conn
    \<Rightarrow> (error + unit) option \<times> 't server_conn" where
  "sv_send cx env rpc_error msg st =
     (case transform_send cx env rpc_error False msg (sv_xst st) (sv_tx st) of
        (r, t', q') \<Rightarrow> (r, st\<lparr>sv_xst := t', sv_tx := q'\<rparr>))"

definition oversize_response :: "nat \<Rightarrow> nat \<Rightarrow> response" where
  "oversize_response len max_len =
     init_status (get_status INVALID_ARGUMENT
       (''response payload '' @ show_nat len @ '' bytes exceeds safe limit '' @ show_nat max_len
        @ '' bytes (after transform overhead)''))"

text \<open>The payload that \<open>respond\<close> sends: the response, or an error response if it is too large.\<close>

definition respond_payload ::
  "response codec \<Rightarrow> ('d, 't) conn_ctx \<Rightarrow> response \<Rightarrow> error + bytes" where
  "respond_payload rc cx resp =
     rbind (map_err (err_to_others ''Encode Response failed.'') (c_encode rc resp)) (\<lambda>p.
       let max_len = max_raw_payload_len cx
       in if length p > max_len then
            map_err (err_to_others ''Encode error Response failed.'')
              (c_encode rc (oversize_response (length p) max_len))
          else Ok p)"

definition respond ::
  "response codec \<Rightarrow> ('d, 't) conn_ctx \<Rightarrow> send_env \<Rightarrow> u32 \<Rightarrow> response \<Rightarrow> 't server_conn
    \<Rightarrow> (error + unit) option \<times> 't server_conn" where
  "respond rc cx env sid resp st =
     (case respond_payload rc cx resp of
        Inl e \<Rightarrow> (Some (Err e), st)
      | Inr p \<Rightarrow> sv_send cx env True (gen_new_response sid p) st)"

definition respond_with_status ::
  "response codec \<Rightarrow> ('d, 't) conn_ctx \<Rightarrow> send_env \<Rightarrow> u32 \<Rightarrow> status \<Rightarrow> 't server_conn \<Rightarrow> 't server_conn" where
  "respond_with_status rc cx env sid s st = snd (respond rc cx env sid (init_status s) st)"

definition hc_handle_err ::
  "display \<Rightarrow> response codec \<Rightarrow> ('d, 't) conn_ctx \<Rightarrow> send_env \<Rightarrow> message_header \<Rightarrow> error
    \<Rightarrow> 't server_conn \<Rightarrow> 't server_conn" where
  "hc_handle_err d rc cx env mh e st = snd (respond rc cx env (stream_id mh) (response_of_error d e) st)"

definition make_context :: "('d, 't) conn_ctx \<Rightarrow> message_header \<Rightarrow> request \<Rightarrow> 'd ttrpc_context" where
  "make_context cx mh req = \<lparr>tc_mh = mh, tc_metadata = from_pb (metadata req),
     tc_timeout_nano = timeout_nano req, tc_connection_data = cx_data cx\<rparr>"

text \<open>The outer \<open>None\<close> is a handler that never returns.\<close>

definition handle_method ::
  "display \<Rightarrow> ('d, 't) conn_ctx \<Rightarrow> 'd method_handler \<Rightarrow> request message
    \<Rightarrow> (status + response option) option" where
  "handle_method d cx h m =
     (let req = msg_payload m; ctx0 = make_context cx (msg_header m) req;
          unknown = (\<lambda>e. get_status UNKNOWN (error_to_string d e));
          deadline = (if timeout_nano req = 0 then None else Some (unat (timeout_nano req)))
      in case await_deadline deadline (h ctx0 req) of
           Hangs \<Rightarrow> None
         | Elapsed \<Rightarrow> Some (Err (get_status DEADLINE_EXCEEDED ''timeout''))
         | Done (Inl e) \<Rightarrow> Some (Err (unknown e))
         | Done (Inr resp) \<Rightarrow> Some (Ok (Some resp)))"

definition sv_register :: "u32 \<Rightarrow> 't server_conn \<Rightarrow> nat \<times> 't server_conn" where
  "sv_register sid st =
     (sv_next_mb st, st\<lparr>sv_streams := (sv_streams st)(sid \<mapsto> sv_next_mb st),
        sv_mail := (sv_mail st)(sv_next_mb st := []), sv_taken := (sv_taken st)(sv_next_mb st := 0),
        sv_rx_alive := (sv_rx_alive st)(sv_next_mb st := True), sv_next_mb := sv_next_mb st + 1\<rparr>)"

definition sv_mail_send :: "nat \<Rightarrow> error + gen_message \<Rightarrow> 't server_conn \<Rightarrow> bool \<times> 't server_conn" where
  "sv_mail_send mb r st =
     (if sv_rx_alive st mb then (True, st\<lparr>sv_mail := (sv_mail st)(mb := sv_mail st mb @ [r])\<rparr>)
      else (False, st))"

text \<open>The channel of a stream holds 100 messages.\<close>

definition STREAM_CHANNEL_CAPACITY :: nat where
  "STREAM_CHANNEL_CAPACITY = 100"

definition sv_room :: "nat \<Rightarrow> 't server_conn \<Rightarrow> bool" where
  "sv_room mb st \<longleftrightarrow> length (sv_mail st mb) < sv_taken st mb + STREAM_CHANNEL_CAPACITY"

text \<open>The receiver takes the next message.\<close>

definition sv_take :: "nat \<Rightarrow> 't server_conn \<Rightarrow> 't server_conn" where
  "sv_take mb st =
     (if sv_taken st mb < length (sv_mail st mb) then st\<lparr>sv_taken := (sv_taken st)(mb := sv_taken st mb + 1)\<rparr> else st)"

text \<open>When the handler's task ends, its receiver is dropped and the stream unregistered.\<close>

definition sv_stream_end :: "u32 \<Rightarrow> nat \<Rightarrow> 't server_conn \<Rightarrow> 't server_conn" where
  "sv_stream_end sid mb st = st\<lparr>sv_streams := (sv_streams st)(sid := None),
     sv_rx_alive := (sv_rx_alive st)(mb := False)\<rparr>"

text \<open>What the join of the handler's task gives; \<open>Inl\<close> is a panicked task.\<close>

definition stream_outcome :: "display \<Rightarrow> string \<Rightarrow> task_outcome \<Rightarrow> status + response option" where
  "stream_outcome d path r =
     map_err (\<lambda>e. get_status UNKNOWN (error_to_string d e))
       (case r of
          Inr res \<Rightarrow> res
        | Inl e \<Rightarrow> Err (Others (''stream '' @ path @ '' task got error '' @ e)))"

text \<open>\<open>early\<close>: the handler's receiver is gone before the first message could be put into its channel.\<close>

definition handle_stream ::
  "display \<Rightarrow> ('d, 't) conn_ctx \<Rightarrow> 'd stream_handler \<Rightarrow> bool \<Rightarrow> request message \<Rightarrow> 't server_conn
    \<Rightarrow> (status + response option) option \<times> 't server_conn" where
  "handle_stream d cx h early m st =
     (let mh = msg_header m; sid = stream_id mh; req = msg_payload m;
          path = get_path (req_service req) (req_method req);
          no_data = has_flag (flags mh) FLAG_NO_DATA;
          (mb, st1) = sv_register sid st;
          st2 = (if early then sv_stream_end sid mb st1 else st1);
          (sent, st3) = (if no_data then (True, st2)
                         else sv_mail_send mb (Ok (gen_new_data sid (req_payload req))) st2)
      in if \<not> sent then (Some (Err (get_status UNKNOWN ''channel closed'')), st3)
         else case h (make_context cx mh req) (new_server sid True True) of
                None \<Rightarrow> (None, st3)
              | Some r \<Rightarrow> (Some (stream_outcome d path r), sv_stream_end sid mb st3))"

type_synonym 'd services = "string \<rightharpoonup> 'd service"

definition handle_request ::
  "display \<Rightarrow> request codec \<Rightarrow> ('d, 't) conn_ctx \<Rightarrow> 'd services \<Rightarrow> bool \<Rightarrow> gen_message \<Rightarrow> 't server_conn
    \<Rightarrow> (status + response option) option \<times> 't server_conn" where
  "handle_request d qc cx services early msg st =
     (case message_try_from qc msg of
        Inl e \<Rightarrow> (Some (Err (get_status INVALID_ARGUMENT e)), st)
      | Inr req_msg \<Rightarrow>
          (let req = msg_payload req_msg
           in case services (req_service req) of
                None \<Rightarrow>
                  (Some (Err (get_status INVALID_ARGUMENT (req_service req @ '' service does not exist''))), st)
              | Some srv \<Rightarrow>
                  (case get_method srv (req_method req) of
                     Some h \<Rightarrow> (handle_method d cx h req_msg, st)
                   | None \<Rightarrow>
                       (case get_stream srv (req_method req) of
                          Some h \<Rightarrow> handle_stream d cx h early req_msg st
                        | None \<Rightarrow>
                            (Some (Err (get_status UNIMPLEMENTED (req_method req @ '' method''))), st)))))"

text \<open>What \<open>handle_msg\<close> does with the result of \<open>handle_request\<close>; \<open>None\<close> is a handler still at work.\<close>

definition hc_reply ::
  "display \<Rightarrow> response codec \<Rightarrow> ('d, 't) conn_ctx \<Rightarrow> send_env \<Rightarrow> u32
    \<Rightarrow> (status + response option) option \<Rightarrow> 't server_conn \<Rightarrow> 't server_conn" where
  "hc_reply d rc cx env sid res st =
     (case res of
        None \<Rightarrow> st
      | Some (Inr (Some resp)) \<Rightarrow>
          (let resp' = (case check_oversize (unat (c_size rc resp)) True of
                          Inl e \<Rightarrow> response_of_error d e | Inr _ \<Rightarrow> resp)
           in snd (respond rc cx env sid resp' st))
      | Some (Inr None) \<Rightarrow> snd (sv_send cx env False (gen_new_close sid) st)
      | Some (Inl s) \<Rightarrow> respond_with_status rc cx env sid s st)"

text \<open>
  \<open>HandlerContext::handle_msg\<close> on a frame that has passed the inbound pipeline, up to the point at which the reader goes on for a
  \<open>DATA\<close> frame (the drop of \<open>wait_tx\<close>).
\<close>

definition hc_handle_msg ::
  "display \<Rightarrow> request codec \<Rightarrow> response codec \<Rightarrow> ('d, 't) conn_ctx \<Rightarrow> 'd services \<Rightarrow> send_env \<Rightarrow> bool
    \<Rightarrow> gen_message \<Rightarrow> 't server_conn \<Rightarrow> 't server_conn" where
  "hc_handle_msg d qc rc cx services env early msg st =
     (let sid = stream_id (header msg)
      in if sid mod 2 \<noteq> 1 then
           respond_with_status rc cx env sid (get_status INVALID_ARGUMENT ''stream id must be odd'') st
         else if mh_type (header msg) = MESSAGE_TYPE_REQUEST then
           (case handle_request d qc cx services early msg st of
              (res, st') \<Rightarrow> hc_reply d rc cx env sid res st')
         else if mh_type (header msg) = MESSAGE_TYPE_DATA then st\<lparr>sv_tasks := sv_tasks st @ [Lookup msg]\<rparr>
         else st)"

text \<open>
  The rest of a \<open>DATA\<close> frame's task, one step at a time: the lookup of the stream's sender, and the send, which waits while the channel is full
  and fails when its receiver is gone. A failure is answered, and the task ends.
\<close>

definition remove_nth :: "nat \<Rightarrow> 'a list \<Rightarrow> 'a list" where
  "remove_nth i xs = take i xs @ drop (Suc i) xs"

definition hc_task_end :: "nat \<Rightarrow> 't server_conn \<Rightarrow> 't server_conn" where
  "hc_task_end i st = st\<lparr>sv_tasks := remove_nth i (sv_tasks st)\<rparr>"

definition hc_data_step ::
  "response codec \<Rightarrow> ('d, 't) conn_ctx \<Rightarrow> send_env \<Rightarrow> nat \<Rightarrow> 't server_conn \<Rightarrow> 't server_conn" where
  "hc_data_step rc cx env i st =
     (if length (sv_tasks st) \<le> i then st
      else case sv_tasks st ! i of
             Lookup msg \<Rightarrow>
               (let sid = stream_id (header msg)
                in case sv_streams st sid of
                     Some mb \<Rightarrow> st\<lparr>sv_tasks := (sv_tasks st)[i := Delivering mb msg]\<rparr>
                   | None \<Rightarrow>
                       respond_with_status rc cx env sid
                         (get_status INVALID_ARGUMENT ''Stream is no longer active'') (hc_task_end i st))
           | Delivering mb msg \<Rightarrow>
               (let sid = stream_id (header msg)
                in if sv_rx_alive st mb \<and> \<not> sv_room mb st then st
                   else case sv_mail_send mb (Ok msg) (hc_task_end i st) of
                          (True, st') \<Rightarrow> st'
                        | (False, st') \<Rightarrow>
                            respond_with_status rc cx env sid (get_status INVALID_ARGUMENT
                              (''Stream id '' @ show_nat (unat sid) @ '': handling data error: channel closed'')) st'))"

text \<open>The other branch of the task's \<open>select!\<close>: after a disconnect the task may be dropped where it is.\<close>

definition hc_task_cancel :: "nat \<Rightarrow> 't server_conn \<Rightarrow> 't server_conn" where
  "hc_task_cancel i st = (if is_shutdown (handler_shutdown st) then hc_task_end i st else st)"

text \<open>A stream handler's task that was still at work ends.\<close>

definition hc_stream_done ::
  "display \<Rightarrow> response codec \<Rightarrow> ('d, 't) conn_ctx \<Rightarrow> send_env \<Rightarrow> u32 \<Rightarrow> nat \<Rightarrow> string \<Rightarrow> task_outcome
    \<Rightarrow> 't server_conn \<Rightarrow> 't server_conn" where
  "hc_stream_done d rc cx env sid mb path r st =
     hc_reply d rc cx env sid (Some (stream_outcome d path r)) (sv_stream_end sid mb st)"

subsection \<open>The connection reader\<close>

text \<open>
  \<open>ServerReader::handle_msg\<close>: nothing is done after shutdown; a frame that fails the inbound pipeline
  is dropped without looking at its header.
\<close>

definition sv_handle_msg ::
  "display \<Rightarrow> request codec \<Rightarrow> response codec \<Rightarrow> ('d, 't) conn_ctx \<Rightarrow> 'd services \<Rightarrow> send_env \<Rightarrow> bool
    \<Rightarrow> gen_message \<Rightarrow> 't server_conn \<Rightarrow> 't server_conn" where
  "sv_handle_msg d qc rc cx services env early msg st =
     (if is_shutdown (handler_shutdown st) then st
      else case inbound cx (sv_xst st) msg (mh_type (header msg) = MESSAGE_TYPE_REQUEST) of
             (Inl e, t', _) \<Rightarrow> st\<lparr>sv_xst := t'\<rparr>
           | (Inr _, t', msg') \<Rightarrow>
               hc_handle_msg d qc rc cx services env early msg' (st\<lparr>sv_xst := t'\<rparr>))"

definition sv_disconnect :: "error \<Rightarrow> 't server_conn \<Rightarrow> 't server_conn" where
  "sv_disconnect e st = st\<lparr>handler_shutdown := snd (notifier_shutdown (handler_shutdown st))\<rparr>"

definition server_delegate ::
  "display \<Rightarrow> request codec \<Rightarrow> response codec \<Rightarrow> ('d, 't) conn_ctx \<Rightarrow> 'd services \<Rightarrow> send_env \<Rightarrow> bool
    \<Rightarrow> 't server_conn delegate" where
  "server_delegate d qc rc cx services env early =
     \<lparr>dl_disconnect = sv_disconnect, dl_exit = (\<lambda>st. st),
      dl_handle_msg = sv_handle_msg d qc rc cx services env early,
      dl_handle_err = hc_handle_err d rc cx env\<rparr>"

subsection \<open>Generated handlers (utils.rs)\<close>

definition status_response :: "display \<Rightarrow> error \<Rightarrow> response" where
  "status_response d x =
     (case x of RpcStatus s \<Rightarrow> init_status s | _ \<Rightarrow> init_status (get_status UNKNOWN (dbg_error d x)))"

text \<open>\<open>async_request_handler!\<close> around a service function \<open>f\<close>.\<close>

definition ok_response :: "'p codec \<Rightarrow> 'p \<Rightarrow> error + response" where
  "ok_response pc rep =
     rbind (map_err (err_to_others ''Encoding response '') (c_encode pc rep)) (\<lambda>p.
       Ok (response_set_payload p (init_status (get_status OK []))))"

definition async_request_handler ::
  "display \<Rightarrow> 'q codec \<Rightarrow> 'p codec \<Rightarrow> ('d ttrpc_context \<Rightarrow> 'q \<Rightarrow> error + 'p) \<Rightarrow> 'd ttrpc_context \<Rightarrow> request
    \<Rightarrow> error + response" where
  "async_request_handler d qc pc f ctx0 req =
     rbind (map_err (err_to_others ''Unpack request error '') (c_decode qc (req_payload req))) (\<lambda>q.
       case f ctx0 q of
         Inr rep \<Rightarrow> ok_response pc rep
       | Inl x \<Rightarrow> Ok (status_response d x))"

definition async_client_streaming_handler ::
  "display \<Rightarrow> 'p codec \<Rightarrow> error + 'p \<Rightarrow> error + response option" where
  "async_client_streaming_handler d pc r =
     (case r of
        Inr rep \<Rightarrow> rbind (ok_response pc rep) (\<lambda>resp. Ok (Some resp))
      | Inl x \<Rightarrow> Ok (Some (status_response d x)))"

definition async_server_streaming_handler ::
  "display \<Rightarrow> 'q codec \<Rightarrow> ('q \<Rightarrow> error + unit) \<Rightarrow> error + bytes \<Rightarrow> error + response option" where
  "async_server_streaming_handler d qc f recvd =
     rbind recvd (\<lambda>buf.
     rbind (map_err Others (c_decode qc buf)) (\<lambda>q.
       case f q of Inr _ \<Rightarrow> Ok None | Inl x \<Rightarrow> Ok (Some (status_response d x))))"

definition async_duplex_streaming_handler :: "display \<Rightarrow> error + unit \<Rightarrow> error + response option" where
  "async_duplex_streaming_handler d r =
     (case r of Inr _ \<Rightarrow> Ok None | Inl x \<Rightarrow> Ok (Some (status_response d x)))"

text \<open>\<open>async_client_request!\<close>: the request it sends and what it makes of the response.\<close>

definition async_client_request ::
  "'q codec \<Rightarrow> ctx \<Rightarrow> (string \<times> string list) list \<Rightarrow> string \<Rightarrow> string \<Rightarrow> 'q \<Rightarrow> error + request" where
  "async_client_request qc c md srv meth q =
     rbind (map_err (err_to_others ''Encoding request '') (c_encode qc q)) (\<lambda>p.
       Ok (request_set_payload p (init_request srv meth (ctx_timeout_nano c) (to_pb md))))"

definition async_client_response :: "'p codec \<Rightarrow> 'p \<Rightarrow> error + response \<Rightarrow> error + 'p" where
  "async_client_response pc cres r =
     rbind r (\<lambda>res. map_err (err_to_others ''Unpack get error '') (c_merge pc cres (resp_payload res)))"

definition async_client_stream_request :: "ctx \<Rightarrow> (string \<times> string list) list \<Rightarrow> string \<Rightarrow> string \<Rightarrow> request" where
  "async_client_stream_request c md srv meth = init_request srv meth (ctx_timeout_nano c) (to_pb md)"

subsection \<open>The server object\<close>

text \<open>
  \<open>'l\<close> is the type of listeners. \<open>running\<close> is the accept task, if one was started: its listener and
  whether its loop is still alive (its end closes the stop channel).
\<close>

record ('l, 'd) server =
  listeners :: "'l list"
  services :: "'d services"
  svs_shutdown :: shared
  running :: "('l \<times> bool) option"

definition server_default :: "('l, 'd) server" where
  "server_default = \<lparr>listeners = [], services = Map.empty,
     svs_shutdown = \<lparr>sh_shutdown = False, sh_waiters = 0\<rparr>, running = None\<rparr>"

definition add_listener :: "'l \<Rightarrow> ('l, 'd) server \<Rightarrow> ('l, 'd) server" where
  "add_listener l s = s\<lparr>listeners := listeners s @ [l]\<rparr>"

definition server_bind :: "string + 'l \<Rightarrow> ('l, 'd) server \<Rightarrow> error + ('l, 'd) server" where
  "server_bind r s =
     rbind (map_err (err_to_others ''Listener::bind error '') r) (\<lambda>l. Ok (add_listener l s))"

text \<open>\<open>Arc::get_mut\<close> panics (\<open>None\<close>) unless no task holds the services (\<open>sole\<close>).\<close>

definition register_service :: "bool \<Rightarrow> 'd services \<Rightarrow> ('l, 'd) server \<Rightarrow> ('l, 'd) server option" where
  "register_service sole new s = (if sole then Some (s\<lparr>services := services s ++ new\<rparr>) else None)"

definition get_listener :: "('l, 'd) server \<Rightarrow> (error + 'l) \<times> ('l, 'd) server" where
  "get_listener s =
     (if listeners s = [] then (Err (Others ''ttrpc-rust server started with no bound listener''), s)
      else (Ok (last (listeners s)), s\<lparr>listeners := butlast (listeners s)\<rparr>))"

text \<open>The accept task ends: it drops its listener and its shutdown waiter.\<close>

definition accept_task_ended :: "('l, 'd) server \<Rightarrow> ('l, 'd) server" where
  "accept_task_ended s =
     (case running s of
        Some (l, True) \<Rightarrow> s\<lparr>running := Some (l, False), svs_shutdown := snd (waiter_drop (svs_shutdown s))\<rparr>
      | _ \<Rightarrow> s)"

text \<open>Replacing the stop channel of an earlier start ends that start's accept task.\<close>

definition server_start :: "('l, 'd) server \<Rightarrow> (error + unit) \<times> ('l, 'd) server" where
  "server_start s =
     (case get_listener s of
        (Inl e, s') \<Rightarrow> (Err e, s')
      | (Inr l, s') \<Rightarrow>
          (let s1 = accept_task_ended s'
           in (Ok (), s1\<lparr>svs_shutdown := waiter_from_shared (svs_shutdown s1), running := Some (l, True)\<rparr>)))"

text \<open>The \<open>unwrap\<close>s panic (\<open>None\<close>) when the accept task has already ended.\<close>

definition stop_listen :: "('l, 'd) server \<Rightarrow> ('l, 'd) server option" where
  "stop_listen s =
     (case running s of
        None \<Rightarrow> Some s
      | Some (l, alive) \<Rightarrow>
          (if alive then
             Some (s\<lparr>listeners := [l], running := None, svs_shutdown := snd (waiter_drop (svs_shutdown s))\<rparr>)
           else None))"

definition server_disconnect :: "('l, 'd) server \<Rightarrow> ('l, 'd) server" where
  "server_disconnect s = s\<lparr>svs_shutdown := snd (notifier_shutdown (svs_shutdown s))\<rparr>"

definition server_shutdown :: "('l, 'd) server \<Rightarrow> ('l, 'd) server option" where
  "server_shutdown s =
     map_option (\<lambda>s1. let s2 = server_disconnect s1 in s2\<lparr>listeners := butlast (listeners s2)\<rparr>)
       (stop_listen s)"

text \<open>
  The accept task: each accepted connection goes through the accept hook and is either given its
  context or dropped; the loop ends when the listener ends or the server asks for it back.
\<close>

datatype ('d, 't) accept_event =
    Incoming "string + (hook_error + ('d, 't) hook_output option)"
  | ListenerEnded
  | StopRequested

fun accept_loop :: "('d, 't) accept_event list \<Rightarrow> ('d, 't) conn_ctx list \<times> bool" where
  "accept_loop [] = ([], True)"
| "accept_loop (Incoming (Inr (Inr output)) # evs) =
     (case accept_loop evs of (cs, alive) \<Rightarrow> (conn_ctx_new output # cs, alive))"
| "accept_loop (Incoming (Inr (Inl e)) # evs) = accept_loop evs"
| "accept_loop (Incoming (Inl e) # evs) = accept_loop evs"
| "accept_loop (ListenerEnded # evs) = ([], False)"
| "accept_loop (StopRequested # evs) = ([], False)"

subsection \<open>What handling a frame does\<close>

text \<open>
  One more frame at most is queued, for the given stream, as a response or a close; nothing else of
  the connection changes but the transform's state.
\<close>

definition answered :: "u32 \<Rightarrow> 't server_conn \<Rightarrow> 't server_conn \<Rightarrow> bool" where
  "answered sid st st' \<longleftrightarrow> sv_tasks st' = sv_tasks st \<and> (\<exists>new. sv_tx st' = sv_tx st @ new \<and> length new \<le> 1
     \<and> (\<forall>m \<in> set new. stream_id (header (sm_msg m)) = sid \<and> frame_ok (sm_msg m)
          \<and> (mh_type (header (sm_msg m)) = MESSAGE_TYPE_RESPONSE
             \<or> mh_type (header (sm_msg m)) = MESSAGE_TYPE_DATA
                \<and> flags (header (sm_msg m)) = FLAG_REMOTE_CLOSED OR FLAG_NO_DATA)))"

lemma answered_refl [simp]: "answered sid st st"
  by (simp add: answered_def)

lemma answered_same_tx: "sv_tx st1 = sv_tx st \<Longrightarrow> sv_tasks st1 = sv_tasks st \<Longrightarrow> answered sid st1 st' \<Longrightarrow> answered sid st st'"
  by (simp add: answered_def)

lemma sv_send_cases:
  assumes "honest msg"
  shows "sv_tx (snd (sv_send cx env b msg st)) = sv_tx st \<or>
    (\<exists>m. sv_tx (snd (sv_send cx env b msg st)) = sv_tx st @ [m] \<and> frame_ok (sm_msg m)
       \<and> same_route msg (sm_msg m))"
proof -
  obtain r t' q' where s: "transform_send_inner cx env b False None msg (sv_xst st) (sv_tx st) = (r, t', q')"
    by (metis surj_pair)
  then have tx: "sv_tx (snd (sv_send cx env b msg st)) = q'"
    by (simp add: sv_send_def transform_send_def)
  from s show ?thesis
  proof (cases rule: transform_send_cases)
    case (queued m')
    with outbound_ok(1,2) [OF queued(1) assms] tx show ?thesis by auto
  qed (simp_all add: tx)
qed

lemma sv_send_frame [frame_rules]:
  "sv_streams (snd (sv_send cx env b msg st)) = sv_streams st"
  "sv_mail (snd (sv_send cx env b msg st)) = sv_mail st"
  "sv_rx_alive (snd (sv_send cx env b msg st)) = sv_rx_alive st"
  "sv_taken (snd (sv_send cx env b msg st)) = sv_taken st"
  "sv_tasks (snd (sv_send cx env b msg st)) = sv_tasks st"
  "sv_next_mb (snd (sv_send cx env b msg st)) = sv_next_mb st"
  "handler_shutdown (snd (sv_send cx env b msg st)) = handler_shutdown st"
  by (simp_all add: sv_send_def split: prod.split)

lemma respond_frame [frame_rules]:
  "sv_streams (snd (respond rc cx env sid resp st)) = sv_streams st"
  "sv_mail (snd (respond rc cx env sid resp st)) = sv_mail st"
  "sv_rx_alive (snd (respond rc cx env sid resp st)) = sv_rx_alive st"
  "sv_taken (snd (respond rc cx env sid resp st)) = sv_taken st"
  "sv_tasks (snd (respond rc cx env sid resp st)) = sv_tasks st"
  "sv_next_mb (snd (respond rc cx env sid resp st)) = sv_next_mb st"
  "handler_shutdown (snd (respond rc cx env sid resp st)) = handler_shutdown st"
  by (simp_all add: respond_def frame_rules split: sum.split)

lemma answered_sv_send:
  assumes "honest msg" and "stream_id (header msg) = sid"
    and "mh_type (header msg) = MESSAGE_TYPE_RESPONSE \<or> mh_type (header msg) = MESSAGE_TYPE_DATA
      \<and> flags (header msg) = FLAG_REMOTE_CLOSED OR FLAG_NO_DATA"
  shows "answered sid st (snd (sv_send cx env b msg st))"
  using sv_send_cases [OF assms(1), of cx env b st]
proof
  assume "\<exists>m. sv_tx (snd (sv_send cx env b msg st)) = sv_tx st @ [m] \<and> frame_ok (sm_msg m)
       \<and> same_route msg (sm_msg m)"
  then obtain m where "sv_tx (snd (sv_send cx env b msg st)) = sv_tx st @ [m]" "frame_ok (sm_msg m)"
    "same_route msg (sm_msg m)" by blast
  with assms(2,3) show ?thesis
    unfolding answered_def same_route_def by (intro conjI exI [of _ "[m]"]) (auto simp: frame_rules)
qed (simp add: answered_def frame_rules)

lemma answered_send_response: "answered sid st (snd (sv_send cx env b (gen_new_response sid p) st))"
  by (rule answered_sv_send [OF honest_new(2)]) (simp_all add: wire_simps)

lemma answered_send_close: "answered sid st (snd (sv_send cx env b (gen_new_close sid) st))"
  by (rule answered_sv_send [OF honest_new(3)]) (simp_all add: wire_simps)

lemma answered_respond: "answered sid st (snd (respond rc cx env sid resp st))"
  by (simp add: respond_def answered_send_response split: sum.split)

lemma answered_respond_status: "answered sid st (respond_with_status rc cx env sid s st)"
  by (simp add: respond_with_status_def answered_respond)

lemma sv_mail_send_tx [simp]: "sv_tx (snd (sv_mail_send mb r st)) = sv_tx st" "sv_tasks (snd (sv_mail_send mb r st)) = sv_tasks st"
  by (simp_all add: sv_mail_send_def)

lemma sv_stream_end_tx [simp]: "sv_tx (sv_stream_end sid mb st) = sv_tx st" "sv_tasks (sv_stream_end sid mb st) = sv_tasks st"
  by (simp_all add: sv_stream_end_def)

lemma sv_register_tx [simp]: "sv_tx (snd (sv_register sid st)) = sv_tx st" "sv_tasks (snd (sv_register sid st)) = sv_tasks st"
  by (simp_all add: sv_register_def)

lemma answered_hc_reply: "answered sid st (hc_reply d rc cx env sid res st)"
  by (auto simp: hc_reply_def answered_respond answered_send_close answered_respond_status Let_def
      split: option.split sum.split)

lemma handle_stream_tx:
  "sv_tx (snd (handle_stream d cx h early m st)) = sv_tx st" "sv_tasks (snd (handle_stream d cx h early m st)) = sv_tasks st"
  by (simp_all add: handle_stream_def sv_register_def sv_stream_end_def sv_mail_send_def Let_def
      split: option.split)

lemma handle_request_tx:
  "sv_tx (snd (handle_request d qc cx srvs early msg st)) = sv_tx st" "sv_tasks (snd (handle_request d qc cx srvs early msg st)) = sv_tasks st"
  by (auto simp: handle_request_def handle_stream_tx Let_def split: sum.split option.split)

text \<open>
  Accounting for the answers of a stream: a step that brings \<open>k\<close> new occasions queues at most as many answers as it uses up
  occasions, where a pending task is an occasion; other streams are not touched.
\<close>

definition is_answer :: "gen_message \<Rightarrow> bool" where
  "is_answer m \<longleftrightarrow> frame_ok m \<and> (mh_type (header m) = MESSAGE_TYPE_RESPONSE
     \<or> mh_type (header m) = MESSAGE_TYPE_DATA \<and> flags (header m) = FLAG_REMOTE_CLOSED OR FLAG_NO_DATA)"

definition on_stream :: "u32 \<Rightarrow> data_task \<Rightarrow> bool" where
  "on_stream sid t \<longleftrightarrow> stream_id (header (task_msg t)) = sid"

definition tasks_of :: "u32 \<Rightarrow> 't server_conn \<Rightarrow> nat" where
  "tasks_of sid st = length (filter (on_stream sid) (sv_tasks st))"

definition accounted :: "nat \<Rightarrow> u32 \<Rightarrow> 't server_conn \<Rightarrow> 't server_conn \<Rightarrow> bool" where
  "accounted k sid st st' \<longleftrightarrow> (\<exists>new. sv_tx st' = sv_tx st @ new
     \<and> (\<forall>m \<in> set new. stream_id (header (sm_msg m)) = sid \<and> is_answer (sm_msg m))
     \<and> length new + tasks_of sid st' \<le> tasks_of sid st + k \<and> (\<forall>sid'. sid' \<noteq> sid \<longrightarrow> tasks_of sid' st' = tasks_of sid' st))"

lemma filter_remove_nth:
  "i < length xs \<Longrightarrow> filter P xs = filter P (take i xs) @ (if P (xs ! i) then [xs ! i] else []) @ filter P (drop (Suc i) xs)"
  "filter P (remove_nth i xs) = filter P (take i xs) @ filter P (drop (Suc i) xs)"
  by (subst id_take_nth_drop [of i xs]) (simp_all add: remove_nth_def)

lemma filter_update_nth:
  "i < length xs \<Longrightarrow> filter P (xs[i := x]) = filter P (take i xs) @ (if P x then [x] else []) @ filter P (drop (Suc i) xs)"
  by (simp add: upd_conv_take_nth_drop)

lemma accounted_answered: "answered sid st st' \<Longrightarrow> accounted (Suc 0) sid st st'"
  by (auto simp: answered_def accounted_def tasks_of_def is_answer_def)

lemma accounted_refl: "accounted k sid st st" "accounted k sid st (st\<lparr>sv_xst := t\<rparr>)"
  by (simp_all add: accounted_def tasks_of_def)

lemma accounted_task_end:
  assumes "i < length (sv_tasks st)" and "on_stream sid (sv_tasks st ! i)" and "answered sid (hc_task_end i st) st'"
  shows "accounted 0 sid st st'"
proof -
  have "tasks_of sid' st = tasks_of sid' (hc_task_end i st) + (if sid' = sid then 1 else 0)" for sid'
    using assms(2) unfolding tasks_of_def hc_task_end_def
    by (subst filter_remove_nth(1) [OF assms(1)]) (simp add: filter_remove_nth(2) on_stream_def)
  moreover have "tasks_of sid' st' = tasks_of sid' (hc_task_end i st)" for sid'
    using assms(3) by (simp add: answered_def tasks_of_def)
  ultimately show ?thesis
    using assms(3) by (auto simp: answered_def accounted_def is_answer_def hc_task_end_def)
qed

lemma accounted_hc_handle_msg:
  "accounted (Suc 0) (stream_id (header msg)) st (hc_handle_msg d qc rc cx srvs env early msg st)"
proof -
  let ?sid = "stream_id (header msg)"
  have req: "answered ?sid st (case handle_request d qc cx srvs early msg st of
      (res, st') \<Rightarrow> hc_reply d rc cx env ?sid res st')"
    using handle_request_tx [of d qc cx srvs early msg st]
    by (auto intro: answered_same_tx [OF _ _ answered_hc_reply] split: prod.split)
  have data: "accounted (Suc 0) ?sid st (st\<lparr>sv_tasks := sv_tasks st @ [Lookup msg]\<rparr>)"
    by (simp add: accounted_def tasks_of_def on_stream_def)
  show ?thesis
    by (simp add: hc_handle_msg_def Let_def accounted_answered req data answered_respond_status accounted_refl)
qed

lemma accounted_data_step:
  assumes "i < length (sv_tasks st)"
  shows "accounted 0 (stream_id (header (task_msg (sv_tasks st ! i)))) st (hc_data_step rc cx env i st)"
proof (cases "sv_tasks st ! i")
  case (Lookup msg)
  note ended = accounted_task_end [OF assms, of "stream_id (header msg)"]
  show ?thesis
  proof (cases "sv_streams st (stream_id (header msg))")
    case None
    with Lookup assms show ?thesis
      using ended [OF _ answered_respond_status] by (simp add: hc_data_step_def on_stream_def)
  next
    case (Some mb)
    have "tasks_of sid (st\<lparr>sv_tasks := (sv_tasks st)[i := Delivering mb msg]\<rparr>) = tasks_of sid st" for sid
      using Lookup by (simp add: tasks_of_def filter_update_nth [OF assms] filter_remove_nth(1) [OF assms] on_stream_def)
    with Some Lookup assms show ?thesis by (simp add: hc_data_step_def accounted_def)
  qed
next
  case (Delivering mb msg)
  note ended = accounted_task_end [OF assms, of "stream_id (header msg)"]
  have "answered (stream_id (header msg)) st1 (case sv_mail_send mb x st1 of
      (True, st') \<Rightarrow> st' | (False, st') \<Rightarrow> respond_with_status rc cx env (stream_id (header msg)) s st')" for x s st1
    by (auto simp: sv_mail_send_def answered_respond_status intro: answered_same_tx [OF _ _ answered_refl])
  with Delivering assms ended show ?thesis by (auto simp: hc_data_step_def on_stream_def accounted_def [of 0 _ st st] Let_def)
qed

subsection \<open>The registrations of a connection\<close>

text \<open>
  Every registered stream has its own mailbox, whose receiver is alive. \<open>sv_owned\<close>: the mailbox of a
  handler's task is registered under the task's stream or under none.
\<close>

definition sv_inv :: "'t server_conn \<Rightarrow> bool" where
  "sv_inv st \<longleftrightarrow> (\<forall>sid mb. sv_streams st sid = Some mb \<longrightarrow> sv_rx_alive st mb \<and> mb < sv_next_mb st)
     \<and> (\<forall>sid sid' mb. sv_streams st sid = Some mb \<longrightarrow> sv_streams st sid' = Some mb \<longrightarrow> sid = sid')"

definition sv_owned :: "u32 \<Rightarrow> nat \<Rightarrow> 't server_conn \<Rightarrow> bool" where
  "sv_owned sid mb st \<longleftrightarrow> (\<forall>sid'. sv_streams st sid' = Some mb \<longrightarrow> sid' = sid)"

lemma sv_inv_new: "sv_inv (server_conn_new t)"
  by (simp add: sv_inv_def server_conn_new_def)

lemma sv_inv_frame:
  assumes "sv_inv st" and "sv_streams st' = sv_streams st" and "sv_rx_alive st' = sv_rx_alive st"
    and "sv_next_mb st' = sv_next_mb st"
  shows "sv_inv st'"
  using assms by (simp add: sv_inv_def)

lemma sv_inv_register:
  assumes "sv_inv st"
  shows "sv_inv (snd (sv_register sid st))" and "sv_owned sid (fst (sv_register sid st)) (snd (sv_register sid st))"
  using assms by (auto simp: sv_inv_def sv_register_def sv_owned_def less_SucI split: if_splits)

lemma sv_inv_end: "sv_inv st \<Longrightarrow> sv_owned sid mb st \<Longrightarrow> sv_inv (sv_stream_end sid mb st)"
  by (auto simp: sv_inv_def sv_owned_def sv_stream_end_def split: if_splits)

lemma sv_inv_mail_send: "sv_inv st \<Longrightarrow> sv_inv (snd (sv_mail_send mb r st))"
  by (simp add: sv_inv_def sv_mail_send_def)

lemma sv_owned_mail_send: "sv_owned sid mb st \<Longrightarrow> sv_owned sid mb (snd (sv_mail_send mb' r st))"
  by (simp add: sv_owned_def sv_mail_send_def)

lemma sv_owned_end: "sv_owned sid mb st \<Longrightarrow> sv_owned sid mb (sv_stream_end sid' mb' st)"
  by (auto simp: sv_owned_def sv_stream_end_def split: if_splits)

lemma sv_inv_handle_stream:
  assumes "sv_inv st"
  shows "sv_inv (snd (handle_stream d cx h early m st))"
proof -
  let ?sid = "stream_id (msg_header m)"
  obtain mb st1 where r: "sv_register ?sid st = (mb, st1)" by (metis surj_pair)
  with sv_inv_register [OF assms, of ?sid] have st1: "sv_inv st1" "sv_owned ?sid mb st1" by simp_all
  define st2 where "st2 = (if early then sv_stream_end ?sid mb st1 else st1)"
  with st1 have st2: "sv_inv st2" "sv_owned ?sid mb st2"
    by (simp_all add: sv_inv_end sv_owned_end)
  note mail = sv_inv_mail_send [OF st2(1)] sv_owned_mail_send [OF st2(2)]
  have m1: "sv_inv st3 \<and> sv_owned ?sid mb st3" if "sv_mail_send mb x st2 = (b, st3)" for x b st3
    using mail [of mb x] that by simp
  show ?thesis
    unfolding handle_stream_def Let_def r prod.case st2_def [symmetric]
    using st2 m1 by (auto simp: sv_inv_end split: option.split prod.split)
qed

lemma sv_inv_handle_request: "sv_inv st \<Longrightarrow> sv_inv (snd (handle_request d qc cx srvs early msg st))"
  by (auto simp: handle_request_def sv_inv_handle_stream Let_def split: sum.split option.split)

lemma sv_inv_send: "sv_inv st \<Longrightarrow> sv_inv (snd (sv_send cx env b msg st))"
  by (rule sv_inv_frame) (simp_all add: frame_rules)

lemma sv_inv_respond: "sv_inv st \<Longrightarrow> sv_inv (snd (respond rc cx env sid resp st))"
  by (rule sv_inv_frame) (simp_all add: frame_rules)

lemma sv_inv_respond_status: "sv_inv st \<Longrightarrow> sv_inv (respond_with_status rc cx env sid s st)"
  by (simp add: respond_with_status_def sv_inv_respond)

lemma sv_inv_reply: "sv_inv st \<Longrightarrow> sv_inv (hc_reply d rc cx env sid res st)"
  by (auto simp: hc_reply_def sv_inv_respond sv_inv_send sv_inv_respond_status Let_def
      split: option.split sum.split)

lemma sv_inv_hc_handle_msg:
  assumes "sv_inv st"
  shows "sv_inv (hc_handle_msg d qc rc cx srvs env early msg st)"
proof -
  have req: "sv_inv (case handle_request d qc cx srvs early msg st of
      (res, st') \<Rightarrow> hc_reply d rc cx env sid res st')" for sid
    using sv_inv_handle_request [OF assms, of d qc cx srvs early msg]
    by (auto simp: sv_inv_reply split: prod.split)
  have "sv_inv (st\<lparr>sv_tasks := ts\<rparr>)" for ts using assms by (simp add: sv_inv_def)
  then show ?thesis
    by (simp add: hc_handle_msg_def Let_def req assms sv_inv_respond_status)
qed

lemma sv_inv_xst: "sv_inv (st\<lparr>sv_xst := t\<rparr>) = sv_inv st"
  by (simp add: sv_inv_def)

lemma sv_inv_handle_msg: "sv_inv st \<Longrightarrow> sv_inv (sv_handle_msg d qc rc cx srvs env early msg st)"
  by (auto simp: sv_handle_msg_def sv_inv_hc_handle_msg sv_inv_xst split: prod.split sum.split)

interpretation sv_delegate: delegate_laws "server_delegate d qc rc cx srvs env early" sv_inv
proof
  fix st :: "'b server_conn" and e h
  assume "sv_inv st"
  then show "sv_inv (dl_disconnect (server_delegate d qc rc cx srvs env early) e st)"
    by (simp add: server_delegate_def sv_disconnect_def sv_inv_def)
  from \<open>sv_inv st\<close> show "sv_inv (dl_handle_err (server_delegate d qc rc cx srvs env early) h e st)"
    by (simp add: server_delegate_def hc_handle_err_def sv_inv_respond)
qed (simp_all add: server_delegate_def sv_inv_handle_msg)

subsection \<open>Properties of the connection\<close>

datatype server_event =
    SvFrame send_env bool gen_message
  | SvErr send_env message_header error
  | SvDone send_env u32 nat string task_outcome
  | SvTask send_env nat
  | SvTake nat
  | SvCancel nat
  | SvDisconnect error

text \<open>Everything that happens to a connection's handler context, in any order: frames read, ends of stream handlers, steps of the pending tasks, receives of handlers.\<close>

fun sv_event ::
  "display \<Rightarrow> request codec \<Rightarrow> response codec \<Rightarrow> ('d, 't) conn_ctx \<Rightarrow> 'd services \<Rightarrow> server_event
    \<Rightarrow> 't server_conn \<Rightarrow> 't server_conn" where
  "sv_event d qc rc cx srvs (SvFrame env early msg) st = sv_handle_msg d qc rc cx srvs env early msg st"
| "sv_event d qc rc cx srvs (SvErr env mh e) st = hc_handle_err d rc cx env mh e st"
| "sv_event d qc rc cx srvs (SvDone env sid mb path r) st = hc_stream_done d rc cx env sid mb path r st"
| "sv_event d qc rc cx srvs (SvTask env i) st = hc_data_step rc cx env i st"
| "sv_event d qc rc cx srvs (SvTake mb) st = sv_take mb st"
| "sv_event d qc rc cx srvs (SvCancel i) st = hc_task_cancel i st"
| "sv_event d qc rc cx srvs (SvDisconnect e) st = sv_disconnect e st"

definition sv_run ::
  "display \<Rightarrow> request codec \<Rightarrow> response codec \<Rightarrow> ('d, 't) conn_ctx \<Rightarrow> 'd services \<Rightarrow> server_event list
    \<Rightarrow> 't server_conn \<Rightarrow> 't server_conn" where
  "sv_run d qc rc cx srvs evs st = fold (sv_event d qc rc cx srvs) evs st"

text \<open>The stream on which an event brings an occasion for an answer, and the one on which it may give an answer.\<close>

fun ev_sid :: "server_event \<Rightarrow> u32 option" where
  "ev_sid (SvFrame env early msg) = Some (stream_id (header msg))"
| "ev_sid (SvErr env mh e) = Some (stream_id mh)"
| "ev_sid (SvDone env sid mb path r) = Some sid"
| "ev_sid _ = None"

fun ev_on :: "server_event \<Rightarrow> 't server_conn \<Rightarrow> u32 option" where
  "ev_on (SvTask env i) st = (if i < length (sv_tasks st) then Some (stream_id (header (task_msg (sv_tasks st ! i)))) else None)"
| "ev_on ev st = ev_sid ev"

lemma accounted_handle_msg:
  "accounted (Suc 0) (stream_id (header msg)) st (sv_handle_msg d qc rc cx srvs env early msg st)"
proof -
  have sid: "stream_id (header m') = stream_id (header msg)"
    if "inbound cx t msg b = (Inr u, t', m')" for t b u t' m'
    using inbound_ok(2) [of cx t msg b t' m'] that by (simp add: same_route_def)
  have "accounted (Suc 0) (stream_id (header msg)) (st\<lparr>sv_xst := t'\<rparr>)
      (hc_handle_msg d qc rc cx srvs env early m' (st\<lparr>sv_xst := t'\<rparr>))"
    if "inbound cx t msg b = (Inr u, t', m')" for t b u t' m'
    using accounted_hc_handle_msg [of m' "st\<lparr>sv_xst := t'\<rparr>"] sid [OF that] by simp
  then have "accounted (Suc 0) (stream_id (header msg)) st (hc_handle_msg d qc rc cx srvs env early m' (st\<lparr>sv_xst := t'\<rparr>))"
    if "inbound cx t msg b = (Inr u, t', m')" for t b u t' m'
    using that by (simp add: accounted_def tasks_of_def)
  then show ?thesis
    by (auto simp: sv_handle_msg_def accounted_refl split: prod.split sum.split)
qed

lemma sv_event_answers:
  "\<exists>new. sv_tx (sv_event d qc rc cx srvs ev st) = sv_tx st @ new
     \<and> (\<forall>m \<in> set new. is_answer (sm_msg m) \<and> ev_on ev st = Some (stream_id (header (sm_msg m))))
     \<and> (\<forall>sid. length (filter (\<lambda>m. stream_id (header (sm_msg m)) = sid) new) + tasks_of sid (sv_event d qc rc cx srvs ev st)
          \<le> tasks_of sid st + (if ev_sid ev = Some sid then 1 else 0))"
proof -
  let ?st = "sv_event d qc rc cx srvs ev st"
  have main: ?thesis if acc: "accounted k sid st ?st" and on: "ev_on ev st = Some sid" and k: "k = (if ev_sid ev = Some sid then 1 else 0)" for k sid
  proof -
    from acc obtain new where new: "sv_tx ?st = sv_tx st @ new" "\<forall>m \<in> set new. stream_id (header (sm_msg m)) = sid \<and> is_answer (sm_msg m)"
        "length new + tasks_of sid ?st \<le> tasks_of sid st + k" "\<forall>sid'. sid' \<noteq> sid \<longrightarrow> tasks_of sid' ?st = tasks_of sid' st"
      by (auto simp: accounted_def)
    have "length (filter (\<lambda>m. stream_id (header (sm_msg m)) = sid') new) + tasks_of sid' ?st
        \<le> tasks_of sid' st + (if ev_sid ev = Some sid' then 1 else 0)" for sid'
    proof (cases "sid' = sid")
      case True
      have "length (filter (\<lambda>m. stream_id (header (sm_msg m)) = sid) new) + tasks_of sid ?st \<le> length new + tasks_of sid ?st"
        by (rule add_right_mono [OF length_filter_le])
      from order_trans [OF this new(3)] True k show ?thesis by simp
    next
      case False
      with new(2,4) show ?thesis by (auto simp: filter_empty_conv)
    qed
    with new(1,2) on show ?thesis by (intro exI [of _ new]) auto
  qed
  have silent: ?thesis if "sv_tx ?st = sv_tx st" "\<And>sid. tasks_of sid ?st \<le> tasks_of sid st"
    using that by (intro exI [of _ "[]"]) (auto intro: le_SucI)
  show ?thesis
  proof (cases ev)
    case (SvFrame env early msg)
    show ?thesis by (rule main [of "Suc 0" "stream_id (header msg)"]) (simp_all add: SvFrame accounted_handle_msg)
  next
    case (SvErr env mh e)
    show ?thesis
      by (rule main [of "Suc 0" "stream_id mh"]) (simp_all add: SvErr hc_handle_err_def answered_respond accounted_answered)
  next
    case (SvDone env sid' mb path r)
    show ?thesis
      by (rule main [of "Suc 0" sid'])
        (simp_all add: SvDone hc_stream_done_def accounted_answered answered_same_tx [OF sv_stream_end_tx answered_hc_reply])
  next
    case (SvTask env i)
    show ?thesis
    proof (cases "i < length (sv_tasks st)")
      case True
      show ?thesis
        by (rule main [of 0 "stream_id (header (task_msg (sv_tasks st ! i)))"]) (simp_all add: SvTask True accounted_data_step)
    next
      case False
      with SvTask silent show ?thesis by (simp add: hc_data_step_def)
    qed
  next
    case (SvTake mb)
    with silent show ?thesis by (simp add: sv_take_def tasks_of_def)
  next
    case (SvCancel i)
    have "tasks_of sid (hc_task_end i st) \<le> tasks_of sid st" for sid
      by (cases "i < length (sv_tasks st)") (simp_all add: tasks_of_def hc_task_end_def remove_nth_def filter_remove_nth(1))
    with SvCancel silent show ?thesis by (simp add: hc_task_cancel_def hc_task_end_def)
  next
    case (SvDisconnect e)
    with silent show ?thesis by (simp add: sv_disconnect_def tasks_of_def)
  qed
qed

text \<open>
  C3: A server answers each stream at most once per thing that happens on it. Over any interleaving
  of frames, bad frames, ends of stream handlers, steps and cancellations of the tasks that deliver data, and disconnects, whatever the services and the
  fate of each send: the frames queued are well formed, each a response or a close, and for every
  stream id there are, together with the tasks still pending, at most as many as there were frames, bad frames and handler ends of that
  stream and tasks pending before; no frame is ever queued for another stream.
\<close>

theorem server_answers:
  "\<exists>new. sv_tx (sv_run d qc rc cx srvs evs st) = sv_tx st @ new
     \<and> (\<forall>m \<in> set new. is_answer (sm_msg m))
     \<and> (\<forall>sid. length (filter (\<lambda>m. stream_id (header (sm_msg m)) = sid) new) + tasks_of sid (sv_run d qc rc cx srvs evs st)
          \<le> tasks_of sid st + length (filter (\<lambda>ev. ev_sid ev = Some sid) evs))"
proof (induction evs arbitrary: st)
  case Nil
  then show ?case by (simp add: sv_run_def)
next
  case (Cons ev evs)
  let ?st = "sv_event d qc rc cx srvs ev st" and ?fin = "sv_run d qc rc cx srvs (ev # evs) st"
  let ?n = "\<lambda>sid ms. length (filter (\<lambda>m. stream_id (header (sm_msg m)) = sid) ms)"
  have run: "?fin = sv_run d qc rc cx srvs evs ?st" by (simp add: sv_run_def)
  obtain new1 where 1: "sv_tx ?st = sv_tx st @ new1" "\<forall>m \<in> set new1. is_answer (sm_msg m)"
    "\<And>sid. ?n sid new1 + tasks_of sid ?st \<le> tasks_of sid st + (if ev_sid ev = Some sid then 1 else 0)"
    using sv_event_answers [of d qc rc cx srvs ev st] by blast
  obtain new2 where 2: "sv_tx ?fin = sv_tx ?st @ new2"
    "\<forall>m \<in> set new2. is_answer (sm_msg m)"
    "\<And>sid. ?n sid new2 + tasks_of sid ?fin \<le> tasks_of sid ?st + length (filter (\<lambda>ev. ev_sid ev = Some sid) evs)"
    using Cons.IH [of ?st] unfolding run by blast
  have "?n sid (new1 @ new2) + tasks_of sid ?fin \<le> tasks_of sid st + length (filter (\<lambda>ev. ev_sid ev = Some sid) (ev # evs))" for sid
    using 1(3) [of sid] 2(3) [of sid] by (auto split: if_splits)
  with 1(1,2) 2(1,2) show ?case
    by (intro exI [of _ "new1 @ new2"]) auto
qed

text \<open>The path of a request through the reader.\<close>

lemma sv_handle_request:
  assumes "\<not> is_shutdown (handler_shutdown st)"
    and "inbound cx (sv_xst st) msg True = (Ok (), t', msg')"
    and "mh_type (header msg) = MESSAGE_TYPE_REQUEST" and "odd (stream_id (header msg))"
    and "handle_request d qc cx srvs early msg' (st\<lparr>sv_xst := t'\<rparr>) = (res, st1)"
  shows "sv_handle_msg d qc rc cx srvs env early msg st = hc_reply d rc cx env (stream_id (header msg)) res st1"
proof -
  have "stream_id (header msg') = stream_id (header msg)" "mh_type (header msg') = MESSAGE_TYPE_REQUEST"
    using inbound_ok(2) [OF assms(2)] assms(3) by (simp_all add: same_route_def)
  moreover have "stream_id (header msg) mod 2 = 1"
    using assms(4) by (simp add: odd_iff_mod_2_eq_one)
  ultimately show ?thesis
    using assms by (simp add: sv_handle_msg_def hc_handle_msg_def)
qed

definition sample_env :: send_env where
  "sample_env = \<lparr>try_reserve = True, reserve = Never, try_lock = True, lock = Never, ack = Never, chan = 0\<rparr>"

text \<open>
  On a connection that has read any frames, the task of a \<open>DATA\<close> frame of a registered stream finds the stream's own channel, and once there is room
  puts the message there and ends without an answer.
\<close>

lemma data_task_delivers:
  assumes "st = fst (conn_run (server_delegate d qc rc cx srvs env early) evs (server_conn_new t0))"
    and "i < length (sv_tasks st)" and "sv_tasks st ! i = Lookup msg" and "sv_streams st (stream_id (header msg)) = Some mb" and "sv_room mb st"
  shows "hc_data_step rc cx env' i (hc_data_step rc cx env i st) =
    st\<lparr>sv_tasks := remove_nth i (sv_tasks st), sv_mail := (sv_mail st)(mb := sv_mail st mb @ [Ok msg])\<rparr>"
proof -
  have "sv_inv st" unfolding assms(1) by (rule sv_delegate.conn_run_inv [OF sv_inv_new])
  with assms(4) have "sv_rx_alive st mb" by (auto simp: sv_inv_def)
  with assms(2-5) show ?thesis
    by (simp add: hc_data_step_def sv_room_def sv_mail_send_def hc_task_end_def remove_nth_def)
qed

definition one_stream :: "unit services" where
  "one_stream = [req_service test_request \<mapsto> \<lparr>methods = Map.empty,
     svc_streams = [req_method test_request \<mapsto> (\<lambda>ctx si. None)]\<rparr>]"

definition open_frame :: gen_message where
  "open_frame = \<lparr>header = \<lparr>mh_length = 67, stream_id = 1, mh_type = MESSAGE_TYPE_REQUEST,
     flags = FLAG_REMOTE_OPEN OR FLAG_NO_DATA\<rparr>, payload = PROTOBUF_REQUEST\<rparr>"

definition no_ctx :: "(unit, unit) conn_ctx" where
  "no_ctx = conn_ctx_default"

text \<open>A stream is opened, data arrives for it and is looked up, its handler ends, and the data that comes too late is answered.\<close>

definition late_data :: "server_event list" where
  "late_data = [SvFrame sample_env False open_frame, SvFrame sample_env False (gen_new_data 1 [9]), SvTask sample_env 0,
     SvDone sample_env 1 0 ''/s/m'' (Inr (Ok None)), SvTask sample_env 0, SvDisconnect Eof]"

theorem server_answers_witness:
  "\<exists>new. sv_tx (sv_run plain_display request_codec response_codec no_ctx one_stream late_data (server_conn_new ())) = new
     \<and> (\<forall>m \<in> set new. is_answer (sm_msg m))
     \<and> length (filter (\<lambda>m. stream_id (header (sm_msg m)) = 1) new) \<le> 3
     \<and> length (filter (\<lambda>m. stream_id (header (sm_msg m)) = 3) new) = 0"
proof -
  let ?fin = "sv_run plain_display request_codec response_codec no_ctx one_stream late_data (server_conn_new ())"
  obtain new where new: "sv_tx ?fin = sv_tx (server_conn_new ()) @ new" "\<forall>m \<in> set new. is_answer (sm_msg m)"
    "\<And>sid. length (filter (\<lambda>m. stream_id (header (sm_msg m)) = sid) new) + tasks_of sid ?fin
        \<le> tasks_of sid (server_conn_new ()) + length (filter (\<lambda>ev. ev_sid ev = Some sid) late_data)"
    using server_answers [of plain_display request_codec response_codec no_ctx one_stream late_data "server_conn_new ()"]
    by blast
  have "length (filter (\<lambda>ev. ev_sid ev = Some 1) late_data) = 3" "length (filter (\<lambda>ev. ev_sid ev = Some 3) late_data) = 0"
    by (simp_all add: late_data_def open_frame_def wire_simps)
  moreover have "tasks_of sid (server_conn_new ()) = 0" for sid by (simp add: tasks_of_def server_conn_new_def)
  ultimately show ?thesis
    using new(1,2) new(3) [of 1] new(3) [of 3] by (simp add: server_conn_new_def)
qed

text \<open>
  C25: Unauthenticated frames and frames after shutdown have no effect. A frame that fails the
  inbound pipeline changes nothing of the connection but the transform's own state, whatever its
  header claims; after a disconnect, no frame changes anything at all.
\<close>

theorem server_drops_unauthenticated:
  assumes "\<not> is_ok (fst (inbound cx (sv_xst st) msg (mh_type (header msg) = MESSAGE_TYPE_REQUEST)))
    \<or> is_shutdown (handler_shutdown st)"
  shows "\<exists>t'. sv_handle_msg d qc rc cx srvs env early msg st = st\<lparr>sv_xst := t'\<rparr>
    \<and> (is_shutdown (handler_shutdown st) \<longrightarrow> t' = sv_xst st)"
proof -
  obtain r t' m' where i: "inbound cx (sv_xst st) msg (mh_type (header msg) = MESSAGE_TYPE_REQUEST) = (r, t', m')"
    by (metis surj_pair)
  show ?thesis
  proof (cases "is_shutdown (handler_shutdown st)")
    case True
    then show ?thesis by (intro exI [of _ "sv_xst st"]) (simp add: sv_handle_msg_def)
  next
    case False
    with assms i obtain e where "r = Err e" by (cases r) auto
    with False i show ?thesis by (intro exI [of _ t']) (simp add: sv_handle_msg_def)
  qed
qed

theorem server_drops_unauthenticated_witness:
  "\<exists>t'. sv_handle_msg plain_display request_codec response_codec no_ctx one_stream sample_env False open_frame
     (sv_disconnect RemoteClosed (server_conn_new ()))
     = (sv_disconnect RemoteClosed (server_conn_new ()))\<lparr>sv_xst := t'\<rparr> \<and> t' = ()"
  using server_drops_unauthenticated [where st = "sv_disconnect RemoteClosed (server_conn_new ())"
      and cx = no_ctx and msg = open_frame and d = plain_display and qc = request_codec
      and rc = response_codec and srvs = one_stream and env = sample_env and early = False]
  by (simp add: sv_disconnect_def notifier_shutdown_def is_shutdown_def)

text \<open>
  Stopping and restarting. Starting a server takes the listener added last and leaves the
  others; stopping it does not panic, gives back exactly that listener and leaves the services and
  the shutdown state as before the start, so that it can be started again; shutting it down
  instead drops the listener and tells every connection to close.
\<close>

theorem server_restart:
  assumes "running s = None" and "listeners s = ls @ [l]"
  shows "\<exists>s1 s2 s3. server_start s = (Ok (), s1) \<and> listeners s1 = ls \<and> running s1 = Some (l, True)
    \<and> stop_listen s1 = Some s2 \<and> s2 = s\<lparr>listeners := [l]\<rparr> \<and> is_ok (fst (server_start s2))
    \<and> server_shutdown s1 = Some s3 \<and> listeners s3 = [] \<and> is_shutdown (svs_shutdown s3)
    \<and> services s3 = services s"
proof -
  let ?s1 = "s\<lparr>listeners := ls, svs_shutdown := waiter_from_shared (svs_shutdown s), running := Some (l, True)\<rparr>"
  have undo: "snd (waiter_drop (waiter_from_shared x)) = x" for x
    by (simp add: waiter_drop_def waiter_from_shared_def)
  have start: "server_start s = (Ok (), ?s1)"
    using assms by (simp add: server_start_def get_listener_def accept_task_ended_def Let_def)
  have stop: "stop_listen ?s1 = Some (s\<lparr>listeners := [l]\<rparr>)"
    using assms(1) by (simp add: stop_listen_def undo)
  have again: "is_ok (fst (server_start (s\<lparr>listeners := [l]\<rparr>)))"
    by (simp add: server_start_def get_listener_def Let_def)
  have down: "server_shutdown ?s1 = Some (s\<lparr>listeners := [],
      svs_shutdown := (svs_shutdown s)\<lparr>sh_shutdown := True\<rparr>\<rparr>)"
    by (simp add: server_shutdown_def stop server_disconnect_def notifier_shutdown_def Let_def)
  show ?thesis
    using start stop again down by (auto simp: is_shutdown_def)
qed

theorem server_restart_witness:
  "\<exists>s1 s2 s3. server_start (add_listener (7::int) server_default) = (Ok (), s1) \<and> listeners s1 = []
    \<and> running s1 = Some (7, True)
    \<and> stop_listen s1 = Some s2 \<and> s2 = (add_listener 7 server_default)\<lparr>listeners := [7]\<rparr>
    \<and> is_ok (fst (server_start s2))
    \<and> server_shutdown s1 = Some s3 \<and> listeners s3 = [] \<and> is_shutdown (svs_shutdown s3)
    \<and> services s3 = services (add_listener (7::int) server_default)"
  by (rule server_restart) (simp_all add: add_listener_def server_default_def)

end
