(* ===== verification/Rpc.thy ===== *)
theory Rpc
  imports AsyncClient AsyncServer
begin

text \<open>
  A unary call from end to end: the generated client stub, the client, the frame in each direction
  through the connection's transform, the server's dispatch, the generated handler, and the answer
  back to the caller (\<open>client.rs\<close>, \<open>server.rs\<close>, \<open>security_extension.rs\<close> and the stub macros of
  \<open>utils.rs\<close> composed).
\<close>

subsection \<open>Streams of the generated clients (utils.rs)\<close>

definition async_client_stream ::
  "request codec \<Rightarrow> ('d, 't) conn_ctx \<Rightarrow> send_env \<Rightarrow> ctx \<Rightarrow> (string \<times> string list) list \<Rightarrow> string \<Rightarrow> string
    \<Rightarrow> 't client \<Rightarrow> (error + stream_inner \<times> call) option \<times> 't client" where
  "async_client_stream c cx env ctx0 md srv meth st =
     new_stream c cx env (async_client_stream_request ctx0 md srv meth) True True st"

definition async_client_stream_send ::
  "request codec \<Rightarrow> ('d, 't) conn_ctx \<Rightarrow> send_env \<Rightarrow> ctx \<Rightarrow> (string \<times> string list) list \<Rightarrow> string \<Rightarrow> string
    \<Rightarrow> 't client \<Rightarrow> (error + stream_inner \<times> call) option \<times> 't client" where
  "async_client_stream_send c cx env ctx0 md srv meth st =
     new_stream c cx env (async_client_stream_request ctx0 md srv meth) True False st"

definition async_client_stream_receive ::
  "request codec \<Rightarrow> 'q codec \<Rightarrow> ('d, 't) conn_ctx \<Rightarrow> send_env \<Rightarrow> ctx \<Rightarrow> (string \<times> string list) list \<Rightarrow> 'q
    \<Rightarrow> string \<Rightarrow> string \<Rightarrow> 't client \<Rightarrow> (error + stream_inner \<times> call) option \<times> 't client" where
  "async_client_stream_receive c qc cx env ctx0 md q srv meth st =
     (case async_client_request qc ctx0 md srv meth q of
        Inl e \<Rightarrow> (Some (Err e), st)
      | Inr creq \<Rightarrow> new_stream c cx env creq False True st)"

subsection \<open>Transforms used in both directions\<close>

text \<open>Encoding does not disturb what the other direction decodes, and the other way round.\<close>

locale duplex_transform = synced_transform +
  assumes out_rev: "\<lbrakk>xf_out xf t p aad = (r, t'); insync u t\<rbrakk> \<Longrightarrow> insync u t'"
    and in_rev: "\<lbrakk>xf_in xf t p aad = (r, t'); insync t u\<rbrakk> \<Longrightarrow> insync t' u"
begin

lemma outbound_rev: "\<lbrakk>outbound cx t m b = (r, t', m'); payload_transform cx = Some xf; insync u t\<rbrakk> \<Longrightarrow> insync u t'"
  by (auto simp: outbound_def Let_def dest: out_rev split: if_splits prod.splits sum.splits)

lemma inbound_rev: "\<lbrakk>inbound cx t m b = (r, t', m'); payload_transform cx = Some xf; insync t u\<rbrakk> \<Longrightarrow> insync t' u"
  by (auto simp: inbound_def dest: in_rev split: prod.splits sum.splits)

end

interpretation seq_duplex: duplex_transform seq_xform seq_insync
  by unfold_locales
    (auto simp: seq_xform_def seq_outbound_def seq_inbound_def seq_insync_def split: if_splits option.splits)

interpretation xor_duplex: duplex_transform xor_xform "\<lambda>t r. True"
  by unfold_locales simp_all

text \<open>The two ends of a connection agree on the transform, or have none.\<close>

definition linked :: "('d, 't) conn_ctx \<Rightarrow> ('e, 't) conn_ctx \<Rightarrow> ('t \<Rightarrow> 't \<Rightarrow> bool) \<Rightarrow> bool" where
  "linked cx cx' insync \<longleftrightarrow>
     payload_transform cx = None \<and> payload_transform cx' = None
     \<or> (\<exists>xf. payload_transform cx = Some xf \<and> payload_transform cx' = Some xf \<and> duplex_transform xf insync)"

lemma linked_sym: "linked cx cx' insync \<Longrightarrow> linked cx' cx insync"
  by (auto simp: linked_def)

lemma max_raw_le: "max_raw_payload_len cx \<le> MESSAGE_LENGTH_MAX"
  by (simp add: max_raw_payload_len_def split: option.split)

lemma linkedE:
  assumes "linked cx cx' insync"
  obtains (plain) "payload_transform cx = None" "payload_transform cx' = None"
    | (coded) xf where "payload_transform cx = Some xf" "payload_transform cx' = Some xf" "synced_transform xf insync" "duplex_transform xf insync"
  using assms unfolding linked_def by (elim disjE exE conjE) (auto intro: plain coded duplex_transform.axioms(1))

text \<open>A frame that one end's pipeline let out passes the other end's and is the original message.\<close>

lemma linked_step:
  assumes l: "linked cx cx' insync" and o: "outbound cx t msg b = (Ok (), t', m')" and h: "honest msg"
    and s: "insync t r" "insync r t"
  shows "\<exists>r'. inbound cx' r m' b' = (Ok (), r', msg) \<and> insync t' r' \<and> insync r' t'"
  using l
proof (cases rule: linkedE)
  case plain
  moreover from this o have "t' = t" "m' = msg" "check_oversize (length (payload msg)) b = Ok ()"
    by (auto simp: outbound_def)
  ultimately show ?thesis using s by (auto simp: inbound_def)
next
  case (coded xf)
  obtain r' where r': "inbound cx' r m' b' = (Ok (), r', msg)" "insync t' r'"
    using synced_transform.outbound_step [OF coded(3) o s(1) h coded(1,2)] by blast
  have "insync r t'" by (rule duplex_transform.outbound_rev [OF coded(4) o coded(1) s(2)])
  then have "insync r' t'" by (rule duplex_transform.inbound_rev [OF coded(4) r'(1) coded(2)])
  with r' show ?thesis by blast
qed

subsection \<open>What a unary call is meant to do\<close>

text \<open>
  The outcome of a request on a table of services: a status for an unknown service or method, a
  missed deadline or a failed handler, and otherwise the handler's response. \<open>None\<close>: the handler
  never returns, or the method is a stream.
\<close>

definition serve_unary ::
  "display \<Rightarrow> ('d, 't) conn_ctx \<Rightarrow> 'd services \<Rightarrow> message_header \<Rightarrow> request \<Rightarrow> (status + response) option" where
  "serve_unary d cx srvs mh req =
     (case srvs (req_service req) of
        None \<Rightarrow> Some (Err (get_status INVALID_ARGUMENT (req_service req @ '' service does not exist'')))
      | Some srv \<Rightarrow>
          (case methods srv (req_method req) of
             Some h \<Rightarrow>
               (case await_deadline (if timeout_nano req = 0 then None else Some (unat (timeout_nano req)))
                       (h (make_context cx mh req) req) of
                  Hangs \<Rightarrow> None
                | Elapsed \<Rightarrow> Some (Err (get_status DEADLINE_EXCEEDED ''timeout''))
                | Done (Inl e) \<Rightarrow> Some (Err (get_status UNKNOWN (error_to_string d e)))
                | Done (Inr resp) \<Rightarrow> Some (Ok resp))
           | None \<Rightarrow>
               (if svc_streams srv (req_method req) = None
                then Some (Err (get_status UNIMPLEMENTED (req_method req @ '' method''))) else None)))"

text \<open>The response that carries an outcome, and what the caller makes of it.\<close>

fun reply_of :: "status + response \<Rightarrow> response" where
  "reply_of (Inl s) = init_status s"
| "reply_of (Inr resp) = resp"

definition caller_view :: "status + response \<Rightarrow> error + response" where
  "caller_view out =
     (case non_ok (reply_of out) of Some s \<Rightarrow> Err (RpcStatus s) | None \<Rightarrow> Ok (reply_of out))"

lemma handle_request_unary:
  assumes "message_try_from qc g = Ok \<lparr>msg_header = mh, msg_payload = req\<rparr>"
    and "serve_unary d cx srvs mh req = Some out"
  shows "handle_request d qc cx srvs early g st = (Some (map_sum id Some out), st)"
proof (cases "srvs (req_service req)")
  case None
  with assms show ?thesis by (auto simp: handle_request_def serve_unary_def)
next
  case (Some srv)
  show ?thesis
  proof (cases "methods srv (req_method req)")
    case None
    with Some assms show ?thesis
      by (auto simp: handle_request_def serve_unary_def get_method_def get_stream_def split: if_splits)
  next
    case (Some h)
    define w where "w = await_deadline (if timeout_nano req = 0 then None else Some (unat (timeout_nano req)))
      (h (make_context cx mh req) req)"
    have "handle_request d qc cx srvs early g st = (handle_method d cx h \<lparr>msg_header = mh, msg_payload = req\<rparr>, st)"
      using assms(1) Some \<open>srvs (req_service req) = Some srv\<close> by (simp add: handle_request_def get_method_def)
    moreover have "serve_unary d cx srvs mh req = (case w of Hangs \<Rightarrow> None
        | Elapsed \<Rightarrow> Some (Err (get_status DEADLINE_EXCEEDED ''timeout''))
        | Done (Inl e) \<Rightarrow> Some (Err (get_status UNKNOWN (error_to_string d e)))
        | Done (Inr resp) \<Rightarrow> Some (Ok resp))"
      using Some \<open>srvs (req_service req) = Some srv\<close> by (simp add: serve_unary_def w_def)
    ultimately show ?thesis
      using assms(2) by (auto simp: handle_method_def Let_def w_def [symmetric] split: waited.splits sum.splits)
  qed
qed

subsection \<open>The steps of a call\<close>

lemma request_frame:
  assumes "codec_laws qc dq" and "request_start qc now req st = (Ok (g, ca), st')"
  shows "honest g" and "stream_id (header g) = ca_sid ca" and "mh_type (header g) = MESSAGE_TYPE_REQUEST"
    and "message_try_from qc g = Ok \<lparr>msg_header = header g, msg_payload = req\<rparr>"
proof -
  have "encode_request qc (ca_sid ca) req = Ok g"
    using assms(2) by (auto simp: request_start_def alloc_stream_id_def register_stream_def split: sum.splits)
  then obtain msg where msg: "message_new_request qc (ca_sid ca) req = Ok msg" "gen_try_from qc msg = Ok g"
    and len: "check_oversize (length (payload g)) False = Ok ()"
    by (auto simp: encode_request_def rbind_Ok_iff)
  have short: "length (payload g) < 2 ^ 32"
    using len by (simp add: MESSAGE_LENGTH_MAX_def)
  have hdr: "header g = msg_header msg" "msg_payload msg = req"
    using msg by (auto simp: gen_try_from_def message_new_request_def rbind_Ok_iff Let_def)
  note ok = codec_laws.new_request_frame_ok [OF assms(1) msg short]
  show "stream_id (header g) = ca_sid ca" "mh_type (header g) = MESSAGE_TYPE_REQUEST" by (fact ok(2), fact ok(3))
  show "honest g" using ok(1) by (auto simp: honest_def frame_ok_def dest!: arg_cong [where f = "of_nat :: nat \<Rightarrow> u32"])
  show "message_try_from qc g = Ok \<lparr>msg_header = header g, msg_payload = req\<rparr>"
    using codec_laws.try_from_roundtrip [OF assms(1) msg(2)] hdr by simp
qed

lemma request_sent:
  assumes "request_send cx env ca g st = (Some (Ok ()), st')"
  obtains m where "outbound cx (xst st) g False = (Ok (), xst st', sm_msg m)" "req_tx st' = req_tx st @ [m]"
    "streams st' = streams st" "mail st' = mail st" "rx_alive st' = rx_alive st"
proof -
  obtain t q where s: "transform_send_inner cx env False False
      (Some \<lparr>mc_deadline = ca_deadline ca, mc_response_tx = ca_mb ca\<rparr>) g (xst st) (req_tx st) = (Some (Ok ()), t, q)"
    and st': "st' = st\<lparr>xst := t, req_tx := q\<rparr>"
    using assms by (auto simp: request_send_def transform_send_with_control_def split: prod.splits option.splits sum.splits)
  from s show thesis
  proof (cases rule: transform_send_cases)
    case (queued m')
    with st' that show ?thesis by (metis client.select_convs client.surjective client.update_convs enqueue_msg)
  qed simp_all
qed

lemma respond_sent:
  assumes "sv_tx (snd (respond rc cx env sid resp st)) = sv_tx st @ [m]"
    and "c_encode rc resp = Ok p" and "length p \<le> max_raw_payload_len cx"
  shows "outbound cx (sv_xst st) (gen_new_response sid p) True
    = (Ok (), sv_xst (snd (respond rc cx env sid resp st)), sm_msg m)"
proof -
  obtain r t q where s: "transform_send_inner cx env True False None (gen_new_response sid p) (sv_xst st) (sv_tx st) = (r, t, q)"
    by (metis surj_pair)
  have e: "snd (respond rc cx env sid resp st) = st\<lparr>sv_xst := t, sv_tx := q\<rparr>"
    using assms(2,3) s
    by (simp add: respond_def respond_payload_def sv_send_def transform_send_def Let_def)
  from s show ?thesis
  proof (cases rule: transform_send_cases)
    case (queued m')
    with assms(1) e show ?thesis by auto
  qed (use assms(1) e in simp_all)
qed

lemma reply_sent:
  assumes "codec_laws rc dr" and "c_encode rc (reply_of out) = Ok p" and "length p \<le> max_raw_payload_len cx"
    and "sv_tx (hc_reply d rc cx env sid (Some (map_sum id Some out)) st) = sv_tx st @ [m]"
  shows "outbound cx (sv_xst st) (gen_new_response sid p) True
    = (Ok (), sv_xst (hc_reply d rc cx env sid (Some (map_sum id Some out)) st), sm_msg m)"
proof -
  have len: "length p \<le> MESSAGE_LENGTH_MAX" using assms(3) max_raw_le [of cx] by linarith
  then have "unat (c_size rc (reply_of out)) = length p"
    using codec_laws.size_encode [OF assms(1,2)] by (simp add: unat_of_nat take_bit_eq_mod MESSAGE_LENGTH_MAX_def)
  with len have "hc_reply d rc cx env sid (Some (map_sum id Some out)) st = snd (respond rc cx env sid (reply_of out) st)"
    by (cases out) (simp_all add: hc_reply_def respond_with_status_def)
  with respond_sent [OF _ assms(2,3)] assms(4) show ?thesis by simp
qed

text \<open>What the waiting caller gets when its response frame arrives.\<close>

lemma response_delivered:
  assumes "codec_laws rc dr" and "c_encode rc (reply_of out) = Ok p"
    and "inbound cx (xst st) m False = (Ok (), t', gen_new_response (ca_sid ca) p)"
    and "stream_id (header m) = ca_sid ca"
    and "streams st (ca_sid ca) = Some (ca_mb ca)" and "rx_alive st (ca_mb ca)" and "mail st (ca_mb ca) = []"
    and "case ca_deadline ca of Some dl \<Rightarrow> tm \<le> dl | None \<Rightarrow> True"
    and "st' = cl_handle_msg cx dbg m st"
  shows "mail st' (ca_mb ca) = [Ok (gen_new_response (ca_sid ca) p)] \<and> xst st' = t'
    \<and> request_finish rc (At tm (Some (Ok (gen_new_response (ca_sid ca) p)))) ca st'
        = (Some (caller_view out), request_leave True ca st')
    \<and> streams st' (ca_sid ca) = None"
proof -
  let ?r = "gen_new_response (ca_sid ca) p"
  have r: "routable (header ?r)" "ends_stream (header ?r)" "stream_id (header ?r) = ca_sid ca" "payload ?r = p"
    by (simp_all add: routable_def ends_stream_def wire_simps)
  have st': "mail st' (ca_mb ca) = [Ok ?r]" "xst st' = t'" "streams st' (ca_sid ca) = None"
    using cl_handle_msg_ok [OF assms(3) r(1), of dbg] r assms(4-7,9)
    by (simp_all add: cl_defs Let_def)
  have dec: "c_decode rc p = Ok (reply_of out)" by (rule codec_laws.decode_encode [OF assms(1,2)])
  have "await_deadline (ca_deadline ca) (At tm (Some (Ok ?r :: error + gen_message))) = Done (Some (Ok ?r))"
    using assms(8) by (cases "ca_deadline ca") simp_all
  then have "request_finish rc (At tm (Some (Ok ?r))) ca st' = (Some (caller_view out), request_leave True ca st')"
    using dec r(4)
    by (auto simp: request_finish_def request_result_def caller_view_def split: option.split)
  with st' show ?thesis by simp
qed

subsection \<open>Properties\<close>

text \<open>
  C1: A unary call does what it is meant to do, end to end. Take any client and server state, with
  both ends of the connection linked (no transform, or the same contract-keeping one, in step in
  both directions), codecs that keep their contract, and an odd next stream id. If the client starts and sends a
  request, and the server handles that frame and queues an answer that fits the safe limit, then the
  frame the server queued, read by the client, ends the waiting call with exactly the outcome of the
  request on the server's table of services: the handler's response, or the status for an unknown
  service, an unknown method, a missed deadline or a failed handler. The registration is gone and
  both directions of the connection are still in step.
\<close>

theorem unary_rpc:
  assumes link: "linked cx cx' insync" and qc: "codec_laws qc dq" and rc: "codec_laws rc dr"
    and start: "request_start qc now req c0 = (Ok (g, ca), c1)" and odd: "odd (next_stream_id c0)"
    and send: "request_send cx env ca g c1 = (Some (Ok ()), c2)" and queued: "req_tx c2 = req_tx c1 @ [m]"
    and sync: "insync (xst c1) (sv_xst s0)" "insync (sv_xst s0) (xst c1)"
    and up: "\<not> is_shutdown (handler_shutdown s0)"
    and serve: "serve_unary d cx' srvs (header g) req = Some out"
    and fits: "c_encode rc (reply_of out) = Ok p" "length p \<le> max_raw_payload_len cx'"
    and handle: "s1 = sv_handle_msg d qc rc cx' srvs env' early (sm_msg m) s0"
    and answer: "sv_tx s1 = sv_tx s0 @ [m']"
    and intime: "case ca_deadline ca of Some dl \<Rightarrow> tm \<le> dl | None \<Rightarrow> True"
    and read: "c3 = cl_handle_msg cx dbg (sm_msg m') c2"
  shows "\<exists>r. mail c3 (ca_mb ca) = [Ok r]
    \<and> request_finish rc (At tm (Some (Ok r))) ca c3 = (Some (caller_view out), request_leave True ca c3)
    \<and> streams c3 (ca_sid ca) = None \<and> insync (xst c3) (sv_xst s1) \<and> insync (sv_xst s1) (xst c3)"
proof -
  note g = request_frame [OF qc start]
  note c1 = request_start_ok [OF start]
  from request_sent [OF send] obtain m0 where c2: "outbound cx (xst c1) g False = (Ok (), xst c2, sm_msg m0)"
      "req_tx c2 = req_tx c1 @ [m0]" "streams c2 = streams c1" "mail c2 = mail c1" "rx_alive c2 = rx_alive c1"
    by blast
  with queued have m: "m0 = m" by simp
  obtain t1 where t1: "inbound cx' (sv_xst s0) (sm_msg m) True = (Ok (), t1, g)"
      "insync (xst c2) t1" "insync t1 (xst c2)"
    using linked_step [OF link c2(1) g(1) sync] m by blast
  have route: "stream_id (header (sm_msg m)) = ca_sid ca" "mh_type (header (sm_msg m)) = MESSAGE_TYPE_REQUEST"
    using outbound_ok(2) [OF c2(1) g(1)] g(2,3) m by (simp_all add: same_route_def)
  have s1: "s1 = hc_reply d rc cx' env' (ca_sid ca) (Some (map_sum id Some out)) (s0\<lparr>sv_xst := t1\<rparr>)"
    using sv_handle_request [OF up t1(1) route(2) _ handle_request_unary [OF g(4) serve]] route odd c1(1) handle
    by simp
  have o: "outbound cx' t1 (gen_new_response (ca_sid ca) p) True = (Ok (), sv_xst s1, sm_msg m')"
    using reply_sent [OF rc fits, of d env' "ca_sid ca" "s0\<lparr>sv_xst := t1\<rparr>" m'] answer s1 by simp
  obtain t2 where t2: "inbound cx (xst c2) (sm_msg m') False = (Ok (), t2, gen_new_response (ca_sid ca) p)"
      "insync (sv_xst s1) t2" "insync t2 (sv_xst s1)"
    using linked_step [OF linked_sym [OF link] o honest_new(2) t1(3,2)] by blast
  have sid: "stream_id (header (sm_msg m')) = ca_sid ca"
    using outbound_ok(2) [OF o honest_new(2)] by (simp add: same_route_def wire_simps)
  from response_delivered [OF rc fits(1) t2(1) sid _ _ _ intime read] c1 c2 t2(2,3)
  show ?thesis by auto
qed

definition ok_services :: "unit services" where
  "ok_services = [[] \<mapsto> \<lparr>methods = [[] \<mapsto> (\<lambda>ctx0 req. At 0 (Ok response_default))], svc_streams = Map.empty\<rparr>]"

lemma seq_start_request:
  "\<exists>c1. request_start request_codec 0 request_default (client_new seq_start) = (Ok (sample_req, sample_call), c1)
     \<and> xst c1 = seq_start \<and> req_tx c1 = []"
  by (simp add: request_start_def alloc_stream_id_def client_new_def encode_request_def
      message_new_request_def request_codec_def pb_codec_def request_fields_def request_default_def
      len_field_def int_field_def str_bytes_def write_fields_def gen_try_from_def register_stream_def
      sample_req_def sample_call_def request_deadline_def wire_simps)

lemma seq_send_queues:
  assumes "xst st = seq_start"
  shows "\<exists>m c2. request_send seq_ctx free_env sample_call sample_req st = (Some (Ok ()), c2)
    \<and> req_tx c2 = req_tx st @ [m]"
  using assms
  by (simp add: request_send_def transform_send_with_control_def transform_send_inner_def seq_ctx_def
      free_env_def reserve_message_slot_def acquire_lock_def outbound_def sample_req_def seq_xform_def
      max_raw_payload_len_def DEFAULT_MAX_OVERHEAD_def seq_outbound_def serialize_aad_def)

lemma seq_respond_queues:
  "c_encode rc resp = Ok [] \<Longrightarrow> \<exists>m. sv_tx (snd (respond rc seq_ctx free_env sid resp st)) = sv_tx st @ [m]"
  by (simp add: respond_def respond_payload_def sv_send_def transform_send_def transform_send_inner_def seq_ctx_def
      free_env_def reserve_message_slot_def acquire_lock_def outbound_def seq_xform_def
      max_raw_payload_len_def DEFAULT_MAX_OVERHEAD_def seq_outbound_def serialize_aad_def wire_simps Let_def)

theorem unary_rpc_witness:
  "\<exists>c1 c2 m s1 m' c3 r. request_start request_codec 0 request_default (client_new seq_start)
       = (Ok (sample_req, sample_call), c1)
     \<and> request_send seq_ctx free_env sample_call sample_req c1 = (Some (Ok ()), c2) \<and> req_tx c2 = [m]
     \<and> s1 = sv_handle_msg plain_display request_codec response_codec seq_ctx ok_services free_env False
         (sm_msg m) (server_conn_new seq_start) \<and> sv_tx s1 = [m']
     \<and> c3 = cl_handle_msg seq_ctx dbg0 (sm_msg m') c2 \<and> mail c3 0 = [Ok r]
     \<and> fst (request_finish response_codec (At 9 (Some (Ok r))) sample_call c3) = Some (Ok response_default)"
proof -
  obtain c1 where c1: "request_start request_codec 0 request_default (client_new seq_start)
      = (Ok (sample_req, sample_call), c1)" "xst c1 = seq_start" "req_tx c1 = []"
    using seq_start_request by blast
  obtain m c2 where c2: "request_send seq_ctx free_env sample_call sample_req c1 = (Some (Ok ()), c2)"
      "req_tx c2 = req_tx c1 @ [m]"
    using seq_send_queues [OF c1(2)] by blast
  have link: "linked seq_ctx seq_ctx seq_insync"
    using seq_duplex.duplex_transform_axioms by (simp add: linked_def seq_ctx_def)
  have s0: "sv_xst (server_conn_new seq_start) = seq_start" "\<not> is_shutdown (handler_shutdown (server_conn_new seq_start))"
      "sv_tx (server_conn_new seq_start) = []"
    by (simp_all add: server_conn_new_def is_shutdown_def shared_with_timeout_def)
  have sync: "seq_insync (xst c1) (sv_xst (server_conn_new seq_start))"
      "seq_insync (sv_xst (server_conn_new seq_start)) (xst c1)"
    by (simp_all add: seq_insync_def c1(2) s0(1)) (simp_all add: seq_start_def)
  have serve: "serve_unary plain_display seq_ctx ok_services (header sample_req) request_default = Some (Ok response_default)"
    by (simp add: serve_unary_def ok_services_def request_default_def)
  have enc: "c_encode response_codec response_default = Ok []"
    by (simp add: response_codec_def pb_codec_def response_fields_def response_default_def len_field_def
        int_field_def write_fields_def)
  define s1 where "s1 = sv_handle_msg plain_display request_codec response_codec seq_ctx ok_services free_env False
      (sm_msg m) (server_conn_new seq_start)"
  note g = request_frame [OF req_codec.codec_laws_axioms c1(1)]
  obtain t1 where t1: "inbound seq_ctx (sv_xst (server_conn_new seq_start)) (sm_msg m) True = (Ok (), t1, sample_req)"
    using request_sent [OF c2(1)] linked_step [OF link _ g(1) sync] c2(2) by (metis append1_eq_conv)
  have route: "mh_type (header (sm_msg m)) = MESSAGE_TYPE_REQUEST" "stream_id (header (sm_msg m)) = 1"
    using inbound_ok(2) [OF t1] g(2,3) by (simp_all add: same_route_def sample_call_def)
  have "s1 = hc_reply plain_display response_codec seq_ctx free_env 1 (Some (Ok (Some response_default)))
      ((server_conn_new seq_start)\<lparr>sv_xst := t1\<rparr>)"
    unfolding s1_def
    using sv_handle_request [OF s0(2) t1 route(1) _ handle_request_unary [OF g(4) serve]] route(2) by simp
  also have "\<dots> = snd (respond response_codec seq_ctx free_env 1 response_default
      ((server_conn_new seq_start)\<lparr>sv_xst := t1\<rparr>))"
    using resp_codec.size_encode [OF enc] by (simp add: hc_reply_def)
  finally obtain m' where m': "sv_tx s1 = sv_tx (server_conn_new seq_start) @ [m']"
    using seq_respond_queues [OF enc, of 1 "(server_conn_new seq_start)\<lparr>sv_xst := t1\<rparr>"] by auto
  have "odd (next_stream_id (client_new seq_start))" by (simp add: client_new_def)
  from unary_rpc [OF link req_codec.codec_laws_axioms resp_codec.codec_laws_axioms c1(1) this c2 sync s0(2) serve
      _ _ s1_def m' _ refl, of "[]" 9 dbg0] enc
  obtain r where "mail (cl_handle_msg seq_ctx dbg0 (sm_msg m') c2) 0 = [Ok r]"
    "fst (request_finish response_codec (At 9 (Some (Ok r))) sample_call
       (cl_handle_msg seq_ctx dbg0 (sm_msg m') c2)) = Some (Ok response_default)"
    by (auto simp: sample_call_def caller_view_def non_ok_def response_default_def get_status_def)
  with c1(1,3) c2 s1_def m' s0(3) show ?thesis by auto
qed

text \<open>What a typed call returns, in terms of the service function's own result.\<close>

definition typed_view :: "display \<Rightarrow> error + 'p \<Rightarrow> error + 'p" where
  "typed_view d r =
     (case r of
        Inr rep \<Rightarrow> Ok rep
      | Inl (RpcStatus s) \<Rightarrow> Err (RpcStatus s)
      | Inl e \<Rightarrow> Err (RpcStatus (get_status UNKNOWN (dbg_error d e))))"

text \<open>What a client stub makes of the response that a generated handler builds from a service function's result.\<close>

lemma handler_reply_view:
  assumes "codec_laws pc dp" and "(case r of Inr rep \<Rightarrow> ok_response pc rep | Inl x \<Rightarrow> Ok (status_response d x)) = Ok resp"
    and "\<forall>s. r = Err (RpcStatus s) \<longrightarrow> st_code s \<noteq> OK"
  shows "async_client_response pc dp (caller_view (Ok resp)) = typed_view d r"
proof (cases r)
  case (Inr rep)
  with assms(2) obtain ps where ps: "c_encode pc rep = Ok ps" "resp = response_set_payload ps (init_status (get_status OK []))"
    by (auto simp: ok_response_def rbind_Ok_iff)
  then show ?thesis
    using Inr codec_laws.decode_encode [OF assms(1) ps(1)] codec_laws.merge_default [OF assms(1)]
    by (simp add: caller_view_def non_ok_def typed_view_def async_client_response_def
        response_set_payload_def init_status_def response_set_status_def get_status_def)
next
  case (Inl e)
  with assms(2) have resp: "resp = status_response d e" by simp
  show ?thesis
    using Inl assms(3)
    by (cases e) (auto simp: resp status_response_def caller_view_def non_ok_def typed_view_def
        async_client_response_def init_status_def response_set_status_def get_status_def)
qed

text \<open>
  C24: The generated stubs are transparent. For typed messages with codecs that keep their contract:
  the request that the client stub builds, given to the generated handler of a service function, and
  the handler's response given back to the client stub, amount to calling the service function on
  the original message: its result comes back unchanged, a failure with a (non-OK) status as that
  status, and any other failure as status \<open>UNKNOWN\<close> with its debug text. The handler sees the caller's
  service and method names, timeout and metadata.
\<close>

theorem stubs_transparent:
  assumes "codec_laws qc dq" and "codec_laws pc dp"
    and "async_client_request qc c md srv meth q = Ok req"
    and "async_request_handler d qc pc f ctx0 req = Ok resp"
    and "\<forall>s. f ctx0 q = Err (RpcStatus s) \<longrightarrow> st_code s \<noteq> OK"
  shows "async_client_response pc dp (caller_view (Ok resp)) = typed_view d (f ctx0 q)
    \<and> req_service req = srv \<and> req_method req = meth \<and> timeout_nano req = ctx_timeout_nano c
    \<and> from_pb (metadata req) = from_pb (to_pb md)"
proof -
  obtain bs where bs: "c_encode qc q = Ok bs"
      "req = request_set_payload bs (init_request srv meth (ctx_timeout_nano c) (to_pb md))"
    using assms(3) by (auto simp: async_client_request_def rbind_Ok_iff)
  have q: "c_decode qc (req_payload req) = Ok q"
    using codec_laws.decode_encode [OF assms(1) bs(1)] bs(2) by (simp add: request_set_payload_def)
  have "(case f ctx0 q of Inr rep \<Rightarrow> ok_response pc rep | Inl x \<Rightarrow> Ok (status_response d x)) = Ok resp"
    using assms(4) q by (simp add: async_request_handler_def)
  from handler_reply_view [OF assms(2) this assms(5)]
  show ?thesis using bs(2) by (simp add: request_set_payload_def init_request_def)
qed

theorem stubs_transparent_witness:
  "\<exists>req resp. async_client_request response_codec (with_timeout 5) [] ''s'' ''m'' response_default = Ok req
     \<and> async_request_handler plain_display response_codec response_codec (\<lambda>ctx0 q. Ok q)
         (make_context no_ctx (header open_frame) test_request) req = Ok resp
     \<and> async_client_response response_codec response_default (caller_view (Ok resp)) = Ok response_default"
proof -
  have enc: "c_encode response_codec response_default = Ok []"
    by (simp add: response_codec_def pb_codec_def response_fields_def response_default_def len_field_def
        int_field_def write_fields_def)
  have dec: "c_decode response_codec [] = Ok response_default"
    by (rule resp_codec.decode_encode [OF enc])
  have 1: "async_client_request response_codec (with_timeout 5) [] ''s'' ''m'' response_default
      = Ok (request_set_payload [] (init_request ''s'' ''m'' (ctx_timeout_nano (with_timeout 5)) (to_pb [])))"
    by (simp add: async_client_request_def enc)
  have 2: "async_request_handler plain_display response_codec response_codec (\<lambda>ctx0 q. Ok q)
      (make_context no_ctx (header open_frame) test_request)
      (request_set_payload [] (init_request ''s'' ''m'' (ctx_timeout_nano (with_timeout 5)) (to_pb [])))
      = Ok (response_set_payload [] (init_status (get_status OK [])))"
    by (simp add: async_request_handler_def request_set_payload_def dec ok_response_def enc)
  from stubs_transparent [OF resp_codec.codec_laws_axioms resp_codec.codec_laws_axioms 1 2] 1 2
  show ?thesis by (simp add: typed_view_def)
qed

end
