(* ===== verification/StreamRpc.thy ===== *)
theory StreamRpc
  imports Rpc "HOL-Library.Multiset"
begin

text \<open>
  The typed stream handles of \<open>src/src/asynchronous/stream.rs\<close> that generated bindings use, and a stream from
  end to end: the client's handle, the connection's transform, the server's reader and the handle of the stream's
  handler, among whatever else the two ends do.
\<close>

subsection \<open>Handles of the client\<close>

record client_stream =
  cs_tx :: stream_sender
  cs_rx :: stream_receiver

definition client_stream_new :: "stream_inner \<Rightarrow> client_stream" where
  "client_stream_new si = (case stream_split si of (tx, rx) \<Rightarrow> \<lparr>cs_tx = tx, cs_rx = rx\<rparr>)"

definition client_stream_split :: "client_stream \<Rightarrow> stream_sender \<times> stream_receiver" where
  "client_stream_split s = (cs_tx s, cs_rx s)"

definition cs_sender_close_send ::
  "('d, 't) conn_ctx \<Rightarrow> send_env \<Rightarrow> stream_sender \<Rightarrow> 't \<Rightarrow> sending_message list \<Rightarrow> 't send_result \<times> stream_sender" where
  "cs_sender_close_send cx env tx t q = stream_close_send cx env tx t q"

definition client_stream_send ::
  "'q codec \<Rightarrow> ('d, 't) conn_ctx \<Rightarrow> send_env \<Rightarrow> client_stream \<Rightarrow> 'q \<Rightarrow> 't \<Rightarrow> sending_message list \<Rightarrow> 't send_result" where
  "client_stream_send c cx env s req t q = typed_send c cx env (cs_tx s) req t q"

definition client_stream_close_send ::
  "('d, 't) conn_ctx \<Rightarrow> send_env \<Rightarrow> client_stream \<Rightarrow> 't \<Rightarrow> sending_message list \<Rightarrow> 't send_result \<times> client_stream" where
  "client_stream_close_send cx env s t q =
     (case cs_sender_close_send cx env (cs_tx s) t q of (r, tx) \<Rightarrow> (r, s\<lparr>cs_tx := tx\<rparr>))"

definition client_stream_recv ::
  "'p codec \<Rightarrow> response codec \<Rightarrow> client_stream \<Rightarrow> (error + gen_message) list
    \<Rightarrow> (error + 'p) \<times> client_stream \<times> (error + gen_message) list" where
  "client_stream_recv c rc s chan_rx =
     (case cs_recv c rc (cs_rx s) chan_rx of (res, rx, chan_rx') \<Rightarrow> (res, s\<lparr>cs_rx := rx\<rparr>, chan_rx'))"

text \<open>\<open>ClientStreamSender\<close>; its \<open>close_and_recv\<close> is in \<open>Stream\<close>.\<close>

definition client_stream_sender_new :: "stream_inner \<Rightarrow> stream_inner" where
  "client_stream_sender_new si = si"

definition client_stream_sender_send ::
  "'q codec \<Rightarrow> ('d, 't) conn_ctx \<Rightarrow> send_env \<Rightarrow> stream_inner \<Rightarrow> 'q \<Rightarrow> 't \<Rightarrow> sending_message list \<Rightarrow> 't send_result" where
  "client_stream_sender_send c cx env si req t q =
     (case c_encode c req of
        Inl e \<Rightarrow> (Some (Err (err_to_others ''Encode message failed.'' e)), t, q)
      | Inr msg_buf \<Rightarrow> stream_send cx env (si_sender si) msg_buf t q)"

text \<open>\<open>ClientStreamReceiver\<close> holds a clone of its client.\<close>

record 'c client_stream_receiver =
  csr_inner :: stream_receiver
  client_guard :: 'c

definition client_stream_receiver_new :: "stream_inner \<Rightarrow> 'c \<Rightarrow> 'c client_stream_receiver" where
  "client_stream_receiver_new si client0 = \<lparr>csr_inner = snd (stream_split si), client_guard = client0\<rparr>"

definition client_stream_receiver_recv ::
  "'p codec \<Rightarrow> response codec \<Rightarrow> 'c client_stream_receiver \<Rightarrow> (error + gen_message) list
    \<Rightarrow> (error + 'p option) \<times> 'c client_stream_receiver \<times> (error + gen_message) list" where
  "client_stream_receiver_recv c rc s chan_rx =
     (case opt_recv c rc (csr_inner s) chan_rx of (res, rx, chan_rx') \<Rightarrow> (res, s\<lparr>csr_inner := rx\<rparr>, chan_rx'))"

subsection \<open>Handles of the server\<close>

record server_stream =
  sst_tx :: stream_sender
  sst_rx :: stream_receiver

definition server_stream_new :: "stream_inner \<Rightarrow> server_stream" where
  "server_stream_new si = (case stream_split si of (tx, rx) \<Rightarrow> \<lparr>sst_tx = tx, sst_rx = rx\<rparr>)"

definition server_stream_split :: "server_stream \<Rightarrow> stream_sender \<times> stream_receiver" where
  "server_stream_split s = (sst_tx s, sst_rx s)"

definition ss_sender_send ::
  "'p codec \<Rightarrow> ('d, 't) conn_ctx \<Rightarrow> send_env \<Rightarrow> stream_sender \<Rightarrow> 'p \<Rightarrow> 't \<Rightarrow> sending_message list \<Rightarrow> 't send_result" where
  "ss_sender_send c cx env tx resp t q =
     (case c_encode c resp of
        Inl e \<Rightarrow> (Some (Err (err_to_others ''Encode message failed.'' e)), t, q)
      | Inr msg_buf \<Rightarrow> stream_send cx env tx msg_buf t q)"

definition server_stream_send ::
  "'p codec \<Rightarrow> ('d, 't) conn_ctx \<Rightarrow> send_env \<Rightarrow> server_stream \<Rightarrow> 'p \<Rightarrow> 't \<Rightarrow> sending_message list \<Rightarrow> 't send_result" where
  "server_stream_send c cx env s resp t q = ss_sender_send c cx env (sst_tx s) resp t q"

definition server_stream_recv ::
  "'q codec \<Rightarrow> response codec \<Rightarrow> server_stream \<Rightarrow> (error + gen_message) list
    \<Rightarrow> (error + 'q option) \<times> server_stream \<times> (error + gen_message) list" where
  "server_stream_recv c rc s chan_rx =
     (case opt_recv c rc (sst_rx s) chan_rx of (res, rx, chan_rx') \<Rightarrow> (res, s\<lparr>sst_rx := rx\<rparr>, chan_rx'))"

definition server_stream_sender_new :: "stream_inner \<Rightarrow> stream_sender" where
  "server_stream_sender_new si = fst (stream_split si)"

definition server_stream_sender_send ::
  "'p codec \<Rightarrow> ('d, 't) conn_ctx \<Rightarrow> send_env \<Rightarrow> stream_sender \<Rightarrow> 'p \<Rightarrow> 't \<Rightarrow> sending_message list \<Rightarrow> 't send_result" where
  "server_stream_sender_send c cx env inner resp t q =
     (case c_encode c resp of
        Inl e \<Rightarrow> (Some (Err (err_to_others ''Encode message failed.'' e)), t, q)
      | Inr msg_buf \<Rightarrow> stream_send cx env inner msg_buf t q)"

definition server_stream_receiver_new :: "stream_inner \<Rightarrow> stream_receiver" where
  "server_stream_receiver_new si = snd (stream_split si)"

definition server_stream_receiver_recv ::
  "'q codec \<Rightarrow> response codec \<Rightarrow> stream_receiver \<Rightarrow> (error + gen_message) list
    \<Rightarrow> (error + 'q option) \<times> stream_receiver \<times> (error + gen_message) list" where
  "server_stream_receiver_recv c rc inner chan_rx = opt_recv c rc inner chan_rx"

text \<open>A handler that receives \<open>n\<close> times.\<close>

fun server_stream_recv_n ::
  "'q codec \<Rightarrow> response codec \<Rightarrow> nat \<Rightarrow> server_stream \<Rightarrow> (error + gen_message) list \<Rightarrow> (error + 'q option) list" where
  "server_stream_recv_n c rc 0 s chan_rx = []"
| "server_stream_recv_n c rc (Suc n) s chan_rx =
     (case server_stream_recv c rc s chan_rx of (res, s', chan_rx') \<Rightarrow> res # server_stream_recv_n c rc n s' chan_rx')"

subsection \<open>What the two ends do\<close>

text \<open>
  What happens at the client while a stream is in use: sends and closes of the stream's handle, sends of any other
  request or stream, and frames that the reader decodes. Every send has its own fate. The result lists the
  messages of the stream whose frames were queued, \<open>None\<close> being the close.
\<close>

datatype 'q stream_op = Send send_env 'q | CloseSend send_env | Elsewhere send_call | Incoming gen_message bool

fun stream_op_step ::
  "'q codec \<Rightarrow> ('d, 't) conn_ctx \<Rightarrow> 'q stream_op \<Rightarrow> client_stream \<Rightarrow> 't \<Rightarrow> sending_message list
    \<Rightarrow> 'q option list \<times> client_stream \<times> 't \<times> sending_message list" where
  "stream_op_step c cx (Send env m) s t q =
     (case client_stream_send c cx env s m t q of (res, t1, q1) \<Rightarrow> (if length q < length q1 then [Some m] else [], s, t1, q1))"
| "stream_op_step c cx (CloseSend env) s t q =
     (case client_stream_close_send cx env s t q of
        ((res, t1, q1), s1) \<Rightarrow> (if length q < length q1 then [None] else [], s1, t1, q1))"
| "stream_op_step c cx (Elsewhere call) s t q =
     (case transform_send_inner cx (sc_env call) (sc_rpc_error call) (sc_await_ack call) (sc_control call) (sc_msg call) t q of
        (res, t1, q1) \<Rightarrow> ([], s, t1, q1))"
| "stream_op_step c cx (Incoming m b) s t q = (case inbound cx t m b of (res, t1, m1) \<Rightarrow> ([], s, t1, q))"

fun stream_ops ::
  "'q codec \<Rightarrow> ('d, 't) conn_ctx \<Rightarrow> 'q stream_op list \<Rightarrow> client_stream \<Rightarrow> 't \<Rightarrow> sending_message list
    \<Rightarrow> 'q option list \<times> client_stream \<times> 't \<times> sending_message list" where
  "stream_ops c cx [] s t q = ([], s, t, q)"
| "stream_ops c cx (x # xs) s t q =
     (case stream_op_step c cx x s t q of
        (mine, s1, t1, q1) \<Rightarrow> (case stream_ops c cx xs s1 t1 q1 of (sent, s2, t2, q2) \<Rightarrow> (mine @ sent, s2, t2, q2)))"

fun op_elsewhere :: "u32 \<Rightarrow> 'q stream_op \<Rightarrow> bool" where
  "op_elsewhere sid (Elsewhere call) = (honest (sc_msg call) \<and> stream_id (header (sc_msg call)) \<noteq> sid)"
| "op_elsewhere sid _ = True"

text \<open>The frames among the events of the server's connection; events that leave a stream's task and the connection alone.\<close>

fun frame_of :: "server_event \<Rightarrow> gen_message list" where
  "frame_of (SvFrame env early msg) = [msg]"
| "frame_of _ = []"

fun leaves_open :: "u32 \<Rightarrow> nat \<Rightarrow> server_event \<Rightarrow> bool" where
  "leaves_open sid mb (SvDone env sid' mb' path r) = (sid' \<noteq> sid \<and> mb' \<noteq> mb)"
| "leaves_open sid mb (SvDisconnect e) = False"
| "leaves_open sid mb _ = True"

text \<open>The messages of a stream whose tasks are pending, in the order in which their frames were read.\<close>

definition pending :: "u32 \<Rightarrow> 't server_conn \<Rightarrow> gen_message list" where
  "pending sid st = map task_msg (filter (on_stream sid) (sv_tasks st))"

text \<open>
  The runs in which the tasks of a stream put their messages into the channel in the order in which they were spawned. Nothing in the
  code enforces it: it is up to the scheduler.
\<close>

fun takes_turns :: "u32 \<Rightarrow> server_event \<Rightarrow> 't server_conn \<Rightarrow> bool" where
  "takes_turns sid (SvTask env i) st =
     (i < length (sv_tasks st) \<and> (\<exists>mb msg. sv_tasks st ! i = Delivering mb msg \<and> stream_id (header msg) = sid) \<longrightarrow>
        filter (on_stream sid) (take i (sv_tasks st)) = [])"
| "takes_turns sid _ st = True"

fun in_order :: "(server_event \<Rightarrow> 't server_conn \<Rightarrow> 't server_conn) \<Rightarrow> u32 \<Rightarrow> server_event list \<Rightarrow> 't server_conn \<Rightarrow> bool" where
  "in_order step sid [] st = True"
| "in_order step sid (ev # evs) st = (takes_turns sid ev st \<and> in_order step sid evs (step ev st))"

text \<open>What a handler should receive: after the close, nothing more.\<close>

fun expected :: "'q option list \<Rightarrow> (error + 'q option) list" where
  "expected [] = []"
| "expected (Some m # xs) = Ok (Some m) # expected xs"
| "expected (None # xs) = Ok None # replicate (length xs) (Err RemoteClosed)"

text \<open>A registered stream whose handler is at work; the tasks that have looked a stream up go to its channel exactly if they are of the stream.\<close>

definition routed :: "u32 \<Rightarrow> nat \<Rightarrow> 't server_conn \<Rightarrow> bool" where
  "routed sid mb st \<longleftrightarrow> (\<forall>mb' msg. Delivering mb' msg \<in> set (sv_tasks st) \<longrightarrow> (mb' = mb \<longleftrightarrow> stream_id (header msg) = sid))"

definition listening :: "u32 \<Rightarrow> nat \<Rightarrow> 't server_conn \<Rightarrow> bool" where
  "listening sid mb st \<longleftrightarrow> sv_streams st sid = Some mb \<and> sv_owned sid mb st \<and> mb < sv_next_mb st \<and> sv_rx_alive st mb
     \<and> \<not> is_shutdown (handler_shutdown st) \<and> routed sid mb st \<and> length (sv_mail st mb) \<le> sv_taken st mb + STREAM_CHANNEL_CAPACITY"

subsection \<open>The client's side\<close>

text \<open>
  \<open>decodes\<close>: frames on the wire and the messages they stand for, such that a receiver in step with a sender in the
  first state decodes them one after the other and ends in step with the last state.
\<close>

fun decodes :: "('d, 't) conn_ctx \<Rightarrow> ('t \<Rightarrow> 't \<Rightarrow> bool) \<Rightarrow> (gen_message \<times> gen_message) list \<Rightarrow> 't \<Rightarrow> 't \<Rightarrow> bool" where
  "decodes cx insync [] t t' = (\<forall>r. insync t r \<longrightarrow> insync t' r)"
| "decodes cx insync ((frame, msg) # xs) t t' =
     (\<exists>t1. (\<forall>r b. insync t r \<longrightarrow> (\<exists>r'. inbound cx r frame b = (Ok (), r', msg) \<and> insync t1 r')) \<and> decodes cx insync xs t1 t')"

lemma decodes_silent: "\<lbrakk>\<forall>r. insync t r \<longrightarrow> insync t1 r; decodes cx insync xs t1 t'\<rbrakk> \<Longrightarrow> decodes cx insync xs t t'"
  by (induction xs) (auto, blast)

lemma linked_out:
  assumes "linked cx cx' insync" and o: "outbound cx t msg b = (Ok (), t', m')" and "honest msg" and "insync t r"
  shows "\<exists>r'. inbound cx' r m' b' = (Ok (), r', msg) \<and> insync t' r'"
  using assms(1)
proof (cases rule: linkedE)
  case plain
  with o assms(4) show ?thesis by (auto simp: outbound_def inbound_def)
next
  case (coded xf)
  from synced_transform.outbound_step [OF coded(3) o assms(4,3) coded(1,2)] show ?thesis .
qed

lemma linked_failed:
  assumes "linked cx cx' insync" and o: "outbound cx t msg b = (Err e, t', m')" and "insync t r"
  shows "insync t' r"
  using assms(1)
proof (cases rule: linkedE)
  case plain
  with o assms(3) show ?thesis by (auto simp: outbound_def)
next
  case (coded xf)
  from synced_transform.outbound_failed [OF coded(3) o assms(3) coded(1)] show ?thesis .
qed

lemma linked_outbound_rev:
  assumes "linked cx cx' insync" and o: "outbound cx' t msg b = (r, t', m')" and "insync u t"
  shows "insync u t'"
  using assms(1)
proof (cases rule: linkedE)
  case plain
  with o assms(3) show ?thesis by (auto simp: outbound_def)
next
  case (coded xf)
  from duplex_transform.outbound_rev [OF coded(4) o coded(2) assms(3)] show ?thesis .
qed

lemma linked_inbound_rev:
  assumes "linked cx cx' insync" and i: "inbound cx t msg b = (r, t', m')" and "insync t u"
  shows "insync t' u"
  using assms(1)
proof (cases rule: linkedE)
  case plain
  with i assms(3) show ?thesis by (auto simp: inbound_def)
next
  case (coded xf)
  from duplex_transform.inbound_rev [OF coded(4) i coded(1) assms(3)] show ?thesis .
qed

lemma send_decodes:
  assumes "linked cx cx' insync" and "honest msg" and "transform_send_inner cx env b aw ctl msg t q = (res, t1, q1)"
  obtains (silent) "q1 = q" "\<forall>r. insync t r \<longrightarrow> insync t1 r"
    | (queued) x where "q1 = q @ [x]" "length (payload msg) \<le> MESSAGE_LENGTH_MAX" "decodes cx' insync [(sm_msg x, msg)] t t1"
  using assms(3)
proof (cases rule: transform_send_cases)
  case waiting
  then show ?thesis using silent by simp
next
  case (failed e m')
  then show ?thesis using silent linked_failed [OF assms(1) failed(1)] by blast
next
  case (queued m')
  have "length (payload msg) \<le> MESSAGE_LENGTH_MAX"
    using outbound_ok(3) [OF queued(1) assms(2)] max_raw_le [of cx] by linarith
  moreover have "decodes cx' insync [(m', msg)] t t1"
    using linked_out [OF assms(1) queued(1) assms(2)] by (subst decodes.simps) (rule exI [of _ t1], simp)
  ultimately show ?thesis using that(2) [OF queued(2)] by simp
qed

text \<open>The frame of a message of the stream.\<close>

fun own_frame :: "'q codec \<Rightarrow> u32 \<Rightarrow> 'q option \<Rightarrow> gen_message \<Rightarrow> bool" where
  "own_frame c sid (Some m) msg = (\<exists>buf. c_encode c m = Ok buf \<and> length buf \<le> MESSAGE_LENGTH_MAX \<and> msg = gen_new_data sid buf)"
| "own_frame c sid None msg = (msg = gen_new_close sid)"

abbreviation of_stream :: "u32 \<Rightarrow> gen_message list \<Rightarrow> gen_message list" where
  "of_stream sid ms \<equiv> filter (\<lambda>m. stream_id (header m) = sid) ms"

lemma stream_op_decodes:
  assumes "linked cx cx' insync" and "op_elsewhere sid x" and "ss_stream_id (cs_tx s) = sid"
    and "stream_op_step c cx x s t q = (mine, s1, t1, q1)"
  shows "ss_stream_id (cs_tx s1) = sid \<and>
    (q1 = q \<and> mine = [] \<and> (\<forall>r. insync t r \<longrightarrow> insync t1 r) \<or>
     (\<exists>y msg. q1 = q @ [y] \<and> decodes cx' insync [(sm_msg y, msg)] t t1 \<and> list_all2 (own_frame c sid) mine (of_stream sid [msg])))"
proof (cases x)
  case (Send env m)
  show ?thesis
  proof (cases "c_encode c m")
    case (Inl e)
    with Send assms(3,4) show ?thesis by (auto simp: client_stream_send_def typed_send_def)
  next
    case (Inr buf)
    show ?thesis
    proof (cases "local_closed (cs_tx s)")
      case True
      with Send Inr assms(3,4) show ?thesis by (auto simp: client_stream_send_def typed_send_def stream_send_def)
    next
      case False
      with Send Inr assms(3,4) obtain res where r: "transform_send_inner cx env False True None (gen_new_data sid buf) t q = (res, t1, q1)"
          "mine = (if length q < length q1 then [Some m] else [])" "s1 = s"
        by (auto simp: client_stream_send_def typed_send_def stream_send_def transform_send_def split: prod.splits)
      from assms(1) honest_new(1) r(1) show ?thesis
      proof (cases rule: send_decodes)
        case silent
        with r assms(3) show ?thesis by simp
      next
        case (queued y)
        with r assms(3) Inr show ?thesis
          by (intro conjI disjI2 exI [of _ y] exI [of _ "gen_new_data sid buf"]) (simp_all add: wire_simps)
      qed
    qed
  qed
next
  case (CloseSend env)
  show ?thesis
  proof (cases "local_closed (cs_tx s)")
    case True
    with CloseSend assms(3,4) show ?thesis
      by (auto simp: client_stream_close_send_def cs_sender_close_send_def stream_close_send_def)
  next
    case False
    obtain res t2 q2 where r: "transform_send_inner cx env False True None (gen_new_close sid) t q = (res, t2, q2)" by (metis prod_cases3)
    with CloseSend False assms(3,4) have s1: "t2 = t1" "q2 = q1" "mine = (if length q < length q1 then [None] else [])" "ss_stream_id (cs_tx s1) = sid"
      by (auto simp: client_stream_close_send_def cs_sender_close_send_def stream_close_send_def transform_send_def
          split: option.splits sum.splits)
    from assms(1) honest_new(3) r [unfolded s1] show ?thesis
    proof (cases rule: send_decodes)
      case silent
      with s1 show ?thesis by simp
    next
      case (queued y)
      with s1 show ?thesis
        by (intro conjI disjI2 exI [of _ y] exI [of _ "gen_new_close sid"]) (simp_all add: wire_simps)
    qed
  qed
next
  case (Elsewhere call)
  with assms(4) obtain res where r: "transform_send_inner cx (sc_env call) (sc_rpc_error call) (sc_await_ack call) (sc_control call)
      (sc_msg call) t q = (res, t1, q1)" "mine = []" "s1 = s" by (auto split: prod.splits)
  have h: "honest (sc_msg call)" "stream_id (header (sc_msg call)) \<noteq> sid" using assms(2) Elsewhere by auto
  from assms(1) h(1) r(1) show ?thesis
  proof (cases rule: send_decodes)
    case silent
    with r assms(3) show ?thesis by simp
  next
    case (queued y)
    with r h assms(3) show ?thesis by (intro conjI disjI2 exI [of _ y] exI [of _ "sc_msg call"]) simp_all
  qed
next
  case (Incoming m b)
  with assms(3,4) linked_inbound_rev [OF assms(1)] show ?thesis by (auto split: prod.splits)
qed

lemma stream_ops_decodes:
  assumes "linked cx cx' insync" and "\<forall>x \<in> set xs. op_elsewhere sid x" and "ss_stream_id (cs_tx s) = sid"
    and "stream_ops c cx xs s t q = (sent, s', t', q')"
  shows "\<exists>new ys. q' = q @ new \<and> map fst ys = map sm_msg new \<and> decodes cx' insync ys t t'
    \<and> list_all2 (own_frame c sid) sent (of_stream sid (map snd ys))"
  using assms(2-4)
proof (induction xs arbitrary: s t q sent)
  case Nil
  then show ?case by (intro exI [of _ "[]"]) simp
next
  case (Cons x xs)
  obtain mine s1 t1 q1 where one: "stream_op_step c cx x s t q = (mine, s1, t1, q1)" by (metis prod_cases4)
  obtain sent1 where rest: "stream_ops c cx xs s1 t1 q1 = (sent1, s', t', q')" "sent = mine @ sent1"
    using Cons.prems(3) one by (auto split: prod.splits)
  note step = stream_op_decodes [OF assms(1) _ Cons.prems(2) one]
  obtain new ys where IH: "q' = q1 @ new" "map fst ys = map sm_msg new" "decodes cx' insync ys t1 t'"
      "list_all2 (own_frame c sid) sent1 (of_stream sid (map snd ys))"
    using Cons.IH [OF _ _ rest(1)] Cons.prems(1) step by auto
  from step Cons.prems(1) consider
      (silent) "q1 = q" "mine = []" "\<forall>r. insync t r \<longrightarrow> insync t1 r"
    | (queued) y msg where "q1 = q @ [y]" "decodes cx' insync [(sm_msg y, msg)] t t1"
        "list_all2 (own_frame c sid) mine (of_stream sid [msg])" by auto
  then show ?case
  proof cases
    case silent
    with IH rest(2) decodes_silent [OF silent(3) IH(3)] show ?thesis by auto
  next
    case (queued y msg)
    then obtain t2 where t2: "\<forall>r b. insync t r \<longrightarrow> (\<exists>r'. inbound cx' r (sm_msg y) b = (Ok (), r', msg) \<and> insync t2 r')"
        "\<forall>r. insync t2 r \<longrightarrow> insync t1 r" by auto
    have "decodes cx' insync ((sm_msg y, msg) # ys) t t'"
      using t2 decodes_silent [OF t2(2) IH(3)] by auto
    moreover have "list_all2 (own_frame c sid) sent (of_stream sid (map snd ((sm_msg y, msg) # ys)))"
      using list_all2_appendI [OF queued(3) IH(4)] rest(2) by (auto split: if_splits)
    ultimately show ?thesis
      using IH(1,2) queued(1) by (intro exI [of _ "y # new"] exI [of _ "(sm_msg y, msg) # ys"]) simp
  qed
qed

subsection \<open>The server's side\<close>

text \<open>A step that leaves a listening stream, its channel, its tasks and the sender of the peer's frames as they were.\<close>

definition undisturbed :: "u32 \<Rightarrow> nat \<Rightarrow> ('t \<Rightarrow> bool) \<Rightarrow> 't server_conn \<Rightarrow> 't server_conn \<Rightarrow> bool" where
  "undisturbed sid mb ok st st' \<longleftrightarrow> (listening sid mb st \<and> ok (sv_xst st) \<longrightarrow>
     listening sid mb st' \<and> ok (sv_xst st') \<and> sv_mail st' mb = sv_mail st mb \<and> pending sid st' = pending sid st)"

lemma undisturbed_refl [simp]: "undisturbed sid mb ok st st"
  by (simp add: undisturbed_def)

lemma undisturbed_trans: "\<lbrakk>undisturbed sid mb ok st st1; undisturbed sid mb ok st1 st2\<rbrakk> \<Longrightarrow> undisturbed sid mb ok st st2"
  by (auto simp: undisturbed_def)

lemmas stream_defs = undisturbed_def listening_def routed_def pending_def sv_owned_def

lemma undisturbed_register: "sid' \<noteq> sid \<Longrightarrow> undisturbed sid mb ok st (snd (sv_register sid' st))"
  by (auto simp: stream_defs sv_register_def)

lemma undisturbed_mail_send: "mb' \<noteq> mb \<Longrightarrow> undisturbed sid mb ok st (snd (sv_mail_send mb' r st))"
  by (auto simp: stream_defs sv_mail_send_def)

lemma undisturbed_end: "sid' \<noteq> sid \<Longrightarrow> mb' \<noteq> mb \<Longrightarrow> undisturbed sid mb ok st (sv_stream_end sid' mb' st)"
  by (auto simp: stream_defs sv_stream_end_def)

lemma undisturbed_take: "undisturbed sid mb ok st (sv_take mb' st)"
  by (auto simp: stream_defs sv_take_def)

lemma set_remove_nth: "set (remove_nth i xs) \<subseteq> set xs"
  by (auto simp: remove_nth_def dest: in_set_takeD in_set_dropD)

lemma undisturbed_task_end:
  assumes "i < length (sv_tasks st)" and "\<not> on_stream sid (sv_tasks st ! i)"
  shows "undisturbed sid mb ok st (hc_task_end i st)"
proof -
  have "filter (on_stream sid) (remove_nth i (sv_tasks st)) = filter (on_stream sid) (sv_tasks st)"
    using assms(2) by (simp add: filter_remove_nth(2) filter_remove_nth(1) [OF assms(1)])
  then show ?thesis using set_remove_nth [of i "sv_tasks st"] by (auto simp: stream_defs hc_task_end_def)
qed

lemma undisturbed_send:
  assumes "linked cx cx' insync"
  shows "undisturbed sid mb (insync u) st (snd (sv_send cx' env b msg st))"
proof -
  obtain r t' q' where s: "transform_send_inner cx' env b False None msg (sv_xst st) (sv_tx st) = (r, t', q')" by (metis prod_cases3)
  then have "insync u (sv_xst st) \<Longrightarrow> insync u t'"
    by (cases rule: transform_send_cases) (use linked_outbound_rev [OF assms] in blast)+
  moreover have "snd (sv_send cx' env b msg st) = st\<lparr>sv_xst := t', sv_tx := q'\<rparr>" using s by (simp add: sv_send_def transform_send_def)
  ultimately show ?thesis by (simp add: stream_defs)
qed

lemma undisturbed_respond:
  assumes "linked cx cx' insync"
  shows "undisturbed sid mb (insync u) st (snd (respond rc cx' env sid' resp st))"
  by (simp add: respond_def undisturbed_send [OF assms] split: sum.split)

lemma undisturbed_reply:
  assumes "linked cx cx' insync"
  shows "undisturbed sid mb (insync u) st (hc_reply d rc cx' env sid' res st)"
  by (auto simp: hc_reply_def respond_with_status_def undisturbed_respond [OF assms] undisturbed_send [OF assms] Let_def
      split: option.split sum.split)

lemma undisturbed_stream:
  assumes "stream_id (msg_header m) \<noteq> sid"
  shows "undisturbed sid mb ok st (snd (handle_stream d cx h early m st))"
proof (cases "mb < sv_next_mb st")
  case True
  let ?sid = "stream_id (msg_header m)"
  obtain mb' st1 where r: "sv_register ?sid st = (mb', st1)" by (metis surj_pair)
  with True have mb: "mb' \<noteq> mb" by (auto simp: sv_register_def)
  have st1: "undisturbed sid mb ok st st1" using undisturbed_register [OF assms, of mb ok st] r by simp
  define st2 where "st2 = (if early then sv_stream_end ?sid mb' st1 else st1)"
  have st2: "undisturbed sid mb ok st st2"
    using st1 undisturbed_trans [OF st1 undisturbed_end [OF assms mb]] by (simp add: st2_def)
  have mail: "undisturbed sid mb ok st st3" if "sv_mail_send mb' x st2 = (b, st3)" for x b st3
    using undisturbed_trans [OF st2 undisturbed_mail_send [OF mb]] that by (metis snd_conv)
  have ended: "undisturbed sid mb ok st (sv_stream_end ?sid mb' st3)" if "undisturbed sid mb ok st st3" for st3
    by (rule undisturbed_trans [OF that undisturbed_end [OF assms mb]])
  show ?thesis
    unfolding handle_stream_def Let_def r prod.case st2_def [symmetric]
    using st2 mail ended by (auto split: option.split prod.split)
qed (simp add: undisturbed_def listening_def)

lemma undisturbed_request:
  assumes "stream_id (header msg) \<noteq> sid"
  shows "undisturbed sid mb ok st (snd (handle_request d qc cx srvs early msg st))"
proof -
  have "stream_id (msg_header m) \<noteq> sid" if "message_try_from qc msg = Ok m" for m
    using that assms by (auto simp: message_try_from_def rbind_Ok_iff split: sum.splits)
  then show ?thesis
    by (auto simp: handle_request_def undisturbed_stream Let_def split: sum.split option.split)
qed

lemma undisturbed_msg:
  assumes "linked cx cx' insync" and sid: "stream_id (header msg) \<noteq> sid"
  shows "undisturbed sid mb (insync u) st (hc_handle_msg d qc rc cx' srvs env early msg st)"
proof -
  have req: "undisturbed sid mb (insync u) st (case handle_request d qc cx' srvs early msg st of
      (res, st') \<Rightarrow> hc_reply d rc cx' env sid' res st')" for sid'
    using undisturbed_trans [OF undisturbed_request [OF sid, of mb "insync u" st d qc cx' srvs early] undisturbed_reply [OF assms(1)]]
    by (auto split: prod.split)
  have data: "undisturbed sid mb (insync u) st (st\<lparr>sv_tasks := sv_tasks st @ [Lookup msg]\<rparr>)"
    using sid by (auto simp: stream_defs on_stream_def)
  show ?thesis
    by (simp add: hc_handle_msg_def Let_def req data respond_with_status_def undisturbed_respond [OF assms(1)])
qed

lemma routed_update:
  assumes "routed sid mb st" and "mb' = mb \<longleftrightarrow> stream_id (header msg) = sid"
  shows "routed sid mb (st\<lparr>sv_tasks := (sv_tasks st)[i := Delivering mb' msg]\<rparr>)"
  unfolding routed_def
proof (intro allI impI)
  fix mb1 msg1
  assume "Delivering mb1 msg1 \<in> set (sv_tasks (st\<lparr>sv_tasks := (sv_tasks st)[i := Delivering mb' msg]\<rparr>))"
  then have "Delivering mb1 msg1 = Delivering mb' msg \<or> Delivering mb1 msg1 \<in> set (sv_tasks st)"
    using set_update_subset_insert [of "sv_tasks st" i "Delivering mb' msg"] by auto
  with assms show "mb1 = mb \<longleftrightarrow> stream_id (header msg1) = sid" by (auto simp: routed_def)
qed

lemma listening_update:
  assumes "listening sid mb st" and "mb' = mb \<longleftrightarrow> stream_id (header msg) = sid"
  shows "listening sid mb (st\<lparr>sv_tasks := (sv_tasks st)[i := Delivering mb' msg]\<rparr>)"
  using assms routed_update [OF _ assms(2), of st i] by (simp add: listening_def sv_owned_def)

text \<open>A task of another stream.\<close>

lemma undisturbed_data_step:
  assumes "linked cx cx' insync" and i: "i < length (sv_tasks st)" "\<not> on_stream sid (sv_tasks st ! i)"
  shows "undisturbed sid mb (insync u) st (hc_data_step rc cx' env i st)"
proof (cases "listening sid mb st")
  case True
  note ended = undisturbed_task_end [OF i, of mb "insync u"]
  note answer = undisturbed_trans [OF ended undisturbed_respond [OF assms(1)]]
  show ?thesis
  proof (cases "sv_tasks st ! i")
    case (Lookup msg)
    show ?thesis
    proof (cases "sv_streams st (stream_id (header msg))")
      case (Some mb')
      with True i(2) Lookup have mb': "mb' \<noteq> mb" by (auto simp: listening_def sv_owned_def on_stream_def)
      have "filter (on_stream sid) ((sv_tasks st)[i := Delivering mb' msg]) = filter (on_stream sid) (sv_tasks st)"
        using i Lookup by (simp add: filter_update_nth filter_remove_nth(1) [OF i(1)] on_stream_def)
      then have "undisturbed sid mb (insync u) st (st\<lparr>sv_tasks := (sv_tasks st)[i := Delivering mb' msg]\<rparr>)"
        using listening_update [OF True, of mb' msg i] mb' i(2) Lookup by (simp add: undisturbed_def pending_def on_stream_def)
      with Some Lookup i(1) show ?thesis by (simp add: hc_data_step_def)
    qed (use Lookup i(1) answer in \<open>simp add: hc_data_step_def respond_with_status_def\<close>)
  next
    case (Delivering mb' msg)
    with i True have mb': "mb' \<noteq> mb" by (metis listening_def nth_mem on_stream_def routed_def task_msg.simps(2))
    note mail = undisturbed_trans [OF ended undisturbed_mail_send [OF mb']]
    have "undisturbed sid mb (insync u) st (case sv_mail_send mb' x (hc_task_end i st) of
        (True, st') \<Rightarrow> st' | (False, st') \<Rightarrow> respond_with_status rc cx' env sid' s st')" for x s sid'
      using mail [of x] undisturbed_trans [OF mail [of x] undisturbed_respond [OF assms(1)]]
      by (auto simp: respond_with_status_def split: prod.split bool.split)
    with Delivering i(1) show ?thesis by (simp add: hc_data_step_def Let_def)
  qed
qed (simp add: undisturbed_def)

text \<open>
  A step of a task of the stream itself: it goes on, or puts its message into the channel and ends.
\<close>

lemma own_data_step:
  assumes "listening sid mb st" and i: "i < length (sv_tasks st)" "on_stream sid (sv_tasks st ! i)"
  obtains (on) "listening sid mb (hc_data_step rc cx env i st)" "sv_xst (hc_data_step rc cx env i st) = sv_xst st"
      "sv_mail (hc_data_step rc cx env i st) mb = sv_mail st mb" "pending sid (hc_data_step rc cx env i st) = pending sid st"
    | (delivered) msg where "listening sid mb (hc_data_step rc cx env i st)" "sv_xst (hc_data_step rc cx env i st) = sv_xst st"
      "sv_tasks st ! i = Delivering mb msg" "stream_id (header msg) = sid"
      "sv_mail (hc_data_step rc cx env i st) mb = sv_mail st mb @ [Ok msg]"
      "pending sid st = map task_msg (filter (on_stream sid) (take i (sv_tasks st))) @ msg # map task_msg (filter (on_stream sid) (drop (Suc i) (sv_tasks st)))"
      "pending sid (hc_data_step rc cx env i st) =
         map task_msg (filter (on_stream sid) (take i (sv_tasks st))) @ map task_msg (filter (on_stream sid) (drop (Suc i) (sv_tasks st)))"
proof (cases "sv_tasks st ! i")
  case (Lookup msg)
  with assms have s: "sv_streams st (stream_id (header msg)) = Some mb" "stream_id (header msg) = sid" by (auto simp: listening_def on_stream_def)
  have "filter (on_stream sid) ((sv_tasks st)[i := Delivering mb msg]) = filter (on_stream sid) (take i (sv_tasks st)) @ Delivering mb msg #
      filter (on_stream sid) (drop (Suc i) (sv_tasks st))" using s by (simp add: filter_update_nth [OF i(1)] on_stream_def)
  then have "pending sid (st\<lparr>sv_tasks := (sv_tasks st)[i := Delivering mb msg]\<rparr>) = pending sid st"
    using i(2) Lookup by (simp add: pending_def filter_remove_nth(1) [OF i(1)])
  moreover have "listening sid mb (st\<lparr>sv_tasks := (sv_tasks st)[i := Delivering mb msg]\<rparr>)"
    using listening_update [OF assms(1), of mb msg i] s(2) by simp
  ultimately show thesis using s i(1) Lookup on by (simp add: hc_data_step_def)
next
  case (Delivering mb' msg)
  with i assms(1) have mb': "mb' = mb" "stream_id (header msg) = sid" by (metis listening_def nth_mem on_stream_def routed_def task_msg.simps(2))+
  have alive: "sv_rx_alive st mb" using assms(1) by (simp add: listening_def)
  show thesis
  proof (cases "sv_room mb st")
    case True
    have step: "hc_data_step rc cx env i st = st\<lparr>sv_tasks := remove_nth i (sv_tasks st), sv_mail := (sv_mail st)(mb := sv_mail st mb @ [Ok msg])\<rparr>"
      using True Delivering mb' alive i(1) by (simp add: hc_data_step_def sv_mail_send_def hc_task_end_def)
    have "listening sid mb (hc_data_step rc cx env i st)"
      using assms(1) True set_remove_nth [of i "sv_tasks st"] by (auto simp: step listening_def routed_def sv_owned_def sv_room_def)
    then show thesis
      by (rule delivered) (use Delivering mb' i in \<open>simp_all add: step pending_def filter_remove_nth(2) filter_remove_nth(1) [OF i(1)]\<close>)
  next
    case False
    with Delivering mb' alive i(1) have "hc_data_step rc cx env i st = st" by (simp add: hc_data_step_def)
    with assms(1) on show thesis by simp
  qed
qed

text \<open>A frame of the stream becomes a task.\<close>

lemma own_data_read:
  assumes "listening sid mb st" and "odd sid" and "inbound cx (sv_xst st) frame False = (Ok (), t', msg)"
    and "mh_type (header msg) = MESSAGE_TYPE_DATA" and "stream_id (header msg) = sid"
  shows "sv_handle_msg d qc rc cx srvs env early frame st = st\<lparr>sv_xst := t', sv_tasks := sv_tasks st @ [Lookup msg]\<rparr>"
proof -
  have "mh_type (header frame) = MESSAGE_TYPE_DATA" using inbound_ok(2) [OF assms(3)] assms(4) by (simp add: same_route_def)
  moreover have "sid mod 2 = 1" using assms(2) by (simp add: odd_iff_mod_2_eq_one)
  ultimately show ?thesis
    using assms(1,3-5) by (auto simp: sv_handle_msg_def hc_handle_msg_def listening_def message_types Let_def)
qed

lemma sv_frame_step:
  assumes "linked cx cx' insync" and "listening sid mb st" and "odd sid"
    and "\<And>b. \<exists>r'. inbound cx' (sv_xst st) frame b = (Ok (), r', msg) \<and> insync u r'"
    and "stream_id (header msg) = sid \<longrightarrow> mh_type (header msg) = MESSAGE_TYPE_DATA"
    and "sv_handle_msg d qc rc cx' srvs env early frame st = st'"
  shows "listening sid mb st' \<and> insync u (sv_xst st') \<and> sv_mail st' mb = sv_mail st mb \<and> pending sid st' = pending sid st @ of_stream sid [msg]"
proof (cases "stream_id (header msg) = sid")
  case True
  with assms(4) [of False] assms(5) obtain r' where r': "inbound cx' (sv_xst st) frame False = (Ok (), r', msg)" "insync u r'" by blast
  have "mh_type (header msg) = MESSAGE_TYPE_DATA" using True assms(5) by simp
  note st' = own_data_read [OF assms(2,3) r'(1) this True, of d qc rc srvs env early, unfolded assms(6)]
  show ?thesis unfolding st' using assms(2) True r'(2) by (auto simp: stream_defs on_stream_def)
next
  case False
  obtain r' where r': "inbound cx' (sv_xst st) frame (mh_type (header frame) = MESSAGE_TYPE_REQUEST) = (Ok (), r', msg)" "insync u r'"
    using assms(4) by blast
  have "st' = hc_handle_msg d qc rc cx' srvs env early msg (st\<lparr>sv_xst := r'\<rparr>)"
    using assms(2,6) r'(1) by (simp add: sv_handle_msg_def listening_def)
  moreover have "listening sid mb (st\<lparr>sv_xst := r'\<rparr>)" using assms(2) by (simp add: listening_def sv_owned_def routed_def)
  moreover have "pending sid (st\<lparr>sv_xst := r'\<rparr>) = pending sid st" by (simp add: pending_def)
  ultimately show ?thesis
    using undisturbed_msg [OF assms(1) False, of mb u "st\<lparr>sv_xst := r'\<rparr>"] r'(2) False by (simp add: undisturbed_def)
qed

text \<open>The other events: up to order, what is in the channel or pending stays; in order if the tasks take turns.\<close>

lemma sv_other_step:
  assumes "linked cx cx' insync" and "leaves_open sid mb ev" and "frame_of ev = []" and "listening sid mb st" and "insync u (sv_xst st)"
    and "st' = sv_event d qc rc cx' srvs ev st"
  shows "listening sid mb st' \<and> insync u (sv_xst st')
    \<and> mset (sv_mail st' mb) + mset (map Ok (pending sid st')) = mset (sv_mail st mb) + mset (map Ok (pending sid st))
    \<and> (takes_turns sid ev st \<longrightarrow> sv_mail st' mb @ map Ok (pending sid st') = sv_mail st mb @ map Ok (pending sid st))"
proof -
  have quiet: ?thesis if "undisturbed sid mb (insync u) st st'" using that assms(4,5) by (simp add: undisturbed_def)
  show ?thesis
  proof (cases ev)
    case (SvTask env i)
    show ?thesis
    proof (cases "i < length (sv_tasks st) \<and> on_stream sid (sv_tasks st ! i)")
      case True
      then have i: "i < length (sv_tasks st)" "on_stream sid (sv_tasks st ! i)" by simp_all
      from assms(4) i show ?thesis
      proof (cases rule: own_data_step [where rc = rc and cx = cx' and env = env])
        case (delivered msg)
        then show ?thesis using SvTask i assms(5,6) by (auto simp: on_stream_def)
      qed (use SvTask assms(5,6) in auto)
    next
      case False
      then have "undisturbed sid mb (insync u) st st'"
        using undisturbed_data_step [OF assms(1), of i st sid mb u rc env] SvTask assms(6)
        by (cases "i < length (sv_tasks st)") (auto simp: hc_data_step_def)
      then show ?thesis by (rule quiet)
    qed
  next
    case (SvCancel i)
    with assms(4,6) have "st' = st" by (simp add: hc_task_cancel_def listening_def)
    with quiet show ?thesis by simp
  next
    case (SvErr env mh e)
    with assms(6) show ?thesis by (intro quiet) (simp add: hc_handle_err_def undisturbed_respond [OF assms(1)])
  next
    case (SvDone env sid' mb' path r)
    with assms(2,6) show ?thesis
      by (intro quiet) (simp add: hc_stream_done_def undisturbed_trans [OF undisturbed_end undisturbed_reply [OF assms(1)]])
  next
    case (SvTake mb')
    with assms(6) show ?thesis by (intro quiet) (simp add: undisturbed_take)
  qed (use assms(2,3) in simp_all)
qed

lemma sv_run_delivers:
  assumes "linked cx cx' insync" and "odd sid"
  shows "\<lbrakk>decodes cx' insync ys t t'; concat (map frame_of evs) = map fst ys; \<forall>ev \<in> set evs. leaves_open sid mb ev;
     \<forall>msg \<in> set (of_stream sid (map snd ys)). mh_type (header msg) = MESSAGE_TYPE_DATA; listening sid mb st; insync t (sv_xst st);
     sv_run d qc rc cx' srvs evs st = st'\<rbrakk>
   \<Longrightarrow> listening sid mb st' \<and> insync t' (sv_xst st')
     \<and> mset (sv_mail st' mb) + mset (map Ok (pending sid st')) =
         mset (sv_mail st mb) + mset (map Ok (pending sid st)) + mset (map Ok (of_stream sid (map snd ys)))
     \<and> (in_order (sv_event d qc rc cx' srvs) sid evs st \<longrightarrow>
          sv_mail st' mb @ map Ok (pending sid st') = sv_mail st mb @ map Ok (pending sid st) @ map Ok (of_stream sid (map snd ys)))"
proof (induction evs arbitrary: ys t st)
  case Nil
  then show ?case by (simp add: sv_run_def)
next
  case (Cons ev evs)
  let ?st = "sv_event d qc rc cx' srvs ev st"
  have run: "sv_run d qc rc cx' srvs evs ?st = st'" using Cons.prems(7) by (simp add: sv_run_def)
  show ?case
  proof (cases "frame_of ev")
    case Nil
    have "leaves_open sid mb ev" using Cons.prems(3) by simp
    note step = sv_other_step [OF assms(1) this Nil Cons.prems(5,6) refl, of d qc rc srvs]
    from Cons.IH [OF Cons.prems(1) _ _ Cons.prems(4) _ _ run] step Cons.prems(2,3) Nil show ?thesis by auto
  next
    case (Cons frame fs)
    then obtain env early where ev: "ev = SvFrame env early frame" "fs = []" by (cases ev) auto
    with Cons.prems(2) obtain msg zs where ys: "ys = (frame, msg) # zs" "concat (map frame_of evs) = map fst zs"
      by (cases ys) auto
    with Cons.prems(1) obtain t1 where t1: "\<And>r b. insync t r \<Longrightarrow> \<exists>r'. inbound cx' r frame b = (Ok (), r', msg) \<and> insync t1 r'"
        "decodes cx' insync zs t1 t'" by auto
    have st: "listening sid mb ?st \<and> insync t1 (sv_xst ?st) \<and> sv_mail ?st mb = sv_mail st mb \<and> pending sid ?st = pending sid st @ of_stream sid [msg]"
      using sv_frame_step [OF assms(1) Cons.prems(5) assms(2) t1(1) [OF Cons.prems(6)], where st' = ?st] Cons.prems(4) ev(1) ys(1) by simp
    with Cons.IH [OF t1(2) ys(2) _ _ _ _ run] Cons.prems(3,4) ys(1) show ?thesis by (auto split: if_splits)
  qed
qed

subsection \<open>Streams from end to end\<close>

lemma server_stream_recv_n_closed:
  "remote_closed (sst_rx s) \<Longrightarrow> server_stream_recv_n c rc n s chan_rx = replicate n (Err RemoteClosed)"
  by (induction n arbitrary: s chan_rx) (simp_all add: server_stream_recv_def opt_recv_def recv_after_close)

lemma own_frames_received:
  assumes "codec_laws c dflt"
  shows "\<lbrakk>list_all2 (own_frame c sid) sent msgs; recveivable (sst_rx s); \<not> remote_closed (sst_rx s)\<rbrakk>
    \<Longrightarrow> server_stream_recv_n c rc (length sent) s (map Ok msgs) = expected sent"
proof (induction sent arbitrary: msgs s)
  case (Cons x sent)
  then obtain msg ms where ms: "msgs = msg # ms" "own_frame c sid x msg" "list_all2 (own_frame c sid) sent ms"
    by (auto simp: list_all2_Cons1)
  show ?case
  proof (cases x)
    case None
    with ms recv_close [OF Cons.prems(3,2)] show ?thesis
      by (simp add: server_stream_recv_def opt_recv_def server_stream_recv_n_closed)
  next
    case (Some m)
    with ms(2) obtain buf where buf: "c_encode c m = Ok buf" "length buf \<le> MESSAGE_LENGTH_MAX" "msg = gen_new_data sid buf" by auto
    from recv_data [OF Cons.prems(3,2) buf(2)] codec_laws.decode_encode [OF assms buf(1)] buf(3) Some ms Cons.IH [OF ms(3) Cons.prems(2,3)]
    show ?thesis by (simp add: server_stream_recv_def opt_recv_def)
  qed
qed simp

lemma frame_of_frames: "concat (map frame_of (map (SvFrame env early) ms)) = ms"
  by (induction ms) simp_all

lemma own_frames_data: "list_all2 (own_frame c sid) sent msgs \<Longrightarrow> \<forall>msg \<in> set msgs. mh_type (header msg) = MESSAGE_TYPE_DATA"
proof (induction rule: list_all2_induct)
  case (Cons x xs y ys)
  then show ?case by (cases x) (auto simp: wire_simps)
qed simp

text \<open>
  C9: A stream of requests from end to end. Whatever the client does on a connection while it uses a stream (sends of the
  stream, whose waits, locks, transforms and acknowledgements may fail in any way, its close, and anything on other
  streams in between), and whatever else happens at the server (other requests and streams, errors, answers through
  the same transform, the end of other handlers, the steps of the tasks of all frames in any order): once the server has read the frames that the
  client queued, no message is lost, duplicated or delivered elsewhere: what is in the stream's channel, of which at most 100 wait, and
  the tasks still pending are together exactly the messages whose frames were queued. If moreover the tasks of the stream deliver in
  the order in which they were spawned, which the code leaves to the scheduler, the channel holds a prefix of
  them in order, and the handler receives exactly that prefix, then the end of the stream once if it was closed,
  and \<open>RemoteClosed\<close> after that. Both ends stay in step.
\<close>

theorem stream_requests_delivered:
  assumes "linked cx cx' insync" and "codec_laws c dflt" and "odd sid"
    and "ss_stream_id (cs_tx s) = sid" and "\<forall>x \<in> set xs. op_elsewhere sid x" and "stream_ops c cx xs s t q = (sent, s', t', q')"
    and "listening sid mb st" and "sv_mail st mb = []" and "pending sid st = []" and "insync t (sv_xst st)"
    and "concat (map frame_of evs) = map sm_msg (drop (length q) q')" and "\<forall>ev \<in> set evs. leaves_open sid mb ev"
    and "sv_run d qc rc cx' srvs evs st = st'"
    and "recveivable (sst_rx h)" and "\<not> remote_closed (sst_rx h)"
  shows "take (length q) q' = q \<and> insync t' (sv_xst st') \<and> listening sid mb st'
    \<and> length (sv_mail st' mb) \<le> sv_taken st' mb + STREAM_CHANNEL_CAPACITY
    \<and> (\<exists>msgs. list_all2 (own_frame c sid) sent msgs
         \<and> mset (sv_mail st' mb) + mset (map Ok (pending sid st')) = mset (map Ok msgs)
         \<and> (in_order (sv_event d qc rc cx' srvs) sid evs st \<longrightarrow> sv_mail st' mb @ map Ok (pending sid st') = map Ok msgs))
    \<and> (in_order (sv_event d qc rc cx' srvs) sid evs st \<longrightarrow>
         server_stream_recv_n c rc' (length (sv_mail st' mb)) h (sv_mail st' mb) = expected (take (length (sv_mail st' mb)) sent)
       \<and> (pending sid st' = [] \<longrightarrow> server_stream_recv_n c rc' (length sent) h (sv_mail st' mb) = expected sent))"
proof -
  obtain new ys where client: "q' = q @ new" "map fst ys = map sm_msg new" "decodes cx' insync ys t t'"
      "list_all2 (own_frame c sid) sent (of_stream sid (map snd ys))"
    using stream_ops_decodes [OF assms(1,5,4,6)] by blast
  let ?msgs = "of_stream sid (map snd ys)" and ?n = "length (sv_mail st' mb)"
  have "concat (map frame_of evs) = map fst ys" using assms(11) client(1,2) by simp
  note run = sv_run_delivers [OF assms(1,3) client(3) this assms(12) own_frames_data [OF client(4)] assms(7,10,13)]
  have order: "sv_mail st' mb @ map Ok (pending sid st') = map Ok ?msgs" if "in_order (sv_event d qc rc cx' srvs) sid evs st"
    using run that assms(8,9) by simp
  have received: "server_stream_recv_n c rc' ?n h (sv_mail st' mb) = expected (take ?n sent)
      \<and> (pending sid st' = [] \<longrightarrow> server_stream_recv_n c rc' (length sent) h (sv_mail st' mb) = expected sent)"
    if "in_order (sv_event d qc rc cx' srvs) sid evs st"
  proof -
    have mail: "sv_mail st' mb = map Ok (take ?n ?msgs)" using arg_cong [OF order [OF that], of "take ?n"] by (simp add: take_map)
    have len: "?n + length (pending sid st') = length sent"
      using arg_cong [OF order [OF that], of length] list_all2_lengthD [OF client(4)] by simp
    have "list_all2 (own_frame c sid) (take ?n sent) (take ?n ?msgs)" using client(4) by (rule list_all2_takeI)
    from own_frames_received [OF assms(2) this assms(14,15), of rc'] len le_add1 [of ?n "length (pending sid st')"]
    have "server_stream_recv_n c rc' ?n h (map Ok (take ?n ?msgs)) = expected (take ?n sent)" by (simp add: min_absorb2)
    with mail len show ?thesis by auto
  qed
  from run have mail: "listening sid mb st'" "insync t' (sv_xst st')" by simp_all
  then have "length (sv_mail st' mb) \<le> sv_taken st' mb + STREAM_CHANNEL_CAPACITY" by (simp add: listening_def)
  moreover have "\<exists>msgs. list_all2 (own_frame c sid) sent msgs \<and> mset (sv_mail st' mb) + mset (map Ok (pending sid st')) = mset (map Ok msgs)
      \<and> (in_order (sv_event d qc rc cx' srvs) sid evs st \<longrightarrow> sv_mail st' mb @ map Ok (pending sid st') = map Ok msgs)"
    using client(4) run order assms(8,9) by (intro exI [of _ ?msgs]) simp
  ultimately show ?thesis using mail client(1) received by simp
qed

subsection \<open>The order of delivery\<close>

lemma sv_run_append: "sv_run d qc rc cx srvs (xs @ ys) st = sv_run d qc rc cx srvs ys (sv_run d qc rc cx srvs xs st)"
  by (simp add: sv_run_def)

lemma in_order_append:
  "in_order (sv_event d qc rc cx srvs) sid (xs @ ys) st \<longleftrightarrow>
     in_order (sv_event d qc rc cx srvs) sid xs st \<and> in_order (sv_event d qc rc cx srvs) sid ys (sv_run d qc rc cx srvs xs st)"
  by (induction xs arbitrary: st) (auto simp: sv_run_def)

text \<open>Frames of the stream are read; all of them become tasks.\<close>

lemma frames_read:
  assumes "odd sid"
  shows "\<lbrakk>listening sid mb st; decodes cx insync ys t t'; insync t (sv_xst st); sv_tasks st = map Lookup ms;
      \<forall>msg \<in> set (map snd ys). stream_id (header msg) = sid \<and> mh_type (header msg) = MESSAGE_TYPE_DATA;
      evs = map (SvFrame env False) (map fst ys); st' = sv_run d qc rc cx srvs evs st\<rbrakk>
    \<Longrightarrow> listening sid mb st' \<and> sv_tasks st' = map Lookup (ms @ map snd ys) \<and> sv_mail st' mb = sv_mail st mb
      \<and> insync t' (sv_xst st') \<and> in_order (sv_event d qc rc cx srvs) sid evs st"
proof (induction ys arbitrary: st t ms evs)
  case Nil
  then show ?case by (simp add: sv_run_def)
next
  case (Cons y ys)
  obtain frame msg where y: "y = (frame, msg)" by force
  with Cons.prems(2) obtain t1 where t1: "\<And>r b. insync t r \<Longrightarrow> \<exists>r'. inbound cx r frame b = (Ok (), r', msg) \<and> insync t1 r'"
      "decodes cx insync ys t1 t'" by auto
  from t1(1) [OF Cons.prems(3)] obtain r' where r': "inbound cx (sv_xst st) frame False = (Ok (), r', msg)" "insync t1 r'" by blast
  let ?st = "st\<lparr>sv_xst := r', sv_tasks := sv_tasks st @ [Lookup msg]\<rparr>"
  have step: "sv_handle_msg d qc rc cx srvs env False frame st = ?st"
    using own_data_read [OF Cons.prems(1) assms r'(1)] Cons.prems(5) y by simp
  have "listening sid mb ?st" using Cons.prems(1) by (auto simp: listening_def routed_def sv_owned_def)
  from Cons.IH [OF this t1(2), of "ms @ [msg]" "map (SvFrame env False) (map fst ys)"] r'(2) Cons.prems(4-7) y step
  show ?case by (simp add: sv_run_def)
qed

text \<open>Pending tasks of the stream can finish in any order, while the handler makes room.\<close>

lemma task_finishes:
  assumes "listening sid mb st" and "sv_tasks st = map Lookup ms" and "\<forall>m \<in> set ms. stream_id (header m) = sid"
    and "i < length ms" and "ms ! i = x"
    and evs: "evs = [SvTask env i, SvTake mb, SvTask env i]"
  shows "\<exists>st'. st' = sv_run d qc rc cx srvs evs st \<and> listening sid mb st' \<and> sv_mail st' mb = sv_mail st mb @ [Ok x]
    \<and> sv_tasks st' = map Lookup (remove_nth i ms) \<and> (i = 0 \<longrightarrow> in_order (sv_event d qc rc cx srvs) sid evs st)"
proof -
  let ?ts = "(map Lookup ms)[i := Delivering mb x]"
  have x: "stream_id (header x) = sid" using assms(3-5) by auto
  have s: "sv_streams st sid = Some mb" "sv_rx_alive st mb" "length (sv_mail st mb) \<le> sv_taken st mb + STREAM_CHANNEL_CAPACITY"
    using assms(1) by (simp_all add: listening_def)
  have one: "hc_data_step rc cx env i st = st\<lparr>sv_tasks := ?ts\<rparr>"
    using assms(2,4,5) s(1) x by (simp add: hc_data_step_def)
  obtain k where k: "sv_take mb (st\<lparr>sv_tasks := ?ts\<rparr>) = st\<lparr>sv_tasks := ?ts, sv_taken := (sv_taken st)(mb := k)\<rparr>"
      "length (sv_mail st mb) < k + STREAM_CHANNEL_CAPACITY"
  proof (cases "sv_taken st mb < length (sv_mail st mb)")
    case True
    with s(3) that [of "sv_taken st mb + 1"] show ?thesis by (simp add: sv_take_def)
  next
    case False
    with that [of "sv_taken st mb"] show ?thesis by (simp add: sv_take_def STREAM_CHANNEL_CAPACITY_def)
  qed
  let ?st2 = "st\<lparr>sv_tasks := ?ts, sv_taken := (sv_taken st)(mb := k)\<rparr>"
  let ?st3 = "?st2\<lparr>sv_tasks := remove_nth i ?ts, sv_mail := (sv_mail st)(mb := sv_mail st mb @ [Ok x])\<rparr>"
  have two: "hc_data_step rc cx env i ?st2 = ?st3"
    using assms(4) k(2) s(2) by (simp add: hc_data_step_def sv_room_def sv_mail_send_def hc_task_end_def)
  have tasks: "remove_nth i ?ts = map Lookup (remove_nth i ms)" by (simp add: remove_nth_def take_map drop_map)
  have "listening sid mb ?st3" using assms(1) k(2) by (auto simp: listening_def routed_def sv_owned_def tasks)
  moreover have "in_order (sv_event d qc rc cx srvs) sid evs st" if "i = 0"
    using that by (simp add: evs)
  ultimately show ?thesis
    using one k(1) two by (intro exI [of _ ?st3]) (simp add: sv_run_def evs tasks)
qed

lemma tasks_finish:
  assumes "mset ms' = mset ms" and "listening sid mb st" and "sv_tasks st = map Lookup ms" and "\<forall>m \<in> set ms. stream_id (header m) = sid"
  shows "\<exists>evs st'. st' = sv_run d qc rc cx srvs evs st \<and> concat (map frame_of evs) = [] \<and> (\<forall>ev \<in> set evs. leaves_open sid mb ev)
    \<and> listening sid mb st' \<and> sv_mail st' mb = sv_mail st mb @ map Ok ms' \<and> sv_tasks st' = []
    \<and> (ms' = ms \<longrightarrow> in_order (sv_event d qc rc cx srvs) sid evs st)"
  using assms
proof (induction ms' arbitrary: ms st)
  case Nil
  then show ?case by (intro exI [of _ "[]"]) (simp add: sv_run_def)
next
  case (Cons x xs)
  have "x \<in> set ms" using Cons.prems(1) by (metis list.set_intros(1) set_mset_mset)
  then obtain ys zs where ms: "ms = ys @ x # zs" "x \<notin> set ys" by (metis split_list_first)
  define i where "i = length ys"
  have i: "i < length ms" "ms ! i = x" by (simp_all add: i_def ms(1))
  obtain st1 where st1: "st1 = sv_run d qc rc cx srvs [SvTask sample_env i, SvTake mb, SvTask sample_env i] st" "listening sid mb st1"
      "sv_mail st1 mb = sv_mail st mb @ [Ok x]" "sv_tasks st1 = map Lookup (remove_nth i ms)"
      "i = 0 \<longrightarrow> in_order (sv_event d qc rc cx srvs) sid [SvTask sample_env i, SvTake mb, SvTask sample_env i] st"
    using task_finishes [OF Cons.prems(2-4) i refl] by blast
  have "mset ms = add_mset x (mset (remove_nth i ms))"
    by (subst id_take_nth_drop [OF i(1)]) (simp add: remove_nth_def i(2))
  then have "mset xs = mset (remove_nth i ms)" using Cons.prems(1) by simp
  moreover have "\<forall>m \<in> set (remove_nth i ms). stream_id (header m) = sid" using Cons.prems(4) set_remove_nth [of i ms] by blast
  ultimately obtain evs st' where IH: "st' = sv_run d qc rc cx srvs evs st1" "concat (map frame_of evs) = []" "\<forall>ev \<in> set evs. leaves_open sid mb ev"
      "listening sid mb st'" "sv_mail st' mb = sv_mail st1 mb @ map Ok xs" "sv_tasks st' = []"
      "xs = remove_nth i ms \<longrightarrow> in_order (sv_event d qc rc cx srvs) sid evs st1"
    using Cons.IH [OF _ st1(2,4)] by blast
  have first: "i = 0 \<and> xs = remove_nth i ms" if "x # xs = ms" using that ms by (cases ys) (auto simp: i_def remove_nth_def)
  let ?evs = "[SvTask sample_env i, SvTake mb, SvTask sample_env i]"
  have "st' = sv_run d qc rc cx srvs (?evs @ evs) st" using IH(1) st1(1) by (simp only: sv_run_append)
  moreover have "concat (map frame_of (?evs @ evs)) = []" "\<forall>ev \<in> set (?evs @ evs). leaves_open sid mb ev" using IH(2,3) by simp_all
  moreover have "sv_mail st' mb = sv_mail st mb @ map Ok (x # xs)" using IH(5) st1(3) by simp
  moreover have "in_order (sv_event d qc rc cx srvs) sid (?evs @ evs) st" if "x # xs = ms"
    using first [OF that] IH(7) st1(1,5) by (simp only: in_order_append)
  ultimately show ?case using IH(4,6) by blast
qed

text \<open>
  C35: The order of a stream's messages is not kept on the server. Let frames of a stream that the transform decodes to any list of
  data messages be read from the wire. Then for every rearrangement of that list there is a run of the server, without the end of
  the handler or of the connection, after which the frames have been read in wire order, no task is pending, and
  the stream's channel has been given the messages in the rearranged order. In particular the close of a stream may overtake data that was
  sent before it, which the handler then never sees.
\<close>

theorem stream_data_reordered:
  assumes "listening sid mb st" and "odd sid" and "sv_tasks st = []" and "decodes cx insync ys t t'" and "insync t (sv_xst st)"
    and "\<forall>msg \<in> set (map snd ys). stream_id (header msg) = sid \<and> mh_type (header msg) = MESSAGE_TYPE_DATA"
    and "mset ms = mset (map snd ys)"
  shows "\<exists>evs. concat (map frame_of evs) = map fst ys \<and> (\<forall>ev \<in> set evs. leaves_open sid mb ev)
    \<and> sv_tasks (sv_run d qc rc cx srvs evs st) = [] \<and> sv_mail (sv_run d qc rc cx srvs evs st) mb = sv_mail st mb @ map Ok ms
    \<and> (ms = map snd ys \<longrightarrow> in_order (sv_event d qc rc cx srvs) sid evs st)"
proof -
  let ?reads = "map (SvFrame sample_env False) (map fst ys)"
  let ?st = "sv_run d qc rc cx srvs ?reads st"
  have read: "listening sid mb ?st" "sv_tasks ?st = map Lookup (map snd ys)" "sv_mail ?st mb = sv_mail st mb"
      "in_order (sv_event d qc rc cx srvs) sid ?reads st"
    using frames_read [OF assms(2,1,4,5), of "[]" ?reads sample_env ?st d qc rc srvs] assms(3,6) by simp_all
  obtain evs where evs: "concat (map frame_of evs) = []" "\<forall>ev \<in> set evs. leaves_open sid mb ev"
      "sv_mail (sv_run d qc rc cx srvs evs ?st) mb = sv_mail ?st mb @ map Ok ms" "sv_tasks (sv_run d qc rc cx srvs evs ?st) = []"
      "ms = map snd ys \<longrightarrow> in_order (sv_event d qc rc cx srvs) sid evs ?st"
    using tasks_finish [OF assms(7) read(1,2)] assms(6) by (metis)
  have "concat (map frame_of (?reads @ evs)) = map fst ys" using evs(1) frame_of_frames [of sample_env False "map fst ys"] by simp
  moreover have "\<forall>ev \<in> set (?reads @ evs). leaves_open sid mb ev" using evs(2) by auto
  ultimately show ?thesis
    using evs(3-5) read(3,4) by (intro exI [of _ "?reads @ evs"]) (simp add: sv_run_append in_order_append del: in_order.simps)
qed

text \<open>One message and the close through the sequencing transform: delivered in order, and with the close first.\<close>

definition demo_message :: response where
  "demo_message = response_set_payload [9] response_default"

definition demo_ops :: "response stream_op list" where
  "demo_ops = [Send free_env demo_message, CloseSend free_env]"

definition demo_server :: "seq_state server_conn" where
  "demo_server = snd (sv_register 1 (server_conn_new seq_start))"

lemma demo_encoded: "c_encode response_codec demo_message = Ok [18, 1, 9]"
  by (simp add: demo_message_def response_codec_def pb_codec_def Let_def response_set_payload_def
      response_default_def response_fields_def len_field_def write_fields_def write_field_def write_varint.simps)

lemma demo_ops_sent:
  "\<exists>s' t' q'. stream_ops response_codec seq_ctx demo_ops (client_stream_new (new_client 1 True True)) seq_start []
     = ([Some demo_message, None], s', t', q')"
  by (simp add: demo_ops_def client_stream_new_def stream_split_def new_client_def stream_inner_new_def client_stream_send_def
      typed_send_def stream_send_def client_stream_close_send_def cs_sender_close_send_def stream_close_send_def
      transform_send_def transform_send_inner_def free_env_def reserve_message_slot_def demo_encoded
      acquire_lock_def outbound_def seq_ctx_def max_raw_payload_len_def seq_xform_def
      DEFAULT_MAX_OVERHEAD_def seq_outbound_def serialize_aad_def send_ack_def seq_start_def wire_simps)

lemma demo_link: "linked seq_ctx seq_ctx seq_insync"
  using seq_duplex.duplex_transform_axioms by (simp add: linked_def seq_ctx_def)

lemma demo_server_ready:
  "listening 1 0 demo_server" "sv_mail demo_server 0 = []" "pending 1 demo_server = []" "sv_tasks demo_server = []"
  "seq_insync seq_start (sv_xst demo_server)"
  by (simp_all add: listening_def sv_owned_def routed_def pending_def demo_server_def sv_register_def server_conn_new_def shared_with_timeout_def
      is_shutdown_def seq_insync_def seq_start_def)

text \<open>The frames of the two and what they decode to.\<close>

lemma demo_frames:
  obtains s' t' q' ys where "stream_ops response_codec seq_ctx demo_ops (client_stream_new (new_client 1 True True)) seq_start []
      = ([Some demo_message, None], s', t', q')"
    "map fst ys = map sm_msg q'" "decodes seq_ctx seq_insync ys seq_start t'" "map snd ys = [gen_new_data 1 [18, 1, 9], gen_new_close 1]"
proof -
  let ?s = "client_stream_new (new_client 1 True True)"
  obtain s' t' q' where ops: "stream_ops response_codec seq_ctx demo_ops ?s seq_start [] = ([Some demo_message, None], s', t', q')"
    using demo_ops_sent by blast
  have other: "\<forall>x \<in> set demo_ops. op_elsewhere 1 x" by (simp add: demo_ops_def)
  have sid: "ss_stream_id (cs_tx ?s) = 1" by (simp add: client_stream_new_def stream_split_def new_client_def stream_inner_new_def)
  from stream_ops_decodes [OF demo_link other sid ops] obtain ys where ys: "map fst ys = map sm_msg q'" "decodes seq_ctx seq_insync ys seq_start t'"
      "list_all2 (own_frame response_codec 1) [Some demo_message, None] (of_stream 1 (map snd ys))" by auto
  have "length q' = 2"
    using ops by (auto simp: demo_ops_def client_stream_new_def stream_split_def new_client_def stream_inner_new_def client_stream_send_def
      typed_send_def stream_send_def client_stream_close_send_def cs_sender_close_send_def stream_close_send_def
      transform_send_def transform_send_inner_def free_env_def reserve_message_slot_def demo_encoded
      acquire_lock_def outbound_def seq_ctx_def max_raw_payload_len_def seq_xform_def
      DEFAULT_MAX_OVERHEAD_def seq_outbound_def serialize_aad_def send_ack_def seq_start_def wire_simps)
  then have "length (map snd ys) = length (of_stream 1 (map snd ys))"
    using arg_cong [OF ys(1), of length] list_all2_lengthD [OF ys(3)] by simp
  then have "of_stream 1 (map snd ys) = map snd ys" by (metis filter_id_conv length_filter_less less_irrefl)
  with ys(3) have "map snd ys = [gen_new_data 1 [18, 1, 9], gen_new_close 1]" by (auto simp: list_all2_Cons1 demo_encoded)
  then show thesis by (rule that [OF ops ys(1,2)])
qed

theorem stream_requests_delivered_witness:
  "\<exists>s' t' q' evs. stream_ops response_codec seq_ctx demo_ops (client_stream_new (new_client 1 True True)) seq_start []
       = ([Some demo_message, None], s', t', q')
     \<and> concat (map frame_of evs) = map sm_msg q'
     \<and> server_stream_recv_n response_codec response_codec 2 (server_stream_new (new_server 1 True True))
         (sv_mail (sv_run plain_display request_codec response_codec seq_ctx Map.empty evs demo_server) 0)
       = [Ok (Some demo_message), Ok None]"
proof -
  let ?s = "client_stream_new (new_client 1 True True)" and ?h = "server_stream_new (new_server 1 True True)"
  obtain s' t' q' ys where ops: "stream_ops response_codec seq_ctx demo_ops ?s seq_start [] = ([Some demo_message, None], s', t', q')"
      and ys: "map fst ys = map sm_msg q'" "decodes seq_ctx seq_insync ys seq_start t'" "map snd ys = [gen_new_data 1 [18, 1, 9], gen_new_close 1]"
    by (rule demo_frames)
  have ids: "ss_stream_id (cs_tx ?s) = 1" "recveivable (sst_rx ?h)" "\<not> remote_closed (sst_rx ?h)"
    by (simp_all add: client_stream_new_def server_stream_new_def stream_split_def new_client_def new_server_def stream_inner_new_def)
  have other: "\<forall>x \<in> set demo_ops. op_elsewhere 1 x" by (simp add: demo_ops_def)
  have odd: "odd (1 :: u32)" by simp
  let ?run = "sv_run plain_display request_codec response_codec seq_ctx Map.empty"
    and ?step = "sv_event plain_display request_codec response_codec seq_ctx Map.empty"
  have "\<forall>msg \<in> set (map snd ys). stream_id (header msg) = 1 \<and> mh_type (header msg) = MESSAGE_TYPE_DATA" by (simp add: ys(3) wire_simps)
  from frames_read [OF odd demo_server_ready(1) ys(2) demo_server_ready(5), where ms = "[]", OF _ this refl refl] demo_server_ready(4)
  obtain st where st: "st = ?run (map (SvFrame sample_env False) (map fst ys)) demo_server" "listening 1 0 st" "sv_tasks st = map Lookup (map snd ys)"
      "sv_mail st 0 = sv_mail demo_server 0" "in_order ?step 1 (map (SvFrame sample_env False) (map fst ys)) demo_server"
    by (metis append_Nil list.simps(8))
  have sids: "\<forall>m \<in> set (map snd ys). stream_id (header m) = 1" by (simp add: ys(3) wire_simps)
  obtain evs where evs: "concat (map frame_of evs) = []" "\<forall>ev \<in> set evs. leaves_open 1 0 ev" "sv_tasks (?run evs st) = []" "in_order ?step 1 evs st"
    using tasks_finish [OF refl st(2,3) sids] by blast
  let ?evs = "map (SvFrame sample_env False) (map fst ys) @ evs"
  have frames: "concat (map frame_of ?evs) = map sm_msg (drop (length []) q')"
    using evs(1) frame_of_frames [of sample_env False "map fst ys"] ys(1) by simp
  have open_evs: "\<forall>ev \<in> set ?evs. leaves_open 1 0 ev" using evs(2) by auto
  have "in_order ?step 1 ?evs demo_server" "sv_tasks (?run ?evs demo_server) = []"
    using evs(3,4) st(1,5) by (simp_all add: in_order_append sv_run_append del: in_order.simps)
  with stream_requests_delivered [OF demo_link resp_codec.codec_laws_axioms odd ids(1) other ops demo_server_ready(1-3,5) frames open_evs refl ids(2,3)]
  have "server_stream_recv_n response_codec response_codec (length [Some demo_message, None]) ?h (sv_mail (?run ?evs demo_server) 0)
      = expected [Some demo_message, None]" by (auto simp: pending_def)
  with ops frames show ?thesis
    by (intro exI [of _ s'] exI [of _ t'] exI [of _ q'] exI [of _ ?evs]) (simp add: numeral_2_eq_2)
qed

theorem stream_data_reordered_witness:
  "\<exists>s' t' q' evs. stream_ops response_codec seq_ctx demo_ops (client_stream_new (new_client 1 True True)) seq_start []
       = ([Some demo_message, None], s', t', q')
     \<and> concat (map frame_of evs) = map sm_msg q'
     \<and> server_stream_recv_n response_codec response_codec 2 (server_stream_new (new_server 1 True True))
         (sv_mail (sv_run plain_display request_codec response_codec seq_ctx Map.empty evs demo_server) 0)
       = [Ok None, Err RemoteClosed]"
proof -
  let ?h = "server_stream_new (new_server 1 True True)" and ?ms = "[gen_new_close 1, gen_new_data 1 [18, 1, 9]]"
  obtain s' t' q' ys where ops: "stream_ops response_codec seq_ctx demo_ops (client_stream_new (new_client 1 True True)) seq_start []
        = ([Some demo_message, None], s', t', q')"
      and ys: "map fst ys = map sm_msg q'" "decodes seq_ctx seq_insync ys seq_start t'" "map snd ys = [gen_new_data 1 [18, 1, 9], gen_new_close 1]"
    by (rule demo_frames)
  have msgs: "\<forall>msg \<in> set (map snd ys). stream_id (header msg) = 1 \<and> mh_type (header msg) = MESSAGE_TYPE_DATA" by (simp add: ys(3) wire_simps)
  have "mset ?ms = mset (map snd ys)" by (simp add: ys(3))
  from stream_data_reordered [OF demo_server_ready(1) _ demo_server_ready(4) ys(2) demo_server_ready(5) msgs this] demo_server_ready(2)
  obtain evs where evs: "concat (map frame_of evs) = map fst ys"
      "sv_mail (sv_run plain_display request_codec response_codec seq_ctx Map.empty evs demo_server) 0 = map Ok ?ms"
    by (metis append_Nil odd_one)
  have h: "recveivable (sst_rx ?h)" "\<not> remote_closed (sst_rx ?h)"
    by (simp_all add: server_stream_new_def stream_split_def new_server_def stream_inner_new_def)
  have "server_stream_recv_n response_codec response_codec 2 ?h (map Ok ?ms) = [Ok None, Err RemoteClosed]"
    using recv_close [OF h(2,1)] by (simp add: numeral_2_eq_2 server_stream_recv_def opt_recv_def recv_after_close)
  with ops evs ys(1) show ?thesis by (intro exI [of _ s'] exI [of _ t'] exI [of _ q'] exI [of _ evs]) simp
qed

end
