(* ===== verification/StreamReply.thy ===== *)
theory StreamReply
  imports StreamRpc
begin

text \<open>
  The other direction of a stream: what the handler of a stream sends, and how it ends, as the client's handle of the
  stream receives it (\<open>stream.rs\<close>, \<open>server.rs\<close>, \<open>client.rs\<close> and \<open>security_extension.rs\<close> composed).
\<close>

subsection \<open>What the two ends do\<close>

text \<open>What the server puts on a stream: a message, or the end of the handler as an answer or a close.\<close>

datatype 'p item = Message 'p | Answer response | Closed

fun end_item :: "status + response option \<Rightarrow> 'p item" where
  "end_item (Inl s) = Answer (init_status s)"
| "end_item (Inr (Some resp)) = Answer resp"
| "end_item (Inr None) = Closed"

fun item_fits :: "response codec \<Rightarrow> ('d, 't) conn_ctx \<Rightarrow> 'p item \<Rightarrow> bool" where
  "item_fits rc cx (Answer resp) = (case c_encode rc resp of Inr p \<Rightarrow> length p \<le> max_raw_payload_len cx | Inl _ \<Rightarrow> False)"
| "item_fits rc cx _ = True"

text \<open>
  The server while a handler works on the stream: sends of the handler's handle, its end, and any other event of the
  connection. A frame of the stream itself must not be answered, as it is when the stream is registered. The list holds
  what was queued for the stream.
\<close>

inductive serves ::
  "'p codec \<Rightarrow> display \<Rightarrow> request codec \<Rightarrow> response codec \<Rightarrow> ('d, 't) conn_ctx \<Rightarrow> 'd services \<Rightarrow> server_stream
    \<Rightarrow> 'p item list \<Rightarrow> 't server_conn \<Rightarrow> 't server_conn \<Rightarrow> bool"
  for pc d qc rc cx srvs s where
  serves_refl: "serves pc d qc rc cx srvs s [] st st"
| serves_send: "serves pc d qc rc cx srvs s sent st st1 \<Longrightarrow>
    server_stream_send pc cx env s m (sv_xst st1) (sv_tx st1) = (res, t', q') \<Longrightarrow>
    serves pc d qc rc cx srvs s (sent @ (if length (sv_tx st1) < length q' then [Message m] else [])) st (st1\<lparr>sv_xst := t', sv_tx := q'\<rparr>)"
| serves_done: "serves pc d qc rc cx srvs s sent st st1 \<Longrightarrow>
    st2 = hc_stream_done d rc cx env (ss_stream_id (sst_tx s)) mb path r st1 \<Longrightarrow> item_fits rc cx (end_item (stream_outcome d path r) :: 'p item) \<Longrightarrow>
    serves pc d qc rc cx srvs s (sent @ (if length (sv_tx st1) < length (sv_tx st2) then [end_item (stream_outcome d path r)] else [])) st st2"
| serves_event: "serves pc d qc rc cx srvs s sent st st1 \<Longrightarrow> st2 = sv_event d qc rc cx srvs ev st1 \<Longrightarrow>
    (ev_on ev st1 = Some (ss_stream_id (sst_tx s)) \<Longrightarrow> sv_tx st2 = sv_tx st1) \<Longrightarrow> serves pc d qc rc cx srvs s sent st st2"

text \<open>
  The client while the stream is open: frames read in order, and anything that other calls do, with other stream ids (the
  id given out next is another one unless \<open>2 ^ 31\<close> calls have been made since).
\<close>

inductive reads ::
  "request codec \<Rightarrow> ('d, 't) conn_ctx \<Rightarrow> (message_header \<Rightarrow> string) \<Rightarrow> u32 \<Rightarrow> nat \<Rightarrow> gen_message list \<Rightarrow> 't client \<Rightarrow> 't client \<Rightarrow> bool"
  for qc cx dbg sid mb where
  reads_refl: "reads qc cx dbg sid mb [] st st"
| reads_frame: "reads qc cx dbg sid mb fs st st1 \<Longrightarrow> reads qc cx dbg sid mb (fs @ [f]) st (cl_handle_msg cx dbg f st1)"
| reads_err: "reads qc cx dbg sid mb fs st st1 \<Longrightarrow> stream_id mh \<noteq> sid \<Longrightarrow> reads qc cx dbg sid mb fs st (cl_handle_err mh e st1)"
| reads_send: "reads qc cx dbg sid mb fs st st1 \<Longrightarrow>
    transform_send_inner cx env b aw ctl msg (xst st1) (req_tx st1) = (res, t', q') \<Longrightarrow>
    reads qc cx dbg sid mb fs st (st1\<lparr>xst := t', req_tx := q'\<rparr>)"
| reads_start: "reads qc cx dbg sid mb fs st st1 \<Longrightarrow> next_stream_id st1 \<noteq> sid \<Longrightarrow> request_start qc now req st1 = (r, st2) \<Longrightarrow>
    reads qc cx dbg sid mb fs st st2"
| reads_leave: "reads qc cx dbg sid mb fs st st1 \<Longrightarrow> ca_sid ca \<noteq> sid \<Longrightarrow> ca_mb ca \<noteq> mb \<Longrightarrow>
    reads qc cx dbg sid mb fs st (request_leave disarmed ca st1)"

text \<open>What the client's handle should receive.\<close>

fun client_stream_receiver_recv_n ::
  "'p codec \<Rightarrow> response codec \<Rightarrow> nat \<Rightarrow> 'c client_stream_receiver \<Rightarrow> (error + gen_message) list \<Rightarrow> (error + 'p option) list" where
  "client_stream_receiver_recv_n c rc 0 s chan_rx = []"
| "client_stream_receiver_recv_n c rc (Suc n) s chan_rx =
     (case client_stream_receiver_recv c rc s chan_rx of (res, s', chan_rx') \<Rightarrow> res # client_stream_receiver_recv_n c rc n s' chan_rx')"

definition answer_view :: "'p codec \<Rightarrow> response \<Rightarrow> error + 'p option" where
  "answer_view pc resp =
     (case non_ok resp of
        Some st \<Rightarrow> Err (RpcStatus st)
      | None \<Rightarrow> rbind (map_err (err_to_others ''Decode message failed.'') (c_decode pc (resp_payload resp))) (\<lambda>m. Ok (Some m)))"

fun expected_items :: "'p codec \<Rightarrow> 'p item list \<Rightarrow> (error + 'p option) list" where
  "expected_items pc [] = []"
| "expected_items pc (Message m # xs) = Ok (Some m) # expected_items pc xs"
| "expected_items pc (Answer resp # xs) = answer_view pc resp # replicate (length xs) (Err RemoteClosed)"
| "expected_items pc (Closed # xs) = Ok None # replicate (length xs) (Err RemoteClosed)"

fun own_item :: "'p codec \<Rightarrow> response codec \<Rightarrow> u32 \<Rightarrow> 'p item \<Rightarrow> gen_message \<Rightarrow> bool" where
  "own_item pc rc sid (Message m) msg = (\<exists>buf. c_encode pc m = Ok buf \<and> length buf \<le> MESSAGE_LENGTH_MAX \<and> msg = gen_new_data sid buf)"
| "own_item pc rc sid (Answer resp) msg = (\<exists>p. c_encode rc resp = Ok p \<and> msg = gen_new_response sid p)"
| "own_item pc rc sid Closed msg = (msg = gen_new_close sid)"

subsection \<open>The server's side\<close>

text \<open>A step of the server queues frames that a receiver in step decodes to the given messages.\<close>

definition queues :: "('d, 't) conn_ctx \<Rightarrow> ('t \<Rightarrow> 't \<Rightarrow> bool) \<Rightarrow> gen_message list \<Rightarrow> 't server_conn \<Rightarrow> 't server_conn \<Rightarrow> bool" where
  "queues cx insync msgs st st' \<longleftrightarrow> (\<exists>new ys. sv_tx st' = sv_tx st @ new \<and> map fst ys = map sm_msg new \<and> map snd ys = msgs
     \<and> decodes cx insync ys (sv_xst st) (sv_xst st'))"

lemma queues_length: "queues cx insync msgs st st' \<Longrightarrow> length (sv_tx st') = length (sv_tx st) + length msgs"
  by (auto simp: queues_def) (metis length_map)

lemma queues_silent:
  "\<lbrakk>sv_tx st' = sv_tx st; \<forall>r. insync (sv_xst st) r \<longrightarrow> insync (sv_xst st') r\<rbrakk> \<Longrightarrow> queues cx insync [] st st'"
  by (auto simp: queues_def)

lemma decodes_append:
  "\<lbrakk>decodes cx insync xs t t1; decodes cx insync ys t1 t'\<rbrakk> \<Longrightarrow> decodes cx insync (xs @ ys) t t'"
proof (induction cx insync xs t t1 rule: decodes.induct)
  case (1 cx insync t t1)
  then show ?case by (simp add: decodes_silent)
qed auto

lemma queues_trans: "\<lbrakk>queues cx insync ms st st1; queues cx insync ns st1 st2\<rbrakk> \<Longrightarrow> queues cx insync (ms @ ns) st st2"
proof -
  assume "queues cx insync ms st st1" "queues cx insync ns st1 st2"
  then obtain new ys new' ys' where "sv_tx st1 = sv_tx st @ new" "map fst ys = map sm_msg new" "map snd ys = ms" "decodes cx insync ys (sv_xst st) (sv_xst st1)"
      "sv_tx st2 = sv_tx st1 @ new'" "map fst ys' = map sm_msg new'" "map snd ys' = ns" "decodes cx insync ys' (sv_xst st1) (sv_xst st2)"
    by (auto simp: queues_def)
  then show ?thesis
    unfolding queues_def by (intro exI [of _ "new @ new'"] exI [of _ "ys @ ys'"]) (auto intro: decodes_append)
qed

lemma transform_send_queues:
  assumes "linked cx cx' insync" and "honest msg"
    and "transform_send_inner cx env b aw ctl msg (sv_xst st) (sv_tx st) = (res, t', q')"
  shows "queues cx' insync [] st (st\<lparr>sv_xst := t', sv_tx := q'\<rparr>)
    \<or> queues cx' insync [msg] st (st\<lparr>sv_xst := t', sv_tx := q'\<rparr>) \<and> length (payload msg) \<le> MESSAGE_LENGTH_MAX"
  using assms
proof (cases rule: send_decodes)
  case silent
  then show ?thesis by (simp add: queues_silent)
next
  case (queued x)
  then show ?thesis unfolding queues_def by (intro disjI2 conjI exI [of _ "[x]"] exI [of _ "[(sm_msg x, msg)]"]) simp_all
qed

lemma sv_send_queues:
  assumes "linked cx cx' insync" and "honest msg"
  obtains (silent) "queues cx' insync [] st (snd (sv_send cx env b msg st))" | (sent) "queues cx' insync [msg] st (snd (sv_send cx env b msg st))"
proof -
  obtain r t' q' where s: "transform_send_inner cx env b False None msg (sv_xst st) (sv_tx st) = (r, t', q')" by (metis prod_cases3)
  then have "snd (sv_send cx env b msg st) = st\<lparr>sv_xst := t', sv_tx := q'\<rparr>" by (simp add: sv_send_def transform_send_def)
  with transform_send_queues [OF assms s] that show ?thesis by auto
qed

text \<open>Other events of the connection queue frames of their own stream.\<close>

definition queues_on :: "('d, 't) conn_ctx \<Rightarrow> ('t \<Rightarrow> 't \<Rightarrow> bool) \<Rightarrow> u32 \<Rightarrow> 't server_conn \<Rightarrow> 't server_conn \<Rightarrow> bool" where
  "queues_on cx insync sid st st' \<longleftrightarrow> (\<exists>msgs. queues cx insync msgs st st' \<and> (\<forall>m \<in> set msgs. stream_id (header m) = sid))"

lemma queues_on_silent: "queues cx insync [] st st' \<Longrightarrow> queues_on cx insync sid st st'"
  unfolding queues_on_def by (intro exI [of _ "[]"]) simp

lemma queues_on_refl: "queues_on cx insync sid st st"
  by (simp add: queues_on_silent queues_silent)

lemma queues_on_after:
  "\<lbrakk>sv_tx st1 = sv_tx st; \<forall>r. insync (sv_xst st) r \<longrightarrow> insync (sv_xst st1) r; queues_on cx insync sid st1 st2\<rbrakk> \<Longrightarrow> queues_on cx insync sid st st2"
  using queues_trans [OF queues_silent] unfolding queues_on_def by (metis append_Nil)

lemma queues_on_send:
  assumes "linked cx cx' insync" and "honest msg" and "stream_id (header msg) = sid"
  shows "queues_on cx' insync sid st (snd (sv_send cx env b msg st))"
  using assms(1,2)
proof (cases rule: sv_send_queues [where st = st and env = env and b = b])
  case silent
  then show ?thesis by (rule queues_on_silent)
next
  case sent
  with assms(3) show ?thesis unfolding queues_on_def by (intro exI [of _ "[msg]"]) simp
qed

lemma queues_on_respond:
  assumes "linked cx cx' insync"
  shows "queues_on cx' insync sid st (snd (respond rc cx env sid resp st))"
proof (cases "respond_payload rc cx resp")
  case (Inl e)
  then show ?thesis by (simp add: respond_def queues_on_refl)
next
  case (Inr p)
  have "stream_id (header (gen_new_response sid p)) = sid" by (simp add: wire_simps)
  from queues_on_send [OF assms honest_new(2) this] Inr show ?thesis by (simp add: respond_def)
qed

lemma queues_on_reply:
  assumes "linked cx cx' insync"
  shows "queues_on cx' insync sid st (hc_reply d rc cx env sid res st)"
proof -
  have "stream_id (header (gen_new_close sid)) = sid" by (simp add: wire_simps)
  note close = queues_on_send [OF assms honest_new(3) this]
  show ?thesis
    by (auto simp: hc_reply_def respond_with_status_def queues_on_refl queues_on_respond [OF assms] close Let_def
        split: option.split sum.split)
qed

lemma handle_request_xst: "sv_xst (snd (handle_request d qc cx srvs early msg st)) = sv_xst st"
  by (auto simp: handle_request_def handle_stream_def sv_register_def sv_stream_end_def sv_mail_send_def Let_def
      split: sum.split option.split)

lemma queues_on_msg:
  assumes "linked cx cx' insync"
  shows "queues_on cx' insync (stream_id (header msg)) st (hc_handle_msg d qc rc cx srvs env early msg st)"
proof -
  let ?sid = "stream_id (header msg)"
  have status: "queues_on cx' insync ?sid st (respond_with_status rc cx env ?sid s st)" for s st
    by (simp add: respond_with_status_def queues_on_respond [OF assms])
  have req: "queues_on cx' insync ?sid st (case handle_request d qc cx srvs early msg st of (res, st') \<Rightarrow> hc_reply d rc cx env ?sid res st')"
    unfolding split_beta by (rule queues_on_after [OF handle_request_tx(1) _ queues_on_reply [OF assms]]) (simp add: handle_request_xst)
  show ?thesis by (auto simp: hc_handle_msg_def Let_def req status intro!: queues_on_silent queues_silent)
qed

lemma queues_on_task:
  assumes "linked cx cx' insync" and "i < length (sv_tasks st)"
  shows "queues_on cx' insync (stream_id (header (task_msg (sv_tasks st ! i)))) st (hc_data_step rc cx env i st)"
proof -
  have status: "queues_on cx' insync sid st (respond_with_status rc cx env sid s (hc_task_end i st))" for sid s
    unfolding respond_with_status_def
    by (rule queues_on_after [OF _ _ queues_on_respond [OF assms(1)]]) (simp_all add: hc_task_end_def)
  show ?thesis
  proof (cases "sv_tasks st ! i")
    case (Lookup msg)
    with assms(2) status show ?thesis
      by (auto simp: hc_data_step_def Let_def intro!: queues_on_silent queues_silent split: option.split)
  next
    case (Delivering mb msg)
    with assms(2) status show ?thesis
      by (auto simp: hc_data_step_def Let_def sv_mail_send_def hc_task_end_def intro!: queues_on_silent queues_silent)
  qed
qed

lemma event_queues:
  assumes "linked cx cx' insync"
  shows "\<exists>msgs. queues cx' insync msgs st (sv_event d qc rc cx srvs ev st) \<and> (\<forall>m \<in> set msgs. ev_on ev st = Some (stream_id (header m)))"
proof (cases ev)
  case (SvFrame env early frame)
  obtain r t' msg where i: "inbound cx (sv_xst st) frame (mh_type (header frame) = MESSAGE_TYPE_REQUEST) = (r, t', msg)" by (metis prod_cases3)
  have sync: "\<forall>u. insync (sv_xst st) u \<longrightarrow> insync t' u" using linked_inbound_rev [OF assms i] by blast
  have "queues_on cx' insync (stream_id (header frame)) st (sv_handle_msg d qc rc cx srvs env early frame st)"
  proof (cases "is_shutdown (handler_shutdown st)")
    case True
    then show ?thesis by (simp add: sv_handle_msg_def queues_on_refl)
  next
    case False
    show ?thesis
    proof (cases r)
      case (Inl e)
      with False i sync show ?thesis by (simp add: sv_handle_msg_def queues_on_silent queues_silent)
    next
      case (Inr u)
      have "stream_id (header msg) = stream_id (header frame)" using inbound_stream_id i Inr by simp
      moreover have "queues_on cx' insync (stream_id (header msg)) st (hc_handle_msg d qc rc cx srvs env early msg (st\<lparr>sv_xst := t'\<rparr>))"
        by (rule queues_on_after [OF _ _ queues_on_msg [OF assms]]) (use sync in simp_all)
      ultimately show ?thesis using False i Inr by (simp add: sv_handle_msg_def)
    qed
  qed
  with SvFrame show ?thesis by (auto simp: queues_on_def)
next
  case (SvErr env mh e)
  have "queues_on cx' insync (stream_id mh) st (hc_handle_err d rc cx env mh e st)"
    unfolding hc_handle_err_def by (rule queues_on_respond [OF assms])
  with SvErr show ?thesis by (auto simp: queues_on_def)
next
  case (SvDone env sid mb path r)
  have "queues_on cx' insync sid st (hc_stream_done d rc cx env sid mb path r st)"
    unfolding hc_stream_done_def by (rule queues_on_after [OF _ _ queues_on_reply [OF assms]]) (simp_all add: sv_stream_end_def)
  with SvDone show ?thesis by (auto simp: queues_on_def)
next
  case (SvTask env i)
  show ?thesis
  proof (cases "i < length (sv_tasks st)")
    case True
    from queues_on_task [OF assms True, of rc env] SvTask True show ?thesis by (auto simp: queues_on_def)
  next
    case False
    with SvTask show ?thesis by (intro exI [of _ "[]"]) (simp add: hc_data_step_def queues_silent)
  qed
next
  case (SvTake mb)
  then show ?thesis by (intro exI [of _ "[]"]) (simp add: sv_take_def queues_silent)
next
  case (SvCancel i)
  then show ?thesis by (intro exI [of _ "[]"]) (simp add: hc_task_cancel_def hc_task_end_def queues_silent)
next
  case (SvDisconnect e)
  then show ?thesis by (intro exI [of _ "[]"]) (simp add: sv_disconnect_def queues_silent)
qed

text \<open>The end of the handler.\<close>

lemma end_item_queues:
  assumes "linked cx cx' insync" and "codec_laws rc dr" and "item_fits rc cx (end_item out :: 'p item)"
  shows "\<exists>msgs. queues cx' insync msgs st (hc_reply d rc cx env sid (Some out) st)
    \<and> (msgs = [] \<or> (\<exists>msg. msgs = [msg] \<and> own_item pc rc sid (end_item out :: 'p item) msg \<and> stream_id (header msg) = sid))"
proof -
  have answer: "\<exists>p. c_encode rc resp = Ok p \<and> snd (respond rc cx env sid resp st) = snd (sv_send cx env True (gen_new_response sid p) st)
      \<and> check_oversize (unat (c_size rc resp)) True = Ok ()" if "end_item out = (Answer resp :: 'p item)" for resp
  proof -
    from that assms(3) obtain p where p: "c_encode rc resp = Ok p" "length p \<le> max_raw_payload_len cx" by (auto split: sum.splits)
    have "length p \<le> MESSAGE_LENGTH_MAX" using p(2) max_raw_le [of cx] by linarith
    then have "unat (c_size rc resp) \<le> MESSAGE_LENGTH_MAX"
      using codec_laws.size_encode [OF assms(2) p(1)] by (simp add: unat_of_nat take_bit_eq_mod MESSAGE_LENGTH_MAX_def)
    with p show ?thesis by (auto simp: respond_def respond_payload_def Let_def)
  qed
  have "\<exists>b msg. hc_reply d rc cx env sid (Some out) st = snd (sv_send cx env b msg st) \<and> honest msg
      \<and> own_item pc rc sid (end_item out :: 'p item) msg \<and> stream_id (header msg) = sid"
  proof (cases out rule: end_item.cases)
    case (1 s)
    with answer [of "init_status s"] obtain p where "c_encode rc (init_status s) = Ok p"
        "snd (respond rc cx env sid (init_status s) st) = snd (sv_send cx env True (gen_new_response sid p) st)" by auto
    with 1 show ?thesis
      by (intro exI [of _ True] exI [of _ "gen_new_response sid p"]) (simp add: hc_reply_def respond_with_status_def, simp add: wire_simps)
  next
    case (2 resp)
    with answer [of resp] obtain p where "c_encode rc resp = Ok p"
        "snd (respond rc cx env sid resp st) = snd (sv_send cx env True (gen_new_response sid p) st)" "check_oversize (unat (c_size rc resp)) True = Ok ()" by auto
    with 2 show ?thesis
      by (intro exI [of _ True] exI [of _ "gen_new_response sid p"]) (simp add: hc_reply_def, simp add: wire_simps)
  next
    case 3
    then show ?thesis by (intro exI [of _ False] exI [of _ "gen_new_close sid"]) (simp add: hc_reply_def, simp add: wire_simps)
  qed
  then obtain b msg where msg: "hc_reply d rc cx env sid (Some out) st = snd (sv_send cx env b msg st)" "honest msg"
      "own_item pc rc sid (end_item out :: 'p item) msg" "stream_id (header msg) = sid" by blast
  from assms(1) msg(2) show ?thesis
  proof (cases rule: sv_send_queues [where st = st and env = env and b = b])
    case silent
    with msg show ?thesis by auto
  next
    case sent
    with msg show ?thesis by auto
  qed
qed

text \<open>A message of the handler.\<close>

lemma message_queues:
  assumes "linked cx cx' insync" and "ss_stream_id (sst_tx s) = sid"
    and "server_stream_send pc cx env s m (sv_xst st) (sv_tx st) = (res, t', q')"
  shows "\<exists>msgs. queues cx' insync msgs st (st\<lparr>sv_xst := t', sv_tx := q'\<rparr>)
    \<and> (msgs = [] \<or> (\<exists>msg. msgs = [msg] \<and> own_item pc rc sid (Message m) msg \<and> stream_id (header msg) = sid))"
proof (cases "is_ok (c_encode pc m) \<and> \<not> local_closed (sst_tx s)")
  case True
  then obtain buf where buf: "c_encode pc m = Ok buf" by (cases "c_encode pc m") auto
  with True assms(2,3) have "transform_send_inner cx env False True None (gen_new_data sid buf) (sv_xst st) (sv_tx st) = (res, t', q')"
    by (simp add: server_stream_send_def ss_sender_send_def stream_send_def transform_send_def)
  from transform_send_queues [OF assms(1) honest_new(1) this] show ?thesis
  proof
    assume "queues cx' insync [gen_new_data sid buf] st (st\<lparr>sv_xst := t', sv_tx := q'\<rparr>) \<and> length (payload (gen_new_data sid buf)) \<le> MESSAGE_LENGTH_MAX"
    with buf show ?thesis by (intro exI [of _ "[gen_new_data sid buf]"]) (auto simp: wire_simps)
  qed blast
next
  case False
  with assms(3) have "t' = sv_xst st" "q' = sv_tx st"
    by (cases "c_encode pc m"; simp add: server_stream_send_def ss_sender_send_def stream_send_def)+
  then show ?thesis by (intro exI [of _ "[]"]) (simp add: queues_silent)
qed

text \<open>What a run of the server queues for the stream.\<close>

lemma queues_own:
  assumes "\<exists>msgs. queues cx' insync msgs st st1 \<and> list_all2 (own_item pc rc sid) sent (of_stream sid msgs)"
    and "\<exists>msgs. queues cx' insync msgs st1 st2 \<and> (msgs = [] \<or> (\<exists>msg. msgs = [msg] \<and> own_item pc rc sid it msg \<and> stream_id (header msg) = sid))"
  shows "\<exists>msgs. queues cx' insync msgs st st2
    \<and> list_all2 (own_item pc rc sid) (sent @ (if length (sv_tx st1) < length (sv_tx st2) then [it] else [])) (of_stream sid msgs)"
proof -
  obtain ms where ms: "queues cx' insync ms st st1" "list_all2 (own_item pc rc sid) sent (of_stream sid ms)" using assms(1) by blast
  obtain ns where ns: "queues cx' insync ns st1 st2" "ns = [] \<or> (\<exists>msg. ns = [msg] \<and> own_item pc rc sid it msg \<and> stream_id (header msg) = sid)"
    using assms(2) by blast
  have "list_all2 (own_item pc rc sid) (if length (sv_tx st1) < length (sv_tx st2) then [it] else []) (of_stream sid ns)"
    using ns(2) queues_length [OF ns(1)] by auto
  with ms(2) queues_trans [OF ms(1) ns(1)] show ?thesis by (intro exI [of _ "ms @ ns"]) (simp add: list_all2_appendI)
qed

lemma serves_queues:
  assumes "serves pc d qc rc cx srvs s sent st st'" and "linked cx cx' insync" and "codec_laws rc dr" and "ss_stream_id (sst_tx s) = sid"
  shows "\<exists>msgs. queues cx' insync msgs st st' \<and> list_all2 (own_item pc rc sid) sent (of_stream sid msgs)"
  using assms(1)
proof (induction rule: serves.induct)
  case (serves_refl st)
  then show ?case by (intro exI [of _ "[]"]) (simp add: queues_silent)
next
  case (serves_send sent st st1 env m res t' q')
  from queues_own [OF serves_send.IH message_queues [OF assms(2,4) serves_send.hyps(2)]] show ?case by simp
next
  case (serves_done sent st st1 st2 env mb path r)
  let ?st = "sv_stream_end sid mb st1"
  obtain msgs where msgs: "queues cx' insync msgs ?st st2"
      "msgs = [] \<or> (\<exists>msg. msgs = [msg] \<and> own_item pc rc sid (end_item (stream_outcome d path r)) msg \<and> stream_id (header msg) = sid)"
    using end_item_queues [OF assms(2,3) serves_done.hyps(3), of ?st d env sid pc] serves_done.hyps(2) assms(4)
    by (auto simp: hc_stream_done_def)
  have "queues cx' insync [] st1 ?st" by (simp add: queues_silent sv_stream_end_def)
  from queues_trans [OF this msgs(1)] msgs(2) have "\<exists>msgs. queues cx' insync msgs st1 st2
      \<and> (msgs = [] \<or> (\<exists>msg. msgs = [msg] \<and> own_item pc rc sid (end_item (stream_outcome d path r)) msg \<and> stream_id (header msg) = sid))"
    by (intro exI [of _ msgs]) simp
  from queues_own [OF serves_done.IH this] show ?case .
next
  case (serves_event sent st st1 st2 ev)
  obtain ms where ms: "queues cx' insync ms st st1" "list_all2 (own_item pc rc sid) sent (of_stream sid ms)" using serves_event.IH by blast
  obtain ns where ns: "queues cx' insync ns st1 st2" "\<forall>m \<in> set ns. ev_on ev st1 = Some (stream_id (header m))"
    using event_queues [OF assms(2)] serves_event.hyps(2) by blast
  have "of_stream sid ns = []"
  proof (cases "ev_on ev st1 = Some sid")
    case True
    with serves_event.hyps(3) assms(4) queues_length [OF ns(1)] show ?thesis by simp
  next
    case False
    with ns(2) show ?thesis by (auto simp: filter_empty_conv)
  qed
  with ms(2) queues_trans [OF ms(1) ns(1)] show ?case by (intro exI [of _ "ms @ ns"]) simp
qed

subsection \<open>The client's side\<close>

text \<open>The stream is registered, or its end has been read and it is not registered any more.\<close>

definition tuned :: "u32 \<Rightarrow> nat \<Rightarrow> bool \<Rightarrow> 't client \<Rightarrow> bool" where
  "tuned sid mb over st \<longleftrightarrow> mb < next_mb st \<and> (\<forall>sid'. streams st sid' = Some mb \<longrightarrow> sid' = sid)
     \<and> (if over then streams st sid = None else streams st sid = Some mb \<and> rx_alive st mb)"

definition cl_undisturbed :: "u32 \<Rightarrow> nat \<Rightarrow> bool \<Rightarrow> ('t \<Rightarrow> bool) \<Rightarrow> 't client \<Rightarrow> 't client \<Rightarrow> bool" where
  "cl_undisturbed sid mb over ok st st' \<longleftrightarrow> (tuned sid mb over st \<and> ok (xst st) \<longrightarrow>
     tuned sid mb over st' \<and> ok (xst st') \<and> mail st' mb = mail st mb)"

lemma cl_undisturbed_fail: "sid' \<noteq> sid \<Longrightarrow> cl_undisturbed sid mb over ok st (fail_stream sid' e st)"
  by (auto simp: cl_undisturbed_def tuned_def frame_rules fail_stream_streams fail_stream_mail)

lemma cl_undisturbed_start:
  "next_stream_id st \<noteq> sid \<Longrightarrow> request_start qc now req st = (r, st') \<Longrightarrow> cl_undisturbed sid mb over ok st st'"
proof -
  assume sid: "next_stream_id st \<noteq> sid" and start: "request_start qc now req st = (r, st')"
  show ?thesis
  proof (cases "encode_request qc (next_stream_id st) req")
    case (Inl e)
    with start have "st' = st\<lparr>next_stream_id := next_stream_id st + 2\<rparr>" by (simp add: request_start_def alloc_stream_id_def)
    then show ?thesis by (simp add: cl_undisturbed_def tuned_def)
  next
    case (Inr g)
    with start have "st' = snd (register_stream (next_stream_id st) (st\<lparr>next_stream_id := next_stream_id st + 2\<rparr>))"
      by (auto simp: request_start_def alloc_stream_id_def split: prod.splits)
    with sid show ?thesis by (cases over) (simp_all add: cl_undisturbed_def tuned_def register_stream_def)
  qed
qed

lemma cl_undisturbed_leave:
  "ca_sid ca \<noteq> sid \<Longrightarrow> ca_mb ca \<noteq> mb \<Longrightarrow> cl_undisturbed sid mb over ok st (request_leave disarmed ca st)"
  by (auto simp: cl_undisturbed_def tuned_def request_leave_def remove_stream_def Let_def)

lemma cl_undisturbed_send:
  assumes "linked cx cx' insync" and "transform_send_inner cx' env b aw ctl msg (xst st) (req_tx st) = (res, t', q')"
  shows "cl_undisturbed sid mb over (insync u) st (st\<lparr>xst := t', req_tx := q'\<rparr>)"
proof -
  from assms(2) have "insync u (xst st) \<Longrightarrow> insync u t'"
    by (cases rule: transform_send_cases) (use linked_outbound_rev [OF assms(1)] in blast)+
  then show ?thesis by (simp add: cl_undisturbed_def tuned_def)
qed

text \<open>The messages of a stream up to the one that ends it.\<close>

fun upto_end :: "gen_message list \<Rightarrow> gen_message list" where
  "upto_end [] = []"
| "upto_end (m # ms) = m # (if ends_stream (header m) then [] else upto_end ms)"

definition stream_over :: "gen_message list \<Rightarrow> bool" where
  "stream_over ms \<longleftrightarrow> (\<exists>m \<in> set ms. ends_stream (header m))"

lemma upto_end_snoc: "upto_end (ms @ [m]) = upto_end ms @ (if stream_over ms then [] else [m])"
  by (induction ms) (auto simp: stream_over_def)

lemma stream_over_snoc: "stream_over (ms @ [m]) \<longleftrightarrow> stream_over ms \<or> ends_stream (header m)"
  by (auto simp: stream_over_def)

lemma read_frame:
  assumes "inbound cx (xst st) frame False = (Ok (), t', msg)" and "stream_id (header msg) = sid \<longrightarrow> routable (header msg)"
    and "tuned sid mb over st" and "st' = cl_handle_msg cx dbg frame st"
  shows "tuned sid mb (over \<or> stream_id (header msg) = sid \<and> ends_stream (header msg)) st' \<and> xst st' = t'
    \<and> mail st' mb = mail st mb @ (if over then [] else map Ok (of_stream sid [msg]))"
proof -
  note id = inbound_stream_id [OF assms(1)]
  show ?thesis
  proof (cases "routable (header msg)")
    case True
    let ?k = "stream_id (header frame)"
    note eq = cl_handle_msg_ok [OF assms(1) True id, of dbg]
    have st': "streams st' = (if ends_stream (header msg) \<or> (\<exists>mb. streams st ?k = Some mb \<and> \<not> rx_alive st mb) then (streams st)(?k := None) else streams st)"
        "mail st' mb = (if streams st ?k = Some mb \<and> rx_alive st mb then mail st mb @ [Ok msg] else mail st mb)"
        "rx_alive st' = rx_alive st" "next_mb st' = next_mb st" "xst st' = t'"
      unfolding assms(4) by (auto simp: eq Let_def cl_defs split: option.splits)
    show ?thesis
    proof (cases "?k = sid")
      case True
      with assms(3) st' id show ?thesis by (cases over) (simp_all add: tuned_def)
    next
      case False
      with assms(3) st' id show ?thesis by (cases over) (auto simp: tuned_def)
    qed
  next
    case False
    then obtain e where st': "st' = fail_stream (stream_id (header frame)) e (st\<lparr>xst := t'\<rparr>)"
      using cl_handle_msg_fail [OF assms(1) _ id, of dbg] assms(4) by auto
    have sid: "stream_id (header frame) \<noteq> sid" using False assms(2) id by simp
    have "tuned sid mb over (st\<lparr>xst := t'\<rparr>)" using assms(3) by (simp add: tuned_def)
    with cl_undisturbed_fail [OF sid, of mb over "\<lambda>t. t = t'" "st\<lparr>xst := t'\<rparr>" e] st' sid id show ?thesis
      by (simp add: cl_undisturbed_def)
  qed
qed

text \<open>Decoding frames from the front, as far as they have been read.\<close>

lemma decodes_snoc:
  assumes "decodes cx insync (xs @ [(frame, msg)]) t t'"
  shows "\<exists>t1 t2. decodes cx insync xs t t1 \<and> (\<forall>r b. insync t1 r \<longrightarrow> (\<exists>r'. inbound cx r frame b = (Ok (), r', msg) \<and> insync t2 r'))
    \<and> (\<forall>r. insync t2 r \<longrightarrow> insync t' r)"
  using assms
proof (induction xs arbitrary: t)
  case Nil
  then obtain t2 where "\<forall>r b. insync t r \<longrightarrow> (\<exists>r'. inbound cx r frame b = (Ok (), r', msg) \<and> insync t2 r')"
      "\<forall>r. insync t2 r \<longrightarrow> insync t' r" by auto
  then show ?case by (intro exI [of _ t] exI [of _ t2]) simp
next
  case (Cons x xs)
  obtain f m where x: "x = (f, m)" by force
  with Cons.prems obtain t3 where t3: "\<forall>r b. insync t r \<longrightarrow> (\<exists>r'. inbound cx r f b = (Ok (), r', m) \<and> insync t3 r')"
      "decodes cx insync (xs @ [(frame, msg)]) t3 t'" by auto
  from Cons.IH [OF t3(2)] obtain t1 t2 where t1: "decodes cx insync xs t3 t1"
      "\<forall>r b. insync t1 r \<longrightarrow> (\<exists>r'. inbound cx r frame b = (Ok (), r', msg) \<and> insync t2 r')" "\<forall>r. insync t2 r \<longrightarrow> insync t' r" by blast
  have "decodes cx insync (x # xs) t t1" unfolding x decodes.simps using t3(1) t1(1) by blast
  with t1(2,3) show ?case by blast
qed

lemma reads_delivers:
  assumes "reads qc cx' dbg sid mb fs st st'" and "linked cx cx' insync" and "tuned sid mb False st" and "insync t (xst st)"
  shows "\<lbrakk>decodes cx' insync ys t t'; fs = map fst ys; \<forall>msg \<in> set (of_stream sid (map snd ys)). routable (header msg)\<rbrakk> \<Longrightarrow>
    tuned sid mb (stream_over (of_stream sid (map snd ys))) st' \<and> insync t' (xst st')
    \<and> mail st' mb = mail st mb @ map Ok (upto_end (of_stream sid (map snd ys)))"
  using assms(1,3,4)
proof (induction arbitrary: ys t' rule: reads.induct)
  case (reads_refl st)
  then show ?case by (simp add: stream_over_def)
next
  case (reads_frame fs st st1 f)
  then obtain xs msg where ys: "ys = xs @ [(f, msg)]" "fs = map fst xs"
    by (cases ys rule: rev_cases) auto
  obtain t1 t2 where t1: "decodes cx' insync xs t t1"
      "\<forall>r b. insync t1 r \<longrightarrow> (\<exists>r'. inbound cx' r f b = (Ok (), r', msg) \<and> insync t2 r')" "\<forall>r. insync t2 r \<longrightarrow> insync t' r"
    using decodes_snoc [OF reads_frame.prems(1) [unfolded ys(1)]] by blast
  let ?own = "of_stream sid (map snd xs)"
  from reads_frame.IH [OF t1(1) ys(2) _ reads_frame.prems(4,5)] reads_frame.prems(3) ys(1)
  have IH: "tuned sid mb (stream_over ?own) st1" "insync t1 (xst st1)" "mail st1 mb = mail st mb @ map Ok (upto_end ?own)" by auto
  obtain r' where r': "inbound cx' (xst st1) f False = (Ok (), r', msg)" "insync t2 r'" using t1(2) IH(2) by blast
  have "stream_id (header msg) = sid \<longrightarrow> routable (header msg)" using reads_frame.prems(3) ys(1) by auto
  from read_frame [OF r'(1) this IH(1) refl, of dbg] t1(3) r'(2) IH(3) ys(1) show ?case
    by (auto simp: upto_end_snoc stream_over_snoc split: if_splits)
next
  case (reads_err fs st st1 mh e)
  from reads_err.IH [OF reads_err.prems] cl_undisturbed_fail [OF reads_err.hyps(2), of mb _ "insync t'" st1 e] show ?case
    by (auto simp: cl_undisturbed_def cl_handle_err_def)
next
  case (reads_send fs st st1 env b aw ctl msg res t1 q')
  from reads_send.IH [OF reads_send.prems] cl_undisturbed_send [OF assms(2) reads_send.hyps(2), of sid mb _ t'] show ?case
    by (auto simp: cl_undisturbed_def)
next
  case (reads_start fs st st1 now req r st2)
  from reads_start.IH [OF reads_start.prems] cl_undisturbed_start [OF reads_start.hyps(2,3), of mb _ "insync t'"] show ?case
    by (auto simp: cl_undisturbed_def)
next
  case (reads_leave fs st st1 ca disarmed)
  from reads_leave.IH [OF reads_leave.prems] cl_undisturbed_leave [OF reads_leave.hyps(2,3), of _ "insync t'" st1 disarmed] show ?case
    by (auto simp: cl_undisturbed_def)
qed

subsection \<open>Replies from end to end\<close>

lemma recv_n_closed:
  "remote_closed (csr_inner s) \<Longrightarrow> client_stream_receiver_recv_n c rc n s chan_rx = replicate n (Err RemoteClosed)"
  by (induction n arbitrary: s chan_rx) (simp_all add: client_stream_receiver_recv_def opt_recv_def recv_after_close)

lemma recv_response:
  assumes "\<not> remote_closed r" and "c_decode rc p = Ok resp"
  shows "opt_recv pc rc r (Ok (gen_new_response sid p) # rx) = (answer_view pc resp, r\<lparr>remote_closed := True\<rparr>, rx)"
  using assms
  by (auto simp: opt_recv_def stream_recv_def recv_item_def stream_recv_msg_def answer_view_def non_ok_def get_status_def
      wire_simps message_types Let_def split: option.split)

lemma own_items_received:
  assumes "codec_laws pc dp" and "codec_laws rc dr"
  shows "\<lbrakk>list_all2 (own_item pc rc sid) sent msgs; recveivable (csr_inner s); \<not> remote_closed (csr_inner s)\<rbrakk>
    \<Longrightarrow> client_stream_receiver_recv_n pc rc (length sent) s (map Ok (upto_end msgs)) = expected_items pc sent"
proof (induction sent arbitrary: msgs s)
  case (Cons x sent)
  then obtain msg ms where ms: "msgs = msg # ms" "own_item pc rc sid x msg" "list_all2 (own_item pc rc sid) sent ms"
    by (auto simp: list_all2_Cons1)
  show ?case
  proof (cases x)
    case (Message m)
    with ms(2) obtain buf where buf: "c_encode pc m = Ok buf" "length buf \<le> MESSAGE_LENGTH_MAX" "msg = gen_new_data sid buf" by auto
    then have "\<not> ends_stream (header msg)" by (simp add: ends_stream_def wire_simps message_types no_flags_zero)
    with recv_data [OF Cons.prems(3,2) buf(2)] codec_laws.decode_encode [OF assms(1) buf(1)] buf(3) Message ms Cons.IH [OF ms(3) Cons.prems(2,3)]
    show ?thesis by (simp add: client_stream_receiver_recv_def opt_recv_def)
  next
    case (Answer resp)
    with ms(2) obtain p where p: "c_encode rc resp = Ok p" "msg = gen_new_response sid p" by auto
    then have "ends_stream (header msg)" by (simp add: ends_stream_def wire_simps)
    with recv_response [OF Cons.prems(3) codec_laws.decode_encode [OF assms(2) p(1)], of pc sid] p(2) Answer ms(1) show ?thesis
      by (simp add: client_stream_receiver_recv_def recv_n_closed)
  next
    case Closed
    with ms(1,2) recv_close [OF Cons.prems(3,2)] show ?thesis
      by (simp add: ends_stream_def wire_simps close_flags_value close_flags)
        (simp add: client_stream_receiver_recv_def opt_recv_def recv_n_closed wire_simps close_flags_value)
  qed
qed simp

lemma own_items_routable: "list_all2 (own_item pc rc sid) sent msgs \<Longrightarrow> \<forall>msg \<in> set msgs. routable (header msg)"
proof (induction rule: list_all2_induct)
  case (Cons x xs y ys)
  then show ?case by (cases x) (auto simp: routable_def wire_simps)
qed simp

text \<open>
  C10: The replies of a stream from end to end. Whatever the server does on a connection while a handler serves a stream (sends of
  the handler that fail or wait, its end, frames, errors and answers of other streams), and whatever else happens at the client
  (other calls and their answers and errors, sends through the same transform): once the client has read the frames that the server
  queued, its handle of the stream receives exactly the messages whose frames were queued, in order; then the end of
  the handler once, as the end of the stream, as the handler's response, or as the status with which it failed; and
  \<open>RemoteClosed\<close> for whatever was queued after that. The registration is gone exactly when the end has been read, and both ends stay in step.
\<close>

theorem stream_replies_delivered:
  assumes "linked cx cx' insync" and "codec_laws pc dp" and "codec_laws rc dr" and "ss_stream_id (sst_tx s) = sid"
    and "serves pc d qc rc cx srvs s sent st st'"
    and "reads qc cx' dbg sid mb (map sm_msg (drop (length (sv_tx st)) (sv_tx st'))) c c'"
    and "tuned sid mb False c" and "mail c mb = []" and "insync (sv_xst st) (xst c)"
    and "recveivable (csr_inner h)" and "\<not> remote_closed (csr_inner h)"
  shows "client_stream_receiver_recv_n pc rc (length sent) h (mail c' mb) = expected_items pc sent
    \<and> insync (sv_xst st') (xst c') \<and> tuned sid mb (\<exists>x \<in> set sent. \<forall>m. x \<noteq> Message m) c'"
proof -
  obtain new ys where server: "sv_tx st' = sv_tx st @ new" "map fst ys = map sm_msg new" "decodes cx' insync ys (sv_xst st) (sv_xst st')"
      "list_all2 (own_item pc rc sid) sent (of_stream sid (map snd ys))"
    using serves_queues [OF assms(5,1,3,4)] unfolding queues_def by blast
  have fs: "map sm_msg (drop (length (sv_tx st)) (sv_tx st')) = map fst ys" using server(1,2) by simp
  have "stream_over msgs \<longleftrightarrow> (\<exists>x \<in> set sent. \<forall>m. x \<noteq> Message m)" if "list_all2 (own_item pc rc sid) sent msgs" for msgs
    using that
  proof (induction rule: list_all2_induct)
    case (Cons x xs y ys)
    then show ?case
      by (cases x) (auto simp: stream_over_def ends_stream_def wire_simps message_types no_flags_zero close_flags close_flags_value)
  qed (simp add: stream_over_def)
  from this [OF server(4)] reads_delivers [OF assms(6) assms(1,7,9) server(3) fs own_items_routable [OF server(4)]]
    own_items_received [OF assms(2,3) server(4) assms(10,11)] assms(8)
  show ?thesis by simp
qed

text \<open>A handler sends a message and fails; another stream is answered in between.\<close>

definition demo_stream :: server_stream where
  "demo_stream = server_stream_new (new_server 1 True True)"

definition demo_fail :: status where
  "demo_fail = get_status NOT_FOUND ''x''"

definition demo_waiting :: "seq_state client" where
  "demo_waiting = snd (register_stream 1 (client_new seq_start))"

definition demo_failed :: task_outcome where
  "demo_failed = Inr (Ok (Some (init_status demo_fail)))"

definition demo_first :: "seq_state server_conn" where
  "demo_first = (case server_stream_send response_codec seq_ctx free_env demo_stream demo_message seq_start [] of
     (res, t', q') \<Rightarrow> demo_server\<lparr>sv_xst := t', sv_tx := q'\<rparr>)"

definition demo_second :: "seq_state server_conn" where
  "demo_second = sv_event plain_display request_codec response_codec seq_ctx Map.empty (SvErr free_env (header_new_request 3 0) Eof) demo_first"

definition demo_last :: "seq_state server_conn" where
  "demo_last = hc_stream_done plain_display response_codec seq_ctx free_env 1 0 [] demo_failed demo_second"

lemma demo_fail_encoded: "c_encode response_codec (init_status demo_fail) = Ok [10, 5, 8, 5, 18, 1, 120]"
proof -
  have "write_fields (response_fields (init_status demo_fail)) = [10, 5, 8, 5, 18, 1, 120]" unfolding demo_fail_def by code_simp
  then show ?thesis by (simp add: response_codec_def pb_codec_def)
qed

lemma demo_queues:
  "length (sv_tx demo_first) = 1" "length (sv_tx demo_second) \<ge> 1" "length (sv_tx demo_last) = length (sv_tx demo_second) + 1"
proof -
  have "c_encode response_codec demo_message = Ok [18, 1, 9]"
    by (simp add: demo_message_def response_codec_def pb_codec_def Let_def response_set_payload_def
        response_default_def response_fields_def len_field_def write_fields_def write_field_def write_varint.simps)
  then show first: "length (sv_tx demo_first) = 1"
    by (simp add: demo_first_def demo_stream_def server_stream_send_def server_stream_new_def stream_split_def new_server_def stream_inner_new_def
        ss_sender_send_def stream_send_def transform_send_def transform_send_inner_def free_env_def reserve_message_slot_def
        acquire_lock_def outbound_def seq_ctx_def max_raw_payload_len_def seq_xform_def DEFAULT_MAX_OVERHEAD_def seq_outbound_def
        serialize_aad_def send_ack_def wire_simps)
  have link: "linked seq_ctx seq_ctx seq_insync"
    using seq_duplex.duplex_transform_axioms by (simp add: linked_def seq_ctx_def)
  from event_queues [OF link, of demo_first plain_display request_codec response_codec Map.empty "SvErr free_env (header_new_request 3 0) Eof"] first
  show "length (sv_tx demo_second) \<ge> 1" by (auto simp: demo_second_def dest!: queues_length)
  have size: "unat (c_size response_codec (init_status demo_fail)) = 7"
    using resp_codec.size_encode [OF demo_fail_encoded] by simp
  show "length (sv_tx demo_last) = length (sv_tx demo_second) + 1"
    unfolding demo_last_def hc_stream_done_def demo_failed_def
    by (simp add: stream_outcome_def hc_reply_def size respond_def respond_payload_def demo_fail_encoded)
      (simp add: sv_send_def sv_stream_end_def transform_send_def transform_send_inner_def seq_ctx_def free_env_def reserve_message_slot_def acquire_lock_def
        outbound_def seq_xform_def max_raw_payload_len_def DEFAULT_MAX_OVERHEAD_def seq_outbound_def serialize_aad_def wire_simps Let_def)
qed

lemma demo_serves:
  "serves response_codec plain_display request_codec response_codec seq_ctx Map.empty demo_stream [Message demo_message, Answer (init_status demo_fail)]
     demo_server demo_last"
proof -
  have start: "sv_xst demo_server = seq_start" "sv_tx demo_server = []" "ss_stream_id (sst_tx demo_stream) = 1"
    by (simp_all add: demo_server_def sv_register_def server_conn_new_def demo_stream_def server_stream_new_def stream_split_def new_server_def stream_inner_new_def)
  obtain res t' q' where send: "server_stream_send response_codec seq_ctx free_env demo_stream demo_message seq_start [] = (res, t', q')" by (metis prod_cases3)
  then have first: "demo_first = demo_server\<lparr>sv_xst := t', sv_tx := q'\<rparr>" by (simp add: demo_first_def)
  have "length q' = 1" using demo_queues(1) unfolding first by simp
  with serves_send [OF serves_refl, of response_codec seq_ctx free_env demo_stream demo_message demo_server res t' q'] send start(1,2) first
  have "serves response_codec plain_display request_codec response_codec seq_ctx Map.empty demo_stream [Message demo_message] demo_server demo_first" by simp
  from serves_event [OF this demo_second_def]
  have "serves response_codec plain_display request_codec response_codec seq_ctx Map.empty demo_stream [Message demo_message] demo_server demo_second"
    by (simp add: start(3) wire_simps)
  moreover have out: "stream_outcome plain_display [] demo_failed = Inr (Some (init_status demo_fail))" by (simp add: demo_failed_def stream_outcome_def)
  moreover have "item_fits response_codec seq_ctx (Answer (init_status demo_fail) :: response item)"
    by (simp add: demo_fail_encoded seq_ctx_def max_raw_payload_len_def seq_xform_def DEFAULT_MAX_OVERHEAD_def)
  ultimately show ?thesis
    using serves_done [of response_codec plain_display request_codec response_codec seq_ctx Map.empty demo_stream "[Message demo_message]" demo_server demo_second
        demo_last free_env 0 "[]" demo_failed] demo_queues(3) by (simp add: start(3) demo_last_def)
qed

lemma reads_all: "reads qc cx dbg sid mb fs st (foldl (\<lambda>c f. cl_handle_msg cx dbg f c) st fs)"
  by (induction fs rule: rev_induct) (auto intro: reads.intros)

theorem stream_replies_delivered_witness:
  "client_stream_receiver_recv_n response_codec response_codec 2 (client_stream_receiver_new (new_client 1 True True) ())
     (mail (foldl (\<lambda>c f. cl_handle_msg seq_ctx dbg0 f c) demo_waiting (map sm_msg (sv_tx demo_last))) 0)
   = [Ok (Some demo_message), Err (RpcStatus demo_fail)]"
proof -
  let ?h = "client_stream_receiver_new (new_client 1 True True) ()"
  have link: "linked seq_ctx seq_ctx seq_insync"
    using seq_duplex.duplex_transform_axioms by (simp add: linked_def seq_ctx_def)
  have sid: "ss_stream_id (sst_tx demo_stream) = 1" "sv_tx demo_server = []"
    by (simp_all add: demo_stream_def server_stream_new_def stream_split_def new_server_def stream_inner_new_def demo_server_def sv_register_def server_conn_new_def)
  have c: "tuned 1 0 False demo_waiting" "mail demo_waiting 0 = []" "seq_insync (sv_xst demo_server) (xst demo_waiting)"
    by (simp_all add: tuned_def demo_waiting_def register_stream_def client_new_def demo_server_def sv_register_def server_conn_new_def
        seq_insync_def seq_start_def)
  have h: "recveivable (csr_inner ?h)" "\<not> remote_closed (csr_inner ?h)"
    by (simp_all add: client_stream_receiver_new_def stream_split_def new_client_def stream_inner_new_def)
  have read: "reads request_codec seq_ctx dbg0 1 0 (map sm_msg (drop (length (sv_tx demo_server)) (sv_tx demo_last))) demo_waiting
      (foldl (\<lambda>c f. cl_handle_msg seq_ctx dbg0 f c) demo_waiting (map sm_msg (sv_tx demo_last)))"
    using reads_all sid(2) by simp
  from stream_replies_delivered [OF link resp_codec.codec_laws_axioms resp_codec.codec_laws_axioms sid(1) demo_serves read c h]
  have "client_stream_receiver_recv_n response_codec response_codec 2 ?h
     (mail (foldl (\<lambda>c f. cl_handle_msg seq_ctx dbg0 f c) demo_waiting (map sm_msg (sv_tx demo_last))) 0)
   = expected_items response_codec [Message demo_message, Answer (init_status demo_fail)]"
    by (simp add: numeral_2_eq_2)
  then show ?thesis
    by (simp add: answer_view_def non_ok_def init_status_def response_set_status_def demo_fail_def get_status_def)
qed

end
