(* ===== verification/UnixNet.thy ===== *)
theory UnixNet
  imports Wire
begin

text \<open>
  The Unix transport of the blocking API, \<open>src/src/sync/sys/unix/net.rs\<close>: the retrying
  \<open>PipeConnection::read\<close> and \<open>write\<close>, the readiness decisions of \<open>PipeListener::accept\<close> and
  \<open>ClientConnection::ready\<close> as functions of what \<open>poll\<close> and \<open>accept4\<close> returned, and the close
  operations.

  A blocking call is a function \<open>'s \<Rightarrow> ((error + 'a) \<times> 's) option\<close> of the operating-system state
  \<open>'s\<close>; \<open>None\<close> is a call that never returns. The system calls \<open>recv\<close>, \<open>send\<close>, \<open>close\<close> and
  \<open>shutdown\<close> are arguments.
\<close>

type_synonym ('s, 'a) io = "'s \<Rightarrow> ((error + 'a) \<times> 's) option"
type_synonym 's recv = "'s \<Rightarrow> nat \<Rightarrow> (int + bytes) \<times> 's"
type_synonym 's send = "'s \<Rightarrow> bytes \<Rightarrow> (int + nat) \<times> 's"
type_synonym fd = int

definition io_bind :: "('s, 'a) io \<Rightarrow> ('a \<Rightarrow> ('s, 'b) io) \<Rightarrow> ('s, 'b) io" where
  "io_bind m f s =
     (case m s of
        None \<Rightarrow> None
      | Some (Inl e, s') \<Rightarrow> Some (Err e, s')
      | Some (Inr x, s') \<Rightarrow> f x s')"

definition io_return :: "'a \<Rightarrow> ('s, 'a) io" where
  "io_return x s = Some (Ok x, s)"

definition io_fail :: "error \<Rightarrow> ('s, 'a) io" where
  "io_fail e s = Some (Err e, s)"

lemma io_bind_simps:
  "m s = None \<Longrightarrow> io_bind m f s = None"
  "m s = Some (Err e, s') \<Longrightarrow> io_bind m f s = Some (Err e, s')"
  "m s = Some (Ok x, s') \<Longrightarrow> io_bind m f s = f x s'"
  by (simp_all add: io_bind_def)

lemmas io_defs = io_bind_def io_return_def io_fail_def

subsection \<open>PipeConnection\<close>

definition EINTR :: int where "EINTR = 4"
definition EAGAIN :: int where "EAGAIN = 11"

definition retryable :: "int \<Rightarrow> bool" where
  "retryable e \<longleftrightarrow> e = EINTR \<or> e = EAGAIN"

partial_function (option) pipe_read :: "'s recv \<Rightarrow> nat \<Rightarrow> ('s, bytes) io" where
  "pipe_read recv n s =
     (case recv s n of
        (Inr l, s') \<Rightarrow> Some (Ok l, s')
      | (Inl e, s') \<Rightarrow> if retryable e then pipe_read recv n s' else Some (Err (Nix e), s'))"

partial_function (option) pipe_write :: "'s send \<Rightarrow> bytes \<Rightarrow> ('s, nat) io" where
  "pipe_write send bs s =
     (case send s bs of
        (Inr l, s') \<Rightarrow> Some (Ok l, s')
      | (Inl e, s') \<Rightarrow> if retryable e then pipe_write send bs s' else Some (Err (Nix e), s'))"

definition pipe_close :: "('s \<Rightarrow> fd \<Rightarrow> (int + unit) \<times> 's) \<Rightarrow> fd \<Rightarrow> ('s, unit) io" where
  "pipe_close close fd0 s =
     (case close s fd0 of (Inr _, s') \<Rightarrow> Some (Ok (), s') | (Inl e, s') \<Rightarrow> Some (Err (Nix e), s'))"

definition pipe_shutdown :: "('s \<Rightarrow> fd \<Rightarrow> (int + unit) \<times> 's) \<Rightarrow> fd \<Rightarrow> ('s, unit) io" where
  "pipe_shutdown shut_rd fd0 s =
     (case shut_rd s fd0 of (Inr _, s') \<Rightarrow> Some (Ok (), s') | (Inl e, s') \<Rightarrow> Some (Err (Nix e), s'))"

subsection \<open>Readiness\<close>

text \<open>What one \<open>poll\<close> of the two descriptors returned: its value, errno, and both \<open>revents\<close>.\<close>

record poll_result =
  returned :: int
  errno :: int
  revents_monitor :: int
  revents_fd :: int

datatype io_error = OsError int | OtherError string

definition listener_accept :: "poll_result \<Rightarrow> int + fd \<Rightarrow> io_error + fd option" where
  "listener_accept p accept4 =
     (if returned p = -1 then Err (OsError (errno p))
      else if returned p < 1 then Ok None
      else if revents_monitor p \<noteq> 0 \<or> revents_fd p = 0 then Ok None
      else case accept4 of
             Inr fd0 \<Rightarrow> Ok (Some fd0)
           | Inl e \<Rightarrow> Err (OsError e))"

definition client_ready :: "poll_result \<Rightarrow> io_error + unit option" where
  "client_ready p =
     (if returned p = -1 then
        (if errno p = EINTR then Ok None else Err (OsError (errno p)))
      else if returned p < 1 then Ok None
      else if revents_monitor p \<noteq> 0 then Err (OtherError ''pipe closed'')
      else if revents_fd p = 0 then Ok None
      else Ok (Some ()))"

subsection \<open>Listener and client descriptors\<close>

record pipe_listener =
  pl_fd :: fd
  monitor_fd :: "fd \<times> fd"

record client_connection =
  cc_fd :: fd
  socket_pair :: "fd \<times> fd"

definition listener_new_from_fd :: "int + fd \<times> fd \<Rightarrow> fd \<Rightarrow> error + pipe_listener" where
  "listener_new_from_fd pipe2 fd0 =
     rbind (map_err Nix pipe2) (\<lambda>fds. Ok \<lparr>pl_fd = fd0, monitor_fd = fds\<rparr>)"

definition listener_new ::
  "error + fd \<Rightarrow> (fd \<Rightarrow> error + unit) \<Rightarrow> int + fd \<times> fd \<Rightarrow> error + pipe_listener" where
  "listener_new do_bind do_listen pipe2 =
     rbind do_bind (\<lambda>fd0. rbind (do_listen fd0) (\<lambda>_.
     rbind (map_err Nix pipe2) (\<lambda>fds. Ok \<lparr>pl_fd = fd0, monitor_fd = fds\<rparr>)))"

text \<open>A failing \<open>close\<close> of the notify descriptor is only logged.\<close>

definition listener_close ::
  "('s \<Rightarrow> fd \<Rightarrow> (int + unit) \<times> 's) \<Rightarrow> pipe_listener \<Rightarrow> ('s, unit) io" where
  "listener_close close l s = (case close s (snd (monitor_fd l)) of (_, s') \<Rightarrow> Some (Ok (), s'))"

definition client_connection_new :: "int + fd \<times> fd \<Rightarrow> fd \<Rightarrow> error + client_connection" where
  "client_connection_new socketpair fd0 =
     rbind (map_err Nix socketpair) (\<lambda>fds. Ok \<lparr>cc_fd = fd0, socket_pair = fds\<rparr>)"

definition client_close_receiver ::
  "('s \<Rightarrow> fd \<Rightarrow> (int + unit) \<times> 's) \<Rightarrow> client_connection \<Rightarrow> ('s, unit) io" where
  "client_close_receiver close c = pipe_close close (fst (socket_pair c))"

definition client_connection_close ::
  "('s \<Rightarrow> fd \<Rightarrow> (int + unit) \<times> 's) \<Rightarrow> client_connection \<Rightarrow> ('s, unit) io" where
  "client_connection_close close c =
     io_bind (pipe_close close (snd (socket_pair c))) (\<lambda>_. pipe_close close (cc_fd c))"

subsection \<open>What a stream socket promises\<close>

text \<open>
  \<open>recv\<close>/\<open>send\<close> on a healthy stream socket move at least one byte and at most what was asked, or
  fail with a retryable errno; \<open>patience\<close> bounds the number of consecutive retryable failures. At
  the end of the input \<open>recv\<close> returns no bytes.
\<close>

locale recv_laws =
  fixes recv :: "'s recv" and rest :: "'s \<Rightarrow> bytes" and patience :: "'s \<Rightarrow> nat"
  assumes recv_cases:
    "0 < n \<Longrightarrow>
       (\<exists>k s'. 0 < k \<and> k \<le> n \<and> recv s n = (Ok (take k (rest s)), s') \<and> rest s' = drop k (rest s)) \<or>
       (\<exists>e s'. recv s n = (Err e, s') \<and> retryable e \<and> rest s' = rest s \<and> patience s' < patience s)"
begin

lemma pipe_read_some:
  "0 < n \<Longrightarrow> \<exists>k s'. 0 < k \<and> k \<le> n
     \<and> pipe_read recv n s = Some (Ok (take k (rest s)), s') \<and> rest s' = drop k (rest s)"
proof (induction "patience s" arbitrary: s rule: less_induct)
  case less
  consider (data) k s' where "0 < k" "k \<le> n" "recv s n = (Ok (take k (rest s)), s')"
      "rest s' = drop k (rest s)"
    | (retry) e s' where "recv s n = (Err e, s')" "retryable e" "rest s' = rest s"
      "patience s' < patience s"
    using recv_cases [OF less.prems] by blast
  then show ?case
  proof cases
    case data
    then show ?thesis by (subst pipe_read.simps) auto
  next
    case retry
    with less.hyps [OF retry(4) less.prems] show ?thesis
      by (subst pipe_read.simps) auto
  qed
qed

end

locale send_laws =
  fixes send :: "'s send" and out :: "'s \<Rightarrow> bytes" and patience :: "'s \<Rightarrow> nat"
  assumes send_cases:
    "bs \<noteq> [] \<Longrightarrow>
       (\<exists>k s'. 0 < k \<and> k \<le> length bs \<and> send s bs = (Ok k, s') \<and> out s' = out s @ take k bs) \<or>
       (\<exists>e s'. send s bs = (Err e, s') \<and> retryable e \<and> out s' = out s \<and> patience s' < patience s)"
begin

lemma pipe_write_some:
  "bs \<noteq> [] \<Longrightarrow> \<exists>k s'. 0 < k \<and> k \<le> length bs
     \<and> pipe_write send bs s = Some (Ok k, s') \<and> out s' = out s @ take k bs"
proof (induction "patience s" arbitrary: s rule: less_induct)
  case less
  consider (data) k s' where "0 < k" "k \<le> length bs" "send s bs = (Ok k, s')"
      "out s' = out s @ take k bs"
    | (retry) e s' where "send s bs = (Err e, s')" "retryable e" "out s' = out s"
      "patience s' < patience s"
    using send_cases [OF less.prems] by blast
  then show ?case
  proof cases
    case data
    then show ?thesis by (subst pipe_write.simps) auto
  next
    case retry
    with less.hyps [OF retry(4) less.prems] show ?thesis
      by (subst pipe_write.simps) auto
  qed
qed

end

subsection \<open>A scripted socket\<close>

text \<open>
  A socket whose calls follow a script: each entry is the errno of an interrupted call or the most
  bytes the kernel moves in that call; after the script calls move everything they can.
\<close>

datatype sock_event = Interrupted | WouldBlock | AtMost nat

record sock =
  inq :: bytes
  outq :: bytes
  script :: "sock_event list"

definition sock_recv :: "sock recv" where
  "sock_recv s n =
     (case script s of
        [] \<Rightarrow> (Ok (take n (inq s)), s\<lparr>inq := drop n (inq s)\<rparr>)
      | Interrupted # es \<Rightarrow> (Err EINTR, s\<lparr>script := es\<rparr>)
      | WouldBlock # es \<Rightarrow> (Err EAGAIN, s\<lparr>script := es\<rparr>)
      | AtMost k # es \<Rightarrow>
          (let m = min n (Suc k) in (Ok (take m (inq s)), s\<lparr>inq := drop m (inq s), script := es\<rparr>)))"

definition sock_send :: "sock send" where
  "sock_send s bs =
     (case script s of
        [] \<Rightarrow> (Ok (length bs), s\<lparr>outq := outq s @ bs\<rparr>)
      | Interrupted # es \<Rightarrow> (Err EINTR, s\<lparr>script := es\<rparr>)
      | WouldBlock # es \<Rightarrow> (Err EAGAIN, s\<lparr>script := es\<rparr>)
      | AtMost k # es \<Rightarrow>
          (let m = min (length bs) (Suc k) in (Ok m, s\<lparr>outq := outq s @ take m bs, script := es\<rparr>)))"

interpretation sock_in: recv_laws sock_recv inq "\<lambda>s. length (script s)"
proof
  fix n :: nat and s :: sock
  assume "0 < n"
  then show "(\<exists>k s'. 0 < k \<and> k \<le> n \<and> sock_recv s n = (Ok (take k (inq s)), s') \<and> inq s' = drop k (inq s)) \<or>
     (\<exists>e s'. sock_recv s n = (Err e, s') \<and> retryable e \<and> inq s' = inq s
        \<and> length (script s') < length (script s))"
  proof (cases "script s")
    case Nil
    with \<open>0 < n\<close> show ?thesis by (intro disjI1 exI [of _ n]) (simp add: sock_recv_def)
  next
    case (Cons ev es)
    show ?thesis
    proof (cases ev)
      case (AtMost k)
      with Cons \<open>0 < n\<close> show ?thesis
        by (intro disjI1 exI [of _ "min n (Suc k)"]) (simp add: sock_recv_def Let_def)
    qed (use Cons in \<open>auto simp: sock_recv_def retryable_def\<close>)
  qed
qed

interpretation sock_out: send_laws sock_send outq "\<lambda>s. length (script s)"
proof
  fix bs :: bytes and s :: sock
  assume ne: "bs \<noteq> []"
  then show "(\<exists>k s'. 0 < k \<and> k \<le> length bs \<and> sock_send s bs = (Ok k, s') \<and> outq s' = outq s @ take k bs) \<or>
     (\<exists>e s'. sock_send s bs = (Err e, s') \<and> retryable e \<and> outq s' = outq s
        \<and> length (script s') < length (script s))"
  proof (cases "script s")
    case Nil
    with ne show ?thesis by (intro disjI1 exI [of _ "length bs"]) (simp add: sock_send_def)
  next
    case (Cons ev es)
    show ?thesis
    proof (cases ev)
      case (AtMost k)
      with Cons ne show ?thesis
        by (intro disjI1 exI [of _ "min (length bs) (Suc k)"]) (simp add: sock_send_def Let_def)
    qed (use Cons in \<open>auto simp: sock_send_def retryable_def\<close>)
  qed
qed

end
