(* ===== verification/SyncChannel.thy ===== *)
theory SyncChannel
  imports UnixNet AsyncIO
begin

text \<open>
  Blocking frame I/O, \<open>src/src/sync/channel.rs\<close>, over the read and write operations of a
  \<open>PipeConnection\<close>, which may move fewer bytes than asked. The specification is \<open>parse_frame\<close> of
  theory \<open>AsyncIO\<close>, which the asynchronous reader implements too.
\<close>

subsection \<open>Reading\<close>

text \<open>
  \<open>read_into\<close> with the part of the buffer filled so far as accumulator; \<open>need\<close> is
  \<open>buf.len() - len\<close>.
\<close>

function read_into ::
  "display \<Rightarrow> (nat \<Rightarrow> ('s, bytes) io) \<Rightarrow> nat \<Rightarrow> bytes \<Rightarrow> ('s, bytes) io" where
  "read_into d rd need buf s =
     (if 0 < need then
        (case rd need s of
           None \<Rightarrow> None
         | Some (Inr bs, s') \<Rightarrow>
             if bs = [] then Some (Ok buf, s')
             else read_into d rd (need - length bs) (buf @ bs) s'
         | Some (Inl e, s') \<Rightarrow> Some (Err (Socket (error_to_string d e)), s'))
      else Some (Ok buf, s))"
  by pat_completeness auto
termination
  by (relation "measure (\<lambda>(d, rd, need, buf, s). need)") auto

declare read_into.simps [simp del]

definition read_count :: "display \<Rightarrow> (nat \<Rightarrow> ('s, bytes) io) \<Rightarrow> nat \<Rightarrow> ('s, bytes) io" where
  "read_count d rd count = read_into d rd count []"

function discard_count :: "display \<Rightarrow> (nat \<Rightarrow> ('s, bytes) io) \<Rightarrow> nat \<Rightarrow> ('s, unit) io" where
  "discard_count d rd need_discard s =
     (if 0 < need_discard then
        let once_discard = min DEFAULT_PAGE_SIZE need_discard
        in case read_count d rd once_discard s of
             None \<Rightarrow> None
           | Some (Inl e, s') \<Rightarrow> Some (Err e, s')
           | Some (Inr _, s') \<Rightarrow> discard_count d rd (need_discard - once_discard) s'
      else Some (Ok (), s))"
  by pat_completeness auto
termination
  by (relation "measure (\<lambda>(d, rd, n, s). n)") auto

declare discard_count.simps [simp del]

definition read_message_header ::
  "display \<Rightarrow> (nat \<Rightarrow> ('s, bytes) io) \<Rightarrow> ('s, message_header) io" where
  "read_message_header d rd =
     io_bind (read_into d rd MESSAGE_HEADER_LENGTH []) (\<lambda>buf.
       let sz = length buf
       in if sz \<noteq> MESSAGE_HEADER_LENGTH then
            io_fail (sock_error_msg sz (''Message header length '' @ show_nat sz @ '' is too small''))
          else (case header_from buf of
                  Some mh \<Rightarrow> io_return mh
                | None \<Rightarrow> io_fail (Others ''panic'')))"

definition read_message ::
  "display \<Rightarrow> (nat \<Rightarrow> ('s, bytes) io) \<Rightarrow> ('s, message_header \<times> (error + bytes)) io" where
  "read_message d rd =
     io_bind (read_message_header d rd) (\<lambda>mh.
       let mh_len = unat (mh_length mh)
       in case check_oversize mh_len True of
            Inl e \<Rightarrow> io_bind (discard_count d rd mh_len) (\<lambda>_. io_return (mh, Err e))
          | Inr _ \<Rightarrow>
              io_bind (read_count d rd mh_len) (\<lambda>buf.
                let sz = length buf
                in if sz \<noteq> mh_len then
                     io_fail (sock_error_msg sz
                       (''Message length '' @ show_nat sz @ '' is not '' @ show_nat mh_len))
                   else io_return (mh, Ok buf)))"

subsection \<open>Writing\<close>

text \<open>
  The inner \<open>while\<close> of \<open>write_frame\<close> for one slice. A writer that claims more bytes than it was
  given would make \<open>remaining[written..]\<close> panic; no \<open>send\<close> does.
\<close>

function write_slice :: "(bytes \<Rightarrow> ('s, nat) io) \<Rightarrow> bytes \<Rightarrow> ('s, unit) io" where
  "write_slice wr remaining s =
     (if remaining \<noteq> [] then
        (case wr remaining s of
           None \<Rightarrow> None
         | Some (Inl e, s') \<Rightarrow> Some (Err e, s')
         | Some (Inr written, s') \<Rightarrow>
             if written = 0 then
               Some (Err (Socket ''failed to write ttrpc frame: write zero''), s')
             else write_slice wr (drop written remaining) s')
      else Some (Ok (), s))"
  by pat_completeness auto
termination
  by (relation "measure (\<lambda>(wr, bs, s). length bs)") auto

declare write_slice.simps [simp del]

definition write_frame ::
  "message_header \<Rightarrow> bytes \<Rightarrow> bytes \<Rightarrow> (bytes \<Rightarrow> ('s, nat) io) \<Rightarrow> 's
    \<Rightarrow> ((error + unit) \<times> 's) option \<times> bytes" where
  "write_frame mh p prefix wr s =
     (let prefix_len = min (length p) (DEFAULT_PAGE_SIZE - MESSAGE_HEADER_LENGTH)
      in case fill_prefix mh p prefix_len prefix of
           None \<Rightarrow> (Some (Err (Others ''panic''), s), prefix)
         | Some prefix' \<Rightarrow>
             (io_bind (write_slice wr prefix') (\<lambda>_. write_slice wr (drop prefix_len p)) s, prefix'))"

definition sync_write_message ::
  "display \<Rightarrow> (bytes \<Rightarrow> ('s, nat) io) \<Rightarrow> message_header \<Rightarrow> bytes \<Rightarrow> bytes \<Rightarrow> 's
    \<Rightarrow> ((error + unit) \<times> 's) option \<times> bytes" where
  "sync_write_message d wr mh p prefix =
     write_frame mh p prefix
       (\<lambda>bs s. map_option (\<lambda>(r, s'). (map_err (\<lambda>e. Socket (error_to_string d e)) r, s')) (wr bs s))"

subsection \<open>The framing specification of the blocking reader\<close>

text \<open>
  The specification of \<open>AsyncIO\<close>, except that an oversized frame is recognised by its header alone, whether or
  not its body is there: the end of the input ends the skipping.
\<close>

definition parse_blocking :: "bytes \<Rightarrow> parsed \<times> bytes" where
  "parse_blocking bs =
     (case header_from bs of
        None \<Rightarrow> (Truncated, [])
      | Some mh \<Rightarrow>
          (let n = unat (mh_length mh); body = drop MESSAGE_HEADER_LENGTH bs
           in if MESSAGE_LENGTH_MAX < n then (Oversize mh, drop n body)
              else if length body < n then (Truncated, [])
              else (Frame \<lparr>header = mh, payload = take n body\<rparr>, drop n body)))"

lemma parse_blocking_frame: "parse_blocking bs = (Frame m, tail) \<longleftrightarrow> parse_frame bs = (Frame m, tail)"
  by (auto simp: parse_blocking_def parse_frame_def Let_def split: option.split)

lemma parse_blocking_OversizeE:
  assumes "parse_blocking bs = (Oversize mh, tail)"
  obtains "header_from bs = Some mh" "MESSAGE_LENGTH_MAX < unat (mh_length mh)" "tail = drop (unat (mh_length mh)) (drop 10 bs)"
  using assms by (auto simp: parse_blocking_def Let_def split: option.splits if_splits)

lemma parse_blocking_TruncatedE:
  assumes "parse_blocking bs = (Truncated, tail)"
  obtains (no_header) "header_from bs = None"
    | (body) mh where "header_from bs = Some mh" "length (drop 10 bs) < unat (mh_length mh)" "unat (mh_length mh) \<le> MESSAGE_LENGTH_MAX"
  using assms by (auto simp: parse_blocking_def Let_def split: option.splits if_splits)


subsection \<open>What short reads and writes promise\<close>

locale short_reader =
  fixes rd :: "nat \<Rightarrow> ('s, bytes) io" and rest :: "'s \<Rightarrow> bytes"
  assumes read_some: "0 < n \<Longrightarrow> \<exists>k s'. 0 < k \<and> k \<le> n
    \<and> rd n s = Some (Ok (take k (rest s)), s') \<and> rest s' = drop k (rest s)"
begin

lemma read_into_eq:
  "\<exists>s'. read_into d rd n buf s = Some (Ok (buf @ take n (rest s)), s') \<and> rest s' = drop n (rest s)"
proof (induction n arbitrary: s buf rule: less_induct)
  case (less n)
  show ?case
  proof (cases "n = 0")
    case True
    then show ?thesis by (simp add: read_into.simps)
  next
    case False
    obtain k s1 where k: "0 < k" "k \<le> n" and r: "rd n s = Some (Ok (take k (rest s)), s1)"
      and s1: "rest s1 = drop k (rest s)"
      using read_some [of n s] False by blast
    show ?thesis
    proof (cases "k \<le> length (rest s)")
      case True
      from k have "n - k < n" by simp
      then obtain s2 where s2: "read_into d rd (n - k) (buf @ take k (rest s)) s1
          = Some (Ok ((buf @ take k (rest s)) @ take (n - k) (rest s1)), s2)"
        "rest s2 = drop (n - k) (rest s1)"
        using less.IH by blast
      have "take n (rest s) = take k (rest s) @ take (n - k) (rest s1)"
        using k s1 by (metis le_add_diff_inverse take_add)
      moreover have "take k (rest s) \<noteq> []" using k True by auto
      ultimately show ?thesis
        using False r s1 s2 True k by (subst read_into.simps) simp
    next
      case short: False
      show ?thesis
      proof (cases "rest s = []")
        case True
        with False r s1 show ?thesis by (subst read_into.simps) simp
      next
        case nonempty: False
        from nonempty have "n - length (rest s) < n" using False by simp
        then obtain s2 where "read_into d rd (n - length (rest s)) (buf @ rest s) s1
            = Some (Ok ((buf @ rest s) @ take (n - length (rest s)) (rest s1)), s2)"
          "rest s2 = drop (n - length (rest s)) (rest s1)"
          using less.IH by blast
        with False r s1 short k nonempty show ?thesis
          by (subst read_into.simps) simp
      qed
    qed
  qed
qed

lemma read_count_eq:
  "\<exists>s'. read_count d rd n s = Some (Ok (take n (rest s)), s') \<and> rest s' = drop n (rest s)"
  using read_into_eq [of d n "[]"] by (simp add: read_count_def)

text \<open>Discarding never fails, even when the peer closes before all bytes have arrived.\<close>

lemma discard_count_eq:
  "\<exists>s'. discard_count d rd n s = Some (Ok (), s') \<and> rest s' = drop n (rest s)"
proof (induction n arbitrary: s rule: less_induct)
  case (less n)
  show ?case
  proof (cases "n = 0")
    case True
    then show ?thesis by (simp add: discard_count.simps)
  next
    case False
    let ?k = "min DEFAULT_PAGE_SIZE n"
    obtain s1 where s1: "read_count d rd ?k s = Some (Ok (take ?k (rest s)), s1)"
        "rest s1 = drop ?k (rest s)"
      using read_count_eq by blast
    have "n - ?k < n" using False by simp
    then obtain s2 where s2: "discard_count d rd (n - ?k) s1 = Some (Ok (), s2)"
        "rest s2 = drop (n - ?k) (rest s1)"
      using less.IH by blast
    have "rest s2 = drop n (rest s)"
      unfolding s2(2) s1(2) drop_drop by (rule arg_cong [of _ _ "\<lambda>i. drop i (rest s)"]) auto
    with s1 s2 False show ?thesis
      by (subst discard_count.simps) (simp add: Let_def)
  qed
qed

lemma read_header_some:
  assumes "header_from (rest s) = Some mh"
  shows "\<exists>s'. read_message_header d rd s = Some (Ok mh, s') \<and> rest s' = drop 10 (rest s)"
proof -
  obtain s' where s': "read_into d rd 10 [] s = Some (Ok (take 10 (rest s)), s')"
      "rest s' = drop 10 (rest s)"
    using read_into_eq [of d 10 "[]" s] by auto
  have "take 10 (rest s) = header_bytes mh"
    using header_from_Some [OF assms] by (metis append_eq_conv_conj length_header_bytes)
  with s' header_from_bytes [of mh "[]"] show ?thesis
    by (simp add: read_message_header_def io_defs)
qed

lemma read_header_none:
  assumes "header_from (rest s) = None"
  shows "\<exists>e s'. read_message_header d rd s = Some (Err e, s')"
proof -
  obtain s' where "read_into d rd 10 [] s = Some (Ok (rest s), s')"
    using read_into_eq [of d 10 "[]" s] assms by (auto simp: header_from_short)
  with assms show ?thesis
    by (simp add: read_message_header_def io_defs header_from_short Let_def)
qed

text \<open>The three outcomes of the specification.\<close>

lemma read_message_frame:
  assumes "parse_frame (rest s) = (Frame m, tail)"
  shows "\<exists>s'. read_message d rd s = Some (Ok (header m, Ok (payload m)), s') \<and> rest s' = tail"
proof -
  obtain mh where mh: "header_from (rest s) = Some mh" "unat (mh_length mh) \<le> MESSAGE_LENGTH_MAX"
    "unat (mh_length mh) \<le> length (drop 10 (rest s))"
    "m = \<lparr>header = mh, payload = take (unat (mh_length mh)) (drop 10 (rest s))\<rparr>"
    "tail = drop (unat (mh_length mh)) (drop 10 (rest s))"
    using parse_frame_FrameE [OF assms] .
  obtain s1 where s1: "read_message_header d rd s = Some (Ok mh, s1)" "rest s1 = drop 10 (rest s)"
    using read_header_some [OF mh(1)] by blast
  obtain s2 where "read_count d rd (unat (mh_length mh)) s1 = Some (Ok (payload m), s2)"
      "rest s2 = tail"
    using read_count_eq [of d "unat (mh_length mh)" s1] s1(2) mh(4,5) by auto
  with s1 mh show ?thesis
    by (simp add: read_message_def io_bind_simps io_return_def Let_def)
qed

lemma read_message_over:
  assumes "header_from (rest s) = Some mh" and "MESSAGE_LENGTH_MAX < unat (mh_length mh)"
  shows "\<exists>e s'. read_message d rd s = Some (Ok (mh, Err e), s')
    \<and> check_oversize (unat (mh_length mh)) True = Err e
    \<and> rest s' = drop (unat (mh_length mh)) (drop 10 (rest s))"
proof -
  obtain s1 where s1: "read_message_header d rd s = Some (Ok mh, s1)" "rest s1 = drop 10 (rest s)"
    using read_header_some [OF assms(1)] by blast
  obtain s2 where "discard_count d rd (unat (mh_length mh)) s1 = Some (Ok (), s2)"
      "rest s2 = drop (unat (mh_length mh)) (rest s1)"
    using discard_count_eq by blast
  with s1 assms(2) show ?thesis
    by (auto simp: read_message_def io_bind_simps io_return_def check_oversize_def Let_def)
qed

lemma read_message_truncated:
  assumes "parse_blocking (rest s) = (Truncated, tail)"
  shows "\<exists>e s'. read_message d rd s = Some (Err e, s')"
  using assms
proof (cases rule: parse_blocking_TruncatedE)
  case no_header
  then show ?thesis
    using read_header_none [of s d] by (auto simp: read_message_def io_bind_simps)
next
  case (body mh)
  obtain s1 where s1: "read_message_header d rd s = Some (Ok mh, s1)" "rest s1 = drop 10 (rest s)"
    using read_header_some [OF body(1)] by blast
  obtain s2 where "read_count d rd (unat (mh_length mh)) s1 = Some (Ok (drop 10 (rest s)), s2)"
    using read_count_eq [of d "unat (mh_length mh)" s1] s1(2) body(2) by auto
  with s1 body(2,3) show ?thesis
    by (simp add: read_message_def io_bind_simps io_fail_def Let_def)
qed

end

locale short_writer =
  fixes wr :: "bytes \<Rightarrow> ('s, nat) io" and out :: "'s \<Rightarrow> bytes"
  assumes write_some: "bs \<noteq> [] \<Longrightarrow> \<exists>k s'. 0 < k \<and> k \<le> length bs
    \<and> wr bs s = Some (Ok k, s') \<and> out s' = out s @ take k bs"
begin

lemma write_slice_ok:
  "\<exists>s'. write_slice wr bs s = Some (Ok (), s') \<and> out s' = out s @ bs"
proof (induction bs arbitrary: s rule: length_induct)
  case (1 bs)
  show ?case
  proof (cases "bs = []")
    case True
    then show ?thesis by (simp add: write_slice.simps)
  next
    case False
    obtain k s1 where k: "0 < k" "k \<le> length bs" "wr bs s = Some (Ok k, s1)"
        "out s1 = out s @ take k bs"
      using write_some [OF False] by blast
    then have "length (drop k bs) < length bs" by simp
    then obtain s2 where "write_slice wr (drop k bs) s1 = Some (Ok (), s2)"
        "out s2 = out s1 @ drop k bs"
      using "1.IH" by blast
    with k False show ?thesis
      by (subst write_slice.simps) simp
  qed
qed

lemma write_frame_ok:
  "\<exists>s' prefix'. write_frame mh p prefix wr s = (Some (Ok (), s'), prefix')
     \<and> out s' = out s @ header_bytes mh @ p \<and> length prefix' \<le> DEFAULT_PAGE_SIZE"
proof -
  let ?k = "min (length p) (DEFAULT_PAGE_SIZE - MESSAGE_HEADER_LENGTH)"
  let ?prefix = "header_bytes mh @ take ?k p"
  obtain s1 where 1: "write_slice wr ?prefix s = Some (Ok (), s1)" "out s1 = out s @ ?prefix"
    using write_slice_ok by blast
  obtain s2 where 2: "write_slice wr (drop ?k p) s1 = Some (Ok (), s2)"
      "out s2 = out s1 @ drop ?k p"
    using write_slice_ok by blast
  have "write_frame mh p prefix wr s = (Some (Ok (), s2), ?prefix)"
    using 1 2 by (simp add: write_frame_def fill_prefix_eq Let_def io_bind_simps)
  with 1 2 show ?thesis by simp
qed

end

lemma short_writer_map_err:
  assumes "short_writer wr out"
  shows "short_writer (\<lambda>bs s. map_option (\<lambda>(r, s'). (map_err g r, s')) (wr bs s)) out"
proof
  fix bs :: bytes and s
  assume "bs \<noteq> []"
  from short_writer.write_some [OF assms this, of s]
  show "\<exists>k s'. 0 < k \<and> k \<le> length bs
      \<and> map_option (\<lambda>(r, s'). (map_err g r, s')) (wr bs s) = Some (Ok k, s') \<and> out s' = out s @ take k bs"
    by auto
qed

context short_writer
begin

lemma sync_write_message_ok:
  "\<exists>s' prefix'. sync_write_message d wr mh p prefix s = (Some (Ok (), s'), prefix')
     \<and> out s' = out s @ header_bytes mh @ p \<and> length prefix' \<le> DEFAULT_PAGE_SIZE"
  unfolding sync_write_message_def
  by (rule short_writer.write_frame_ok [OF short_writer_map_err [OF short_writer_axioms]])

end

subsection \<open>Both over a socket\<close>

sublocale recv_laws \<subseteq> pipe_rd: short_reader "pipe_read recv" rest
  by unfold_locales (rule pipe_read_some)

sublocale send_laws \<subseteq> pipe_wr: short_writer "pipe_write send" out
  by unfold_locales (rule pipe_write_some)

context recv_laws
begin

lemma pipe_read_message_frame:
  "\<lbrakk>frame_ok m; rest s = frame_bytes m @ tail\<rbrakk>
   \<Longrightarrow> \<exists>s'. read_message d (pipe_read recv) s = Some (Ok (header m, Ok (payload m)), s') \<and> rest s' = tail"
  by (rule pipe_rd.read_message_frame) (simp add: parse_frame_bytes)

lemma pipe_read_message_refines:
  "case parse_blocking (rest s) of
      (Frame m, tail) \<Rightarrow>
        \<exists>s'. read_message d (pipe_read recv) s = Some (Ok (header m, Ok (payload m)), s') \<and> rest s' = tail
    | (Oversize mh, tail) \<Rightarrow>
        \<exists>e s'. read_message d (pipe_read recv) s = Some (Ok (mh, Err e), s')
          \<and> check_oversize (unat (mh_length mh)) True = Err e \<and> rest s' = tail
    | (Truncated, _) \<Rightarrow> \<exists>e s'. read_message d (pipe_read recv) s = Some (Err e, s')"
proof (cases "parse_blocking (rest s)")
  case (Pair res tail)
  show ?thesis
  proof (cases res)
    case (Frame m)
    with Pair pipe_rd.read_message_frame [of s m tail d] show ?thesis using parse_blocking_frame [of "rest s" m tail] by simp
  next
    case (Oversize mh)
    with Pair have "parse_blocking (rest s) = (Oversize mh, tail)" by simp
    then obtain "header_from (rest s) = Some mh" "MESSAGE_LENGTH_MAX < unat (mh_length mh)"
        "tail = drop (unat (mh_length mh)) (drop 10 (rest s))"
      by (rule parse_blocking_OversizeE)
    with pipe_rd.read_message_over [of s mh d] Pair Oversize show ?thesis by simp
  next
    case Truncated
    with Pair pipe_rd.read_message_truncated [of s tail d] show ?thesis by simp
  qed
qed

end

context send_laws
begin

lemmas pipe_write_message_ok = pipe_wr.sync_write_message_ok

end


text \<open>A two-byte response frame arriving one byte at a time, with an interruption in between.\<close>

definition sample_frame :: gen_message where
  "sample_frame = gen_new_response 7 [10, 20]"

definition sample_sock :: sock where
  "sample_sock = \<lparr>inq = frame_bytes sample_frame @ [99], outq = [],
     script = [AtMost 0, Interrupted, AtMost 0, WouldBlock]\<rparr>"



text \<open>
  C22: The blocking writer puts exactly the frame's bytes, header then payload, on a socket that may
  interrupt calls and accept bytes in arbitrary small pieces; it returns, leaves the reusable
  prefix buffer no longer than one page whatever it held before, and a peer that reads the socket
  with \<open>read_message\<close> over any other such socket gets the same header and payload back.
\<close>

theorem sync_frame_roundtrip:
  assumes "send_laws send out patience" and "recv_laws recv rest patience'" and "frame_ok m"
  shows "\<exists>s' prefix'.
      sync_write_message d (pipe_write send) (header m) (payload m) prefix s = (Some (Ok (), s'), prefix')
      \<and> out s' = out s @ frame_bytes m \<and> length prefix' \<le> DEFAULT_PAGE_SIZE
      \<and> (\<forall>r tail. rest r = frame_bytes m @ tail \<longrightarrow>
            (\<exists>r'. read_message d (pipe_read recv) r = Some (Ok (header m, Ok (payload m)), r')
                 \<and> rest r' = tail))"
proof -
  obtain s' prefix' where
    "sync_write_message d (pipe_write send) (header m) (payload m) prefix s = (Some (Ok (), s'), prefix')"
    "out s' = out s @ frame_bytes m" "length prefix' \<le> DEFAULT_PAGE_SIZE"
    using send_laws.pipe_write_message_ok [OF assms(1)] unfolding frame_bytes_def by blast
  with recv_laws.pipe_read_message_frame [OF assms(2,3)] show ?thesis by blast
qed

theorem sync_frame_roundtrip_witness:
  "\<exists>s' prefix'.
      sync_write_message plain_display (pipe_write sock_send) (header sample_frame)
        (payload sample_frame) [1, 2, 3] (sample_sock\<lparr>outq := [5]\<rparr>) = (Some (Ok (), s'), prefix')
      \<and> outq s' = [5] @ frame_bytes sample_frame"
proof -
  have "frame_ok sample_frame" by (simp add: sample_frame_def frame_ok_new)
  from sync_frame_roundtrip [OF sock_out.send_laws_axioms sock_in.recv_laws_axioms this,
      of plain_display "[1, 2, 3]" "sample_sock\<lparr>outq := [5]\<rparr>"]
  show ?thesis by auto
qed

end
