(* ===== verification/SyncClient.thy ===== *)
theory SyncClient
  imports AsyncClient SyncChannel
begin

text \<open>
  The blocking client, \<open>src/src/sync/client.rs\<close>: requests hand their encoded bytes and a rendezvous
  channel to the sender thread, which numbers, registers, encodes and writes them; the receiver
  thread reads frames and hands each to the channel registered under its id. The interleaving of
  requests, both threads and timeouts is the step relation \<open>sc_step\<close>.

  A channel is a number; \<open>sc_waits\<close> says that its request still waits in \<open>recv\<close>, and \<open>sc_got\<close> what the
  request was given. A request leaves \<open>recv\<close> with the first thing it gets, so a later send fails. The
  \<open>Debug\<close> text of a packet is an argument, and so is the order in which the map is walked.
\<close>

record 't sync_client =
  sc_next_id :: u32
  sc_map :: "u32 \<rightharpoonup> nat"
  sc_waits :: "nat \<Rightarrow> bool"
  sc_got :: "nat \<rightharpoonup> error + bytes"
  sc_xst :: 't

definition sync_client_new :: "'t \<Rightarrow> 't sync_client" where
  "sync_client_new t = \<lparr>sc_next_id = 1, sc_map = Map.empty, sc_waits = (\<lambda>_. False), sc_got = Map.empty, sc_xst = t\<rparr>"

text \<open>\<open>with_hook\<close>: the context of a client with a connect hook; the descriptor is owned before the hook runs.\<close>

definition sync_with_hook ::
  "int + fd \<times> fd \<Rightarrow> fd \<Rightarrow> (fd \<Rightarrow> hook_error + ('d, 't) hook_output) \<Rightarrow> (error \<Rightarrow> string)
    \<Rightarrow> error + client_connection \<times> ('d, 't) conn_ctx" where
  "sync_with_hook socketpair fd0 hook display_err =
     rbind (map_err (\<lambda>e. err_to_others ''new ClientConnection'' (display_err e)) (client_connection_new socketpair fd0)) (\<lambda>conn.
     rbind (map_err (\<lambda>e. Others (''sync client connect hook failed (fd='' @ show_int fd0 @ ''): ''
              @ hook_error_display e)) (hook fd0)) (\<lambda>output.
       Ok (conn, conn_ctx_new (Some output))))"

subsection \<open>The two threads\<close>

text \<open>\<open>recver_tx.send\<close>; a failure is only logged.\<close>

definition hand_over :: "nat \<Rightarrow> error + bytes \<Rightarrow> 't sync_client \<Rightarrow> 't sync_client" where
  "hand_over ch r st =
     (if sc_waits st ch then st\<lparr>sc_got := (sc_got st)(ch \<mapsto> r), sc_waits := (sc_waits st)(ch := False)\<rparr> else st)"

definition sc_forget :: "u32 \<Rightarrow> 't sync_client \<Rightarrow> 't sync_client" where
  "sc_forget sid st = st\<lparr>sc_map := (sc_map st)(sid := None)\<rparr>"

text \<open>
  One round of the sender: the request is registered under the next id, in its own locked section, and then transformed and written. A failure
  is handed to the request after its registration has been removed.
\<close>

definition sender_register :: "nat \<Rightarrow> 't sync_client \<Rightarrow> u32 \<times> 't sync_client" where
  "sender_register ch st =
     (let sid = sc_next_id st in (sid, st\<lparr>sc_next_id := sid + 2, sc_map := (sc_map st)(sid \<mapsto> ch)\<rparr>))"

definition sender_write ::
  "display \<Rightarrow> ('d, 't) conn_ctx \<Rightarrow> (bytes \<Rightarrow> ('s, nat) io) \<Rightarrow> bytes \<Rightarrow> nat \<Rightarrow> u32 \<Rightarrow> 't sync_client \<Rightarrow> 's \<Rightarrow> bytes
    \<Rightarrow> ('t sync_client \<times> 's \<times> bytes) option" where
  "sender_write d cx wr buf ch sid st s prefix =
     (let mh = (header_new_request 0 (of_nat (length buf)))\<lparr>stream_id := sid\<rparr>
      in case outbound_buf cx (sc_xst st) buf (serialize_aad mh) False of
           (Inl e, t') \<Rightarrow> Some (hand_over ch (Err e) (sc_forget sid (st\<lparr>sc_xst := t'\<rparr>)), s, prefix)
         | (Inr p, t') \<Rightarrow>
             (case sync_write_message d wr (mh\<lparr>mh_length := of_nat (length p)\<rparr>) p prefix s of
                (None, _) \<Rightarrow> None
              | (Some (Inr _, s'), prefix') \<Rightarrow> Some (st\<lparr>sc_xst := t'\<rparr>, s', prefix')
              | (Some (Inl e, s'), prefix') \<Rightarrow>
                  Some (hand_over ch (Err e) (sc_forget sid (st\<lparr>sc_xst := t'\<rparr>)), s', prefix')))"

definition sender_turn ::
  "display \<Rightarrow> ('d, 't) conn_ctx \<Rightarrow> (bytes \<Rightarrow> ('s, nat) io) \<Rightarrow> bytes \<Rightarrow> nat \<Rightarrow> 't sync_client \<Rightarrow> 's \<Rightarrow> bytes
    \<Rightarrow> ('t sync_client \<times> 's \<times> bytes) option" where
  "sender_turn d cx wr buf ch st s prefix =
     (case sender_register ch st of (sid, st1) \<Rightarrow> sender_write d cx wr buf ch sid st1 s prefix)"

definition trans_resp ::
  "(message_header \<Rightarrow> error + bytes \<Rightarrow> string) \<Rightarrow> message_header \<Rightarrow> error + bytes \<Rightarrow> 't sync_client
    \<Rightarrow> 't sync_client" where
  "trans_resp dbg mh buf st =
     (case sc_map st (stream_id mh) of
        None \<Rightarrow> st
      | Some ch \<Rightarrow>
          if mh_type mh \<noteq> MESSAGE_TYPE_RESPONSE then
            hand_over ch (Err (Others (''Recver got malformed packet '' @ dbg mh buf))) st
          else sc_forget (stream_id mh) (hand_over ch buf st))"

datatype receiver_event =
    ClientGone
  | Ready "io_error + unit option"
  | ReadReturned "error + message_header \<times> (error + bytes)"

definition fail_all :: "((u32 \<rightharpoonup> nat) \<Rightarrow> (u32 \<times> nat) list) \<Rightarrow> string \<Rightarrow> 't sync_client \<Rightarrow> 't sync_client" where
  "fail_all order y st =
     (fold (\<lambda>kv. hand_over (snd kv) (Err (Socket (''socket error '' @ y)))) (order (sc_map st)) st)
       \<lparr>sc_map := Map.empty\<rparr>"

text \<open>One event of the receiver's loop; the Boolean says whether the loop goes on.\<close>

fun receiver_turn ::
  "('d, 't) conn_ctx \<Rightarrow> (message_header \<Rightarrow> error + bytes \<Rightarrow> string) \<Rightarrow> ((u32 \<rightharpoonup> nat) \<Rightarrow> (u32 \<times> nat) list)
    \<Rightarrow> receiver_event \<Rightarrow> 't sync_client \<Rightarrow> 't sync_client \<times> bool" where
  "receiver_turn cx dbg order ClientGone st = (st, False)"
| "receiver_turn cx dbg order (Ready (Inr _)) st = (st, True)"
| "receiver_turn cx dbg order (Ready (Inl e)) st = (st, False)"
| "receiver_turn cx dbg order (ReadReturned (Inr (mh, y))) st =
     (let (buf, t') = (case y of
            Inr data \<Rightarrow> inbound_buf cx (sc_xst st) data (serialize_aad mh) False
          | Inl e \<Rightarrow> (Err e, sc_xst st))
      in (trans_resp dbg mh buf (st\<lparr>sc_xst := t'\<rparr>), True))"
| "receiver_turn cx dbg order (ReadReturned (Inl (Socket y))) st = (fail_all order y st, False)"
| "receiver_turn cx dbg order (ReadReturned (Inl e)) st = (st, True)"

subsection \<open>Requests\<close>

definition sync_encode_request :: "request codec \<Rightarrow> request \<Rightarrow> error + bytes" where
  "sync_encode_request qc req =
     rbind (map_err (err_to_others ''Encode request error '') (c_encode qc req)) (\<lambda>buf.
     rbind (check_oversize (length buf) False) (\<lambda>_. Ok buf))"

text \<open>What \<open>request\<close> makes of its channel: something was handed over, the channel was closed, or the timeout struck.\<close>

definition sync_request_result ::
  "response codec \<Rightarrow> bool \<Rightarrow> (error + bytes) option waited \<Rightarrow> (error + response) option" where
  "sync_request_result rc timed w =
     (let prefix = (if timed then ''Receive packet from Receiver timeout: ''
                    else ''Receive packet from Receiver error: '')
      in case w of
           Hangs \<Rightarrow> None
         | Elapsed \<Rightarrow> Some (Err (err_to_others prefix ''timed out waiting on channel''))
         | Done None \<Rightarrow> Some (Err (err_to_others prefix
               (if timed then ''channel is empty and sending half is closed'' else ''receiving on a closed channel'')))
         | Done (Some (Inl e)) \<Rightarrow> Some (Err e)
         | Done (Some (Inr buf)) \<Rightarrow>
             (case c_decode rc buf of
                Inl e \<Rightarrow> Some (Err (err_to_others ''Unpack response error '' e))
              | Inr res \<Rightarrow>
                  (case non_ok res of Some s \<Rightarrow> Some (Err (RpcStatus s)) | None \<Rightarrow> Some (Ok res))))"

definition sync_request ::
  "response codec \<Rightarrow> request \<Rightarrow> (error + bytes) option wait \<Rightarrow> (error + response) option" where
  "sync_request rc req w =
     (let timed = (timeout_nano req \<noteq> 0)
      in sync_request_result rc timed (await_deadline (if timed then Some (unat (timeout_nano req)) else None) w))"

subsection \<open>What the threads do to one request\<close>

lemmas sc_defs = hand_over_def sc_forget_def

lemma hand_over_simps [simp]:
  "sc_map (hand_over ch r st) = sc_map st" "sc_next_id (hand_over ch r st) = sc_next_id st"
  "sc_xst (hand_over ch r st) = sc_xst st"
  "sc_waits (hand_over ch r st) ch' = (sc_waits st ch' \<and> ch' \<noteq> ch)"
  "sc_got (hand_over ch r st) ch' = (if ch' = ch \<and> sc_waits st ch then Some r else sc_got st ch')"
  by (auto simp: hand_over_def)

lemma sc_forget_simps [simp]:
  "sc_map (sc_forget sid st) = (sc_map st)(sid := None)" "sc_waits (sc_forget sid st) = sc_waits st"
  "sc_got (sc_forget sid st) = sc_got st" "sc_next_id (sc_forget sid st) = sc_next_id st"
  "sc_xst (sc_forget sid st) = sc_xst st"
  by (simp_all add: sc_forget_def)

lemma fold_hand_over:
  "sc_map (fold (\<lambda>kv. hand_over (snd kv) r) kvs st) = sc_map st"
  "sc_waits (fold (\<lambda>kv. hand_over (snd kv) r) kvs st) ch = (sc_waits st ch \<and> ch \<notin> snd ` set kvs)"
  "sc_got (fold (\<lambda>kv. hand_over (snd kv) r) kvs st) ch =
     (if sc_waits st ch \<and> ch \<in> snd ` set kvs then Some r else sc_got st ch)"
  by (induction kvs arbitrary: st) auto

text \<open>
  C27: The blocking client gives a frame to its own request only. Whatever the receiver reads, the
  registrations of all other ids and what all other requests got are unchanged. The request
  registered under the frame's id, if it still waits, gets the decoded payload when the frame is a
  response, or the error of its decoding, and an error when the frame is of another type; the
  registration is removed by a response, and by a response only.
\<close>

theorem sync_client_routing:
  assumes "receiver_turn cx dbg order (ReadReturned (Ok (mh, y))) st = (st', goes_on)"
    and "sid = stream_id mh"
  shows "goes_on \<and> (\<forall>sid'. sid' \<noteq> sid \<longrightarrow> sc_map st' sid' = sc_map st sid')
    \<and> (\<forall>ch. sc_map st sid \<noteq> Some ch \<longrightarrow> sc_got st' ch = sc_got st ch \<and> sc_waits st' ch = sc_waits st ch)
    \<and> (\<forall>ch. sc_map st sid = Some ch \<and> sc_waits st ch \<longrightarrow> \<not> sc_waits st' ch \<and>
         (if mh_type mh = MESSAGE_TYPE_RESPONSE then
            sc_map st' sid = None \<and> sc_got st' ch = Some (case y of
              Inl e \<Rightarrow> Err e | Inr data \<Rightarrow> fst (inbound_buf cx (sc_xst st) data (serialize_aad mh) False))
          else sc_map st' sid = Some ch \<and> (\<exists>e. sc_got st' ch = Some (Err e))))"
proof -
  obtain buf t' where b: "(case y of Inr data \<Rightarrow> inbound_buf cx (sc_xst st) data (serialize_aad mh) False
      | Inl e \<Rightarrow> (Err e, sc_xst st)) = (buf, t')"
    by (metis surj_pair)
  then have buf: "buf = (case y of Inl e \<Rightarrow> Err e | Inr data \<Rightarrow> fst (inbound_buf cx (sc_xst st) data (serialize_aad mh) False))"
    by (auto split: sum.splits)
  have "st' = trans_resp dbg mh buf (st\<lparr>sc_xst := t'\<rparr>)" "goes_on"
    using assms(1) by (auto simp: b)
  then show ?thesis
    using assms(2) buf by (auto simp: trans_resp_def split: option.splits)
qed

theorem sync_client_routing_witness:
  "\<exists>st'. receiver_turn (conn_ctx_default :: (unit, unit) conn_ctx) (\<lambda>mh y. []) (\<lambda>m. [])
       (ReadReturned (Ok (header_new_response 3 2, Ok [7, 8])))
       ((sync_client_new ())\<lparr>sc_map := [1 \<mapsto> 0, 3 \<mapsto> 1], sc_waits := (\<lambda>ch. ch < 2)\<rparr>) = (st', True)
     \<and> sc_got st' 1 = Some (Ok [7, 8]) \<and> sc_got st' 0 = None \<and> sc_map st' = [1 \<mapsto> 0]"
proof -
  let ?st = "(sync_client_new ())\<lparr>sc_map := [1 \<mapsto> 0, 3 \<mapsto> 1], sc_waits := (\<lambda>ch. ch < 2)\<rparr>"
  let ?cx = "conn_ctx_default :: (unit, unit) conn_ctx"
  obtain st' b where t: "receiver_turn ?cx (\<lambda>mh y. []) (\<lambda>m. []) (ReadReturned (Ok (header_new_response 3 2, Ok [7, 8]))) ?st = (st', b)"
    by (metis surj_pair)
  have m: "sc_map ?st 3 = Some 1" "sc_waits ?st 1" "sc_got ?st 0 = None" "3 = stream_id (header_new_response 3 2)"
      "mh_type (header_new_response 3 2) = MESSAGE_TYPE_RESPONSE"
      "fst (inbound_buf ?cx (sc_xst ?st) [7, 8] (serialize_aad (header_new_response 3 2)) False) = Ok [7, 8]"
    by (simp_all add: sync_client_new_def wire_simps inbound_buf_def conn_ctx_default_def)
  note r = sync_client_routing [OF t m(4)]
  have "sc_map st' = [1 \<mapsto> 0]"
  proof
    fix k
    show "sc_map st' k = [1 \<mapsto> 0] k" using r m(1,2,5) by (cases "k = 3") auto
  qed
  with t r m show ?thesis by simp
qed

subsection \<open>Interleavings\<close>

text \<open>The second half of the sender's round in terms of how the write went.\<close>

definition sender_effect ::
  "('d, 't) conn_ctx \<Rightarrow> bytes \<Rightarrow> nat \<Rightarrow> u32 \<Rightarrow> error + unit \<Rightarrow> 't sync_client \<Rightarrow> 't sync_client" where
  "sender_effect cx buf ch sid wres st =
     (case outbound_buf cx (sc_xst st) buf (serialize_aad ((header_new_request 0 (of_nat (length buf)))\<lparr>stream_id := sid\<rparr>)) False of
        (r, t') \<Rightarrow> (case rbind r (\<lambda>_. wres) of
           Inl e \<Rightarrow> hand_over ch (Err e) (sc_forget sid (st\<lparr>sc_xst := t'\<rparr>))
         | Inr _ \<Rightarrow> st\<lparr>sc_xst := t'\<rparr>))"

lemma sender_write_effect:
  assumes "sender_write d cx wr buf ch sid st s prefix = Some (st', s', prefix')"
  shows "\<exists>wres. st' = sender_effect cx buf ch sid wres st"
proof -
  obtain r t' where o: "outbound_buf cx (sc_xst st) buf (serialize_aad ((header_new_request 0
      (of_nat (length buf)))\<lparr>stream_id := sid\<rparr>)) False = (r, t')"
    by (metis surj_pair)
  show ?thesis
  proof (cases r)
    case (Inl e)
    with assms o show ?thesis by (auto simp: sender_write_def sender_effect_def Let_def)
  next
    case (Inr p)
    with assms o obtain x where "st' = sender_effect cx buf ch sid x st"
      by (auto simp: sender_write_def sender_effect_def Let_def split: prod.splits option.splits sum.splits)
        (metis old.sum.simps(5), metis old.sum.simps(6))
    then show ?thesis by blast
  qed
qed

text \<open>
  \<open>sending\<close> is the request that the sender has registered and is transforming or writing, with its bytes, channel and id. Taking a request
  from the queue is only the sender's business, so it is one step with the registration.
\<close>

record 't sc_sys =
  scl :: "'t sync_client"
  queue :: "(bytes \<times> nat) list"
  sending :: "(bytes \<times> nat \<times> u32) option"
  used :: nat
  timed :: "nat \<Rightarrow> bool"
  reading :: bool

text \<open>
  The id that the sender takes is not that of a request that still waits: it is so unless more than
  \<open>2 ^ 31\<close> requests are made during the life of one.
\<close>

inductive sc_step ::
  "display \<Rightarrow> ('d, 't) conn_ctx \<Rightarrow> (message_header \<Rightarrow> error + bytes \<Rightarrow> string)
    \<Rightarrow> ((u32 \<rightharpoonup> nat) \<Rightarrow> (u32 \<times> nat) list) \<Rightarrow> (bytes \<Rightarrow> ('s, nat) io) \<Rightarrow> 't sc_sys \<Rightarrow> 't sc_sys \<Rightarrow> bool"
  for d cx dbg order wr where
  sc_request: "sc_step d cx dbg order wr s (s\<lparr>scl := (scl s)\<lparr>sc_waits := (sc_waits (scl s))(used s := True),
      sc_got := (sc_got (scl s))(used s := None)\<rparr>, queue := queue s @ [(buf, used s)], used := used s + 1,
      timed := (timed s)(used s := b)\<rparr>)"
| sc_register: "sending s = None \<Longrightarrow> queue s = (buf, ch) # q \<Longrightarrow> sender_register ch (scl s) = (sid, st') \<Longrightarrow>
    (\<And>ch'. sc_map (scl s) sid = Some ch' \<Longrightarrow> \<not> sc_waits (scl s) ch') \<Longrightarrow>
    sc_step d cx dbg order wr s (s\<lparr>scl := st', queue := q, sending := Some (buf, ch, sid)\<rparr>)"
| sc_send: "sending s = Some (buf, ch, sid) \<Longrightarrow> sender_write d cx wr buf ch sid (scl s) w prefix = Some (st', w', prefix') \<Longrightarrow>
    sc_step d cx dbg order wr s (s\<lparr>scl := st', sending := None\<rparr>)"
| sc_receive: "reading s \<Longrightarrow> receiver_turn cx dbg order ev (scl s) = (st', goes_on) \<Longrightarrow>
    sc_step d cx dbg order wr s (s\<lparr>scl := st', reading := goes_on\<rparr>)"
| sc_timeout: "timed s ch \<Longrightarrow>
    sc_step d cx dbg order wr s (s\<lparr>scl := (scl s)\<lparr>sc_waits := (sc_waits (scl s))(ch := False)\<rparr>\<rparr>)"

definition sc_init :: "'t \<Rightarrow> 't sc_sys" where
  "sc_init t = \<lparr>scl = sync_client_new t, queue = [], sending = None, used = 0, timed = (\<lambda>_. False), reading = True\<rparr>"

abbreviation sc_reach where
  "sc_reach d cx dbg order wr t \<equiv> (sc_step d cx dbg order wr)\<^sup>*\<^sup>* (sc_init t)"

text \<open>Where a waiting request is while the receiver runs; the id that the sender works on is its request's.\<close>

definition sc_inv :: "'t sc_sys \<Rightarrow> bool" where
  "sc_inv s \<longleftrightarrow> (reading s \<longrightarrow> (\<forall>ch. sc_waits (scl s) ch \<longrightarrow>
        ch \<in> snd ` set (queue s) \<or> (\<exists>sid. sc_map (scl s) sid = Some ch)))
     \<and> (\<forall>buf ch sid. sending s = Some (buf, ch, sid) \<longrightarrow> sc_map (scl s) sid \<in> {None, Some ch})"

lemma sender_effect_waits:
  "sc_waits (sender_effect cx buf ch sid wres st) ch' \<Longrightarrow> sc_waits st ch' \<and> (ch' = ch \<longrightarrow> sc_map (sender_effect cx buf ch sid wres st) = sc_map st)"
  "sid' \<noteq> sid \<Longrightarrow> sc_map (sender_effect cx buf ch sid wres st) sid' = sc_map st sid'"
  by (auto simp: sender_effect_def split: prod.splits sum.splits)

lemma receiver_turn_waits:
  assumes "receiver_turn cx dbg order ev st = (st', True)" and "sc_waits st' ch"
  shows "sc_waits st ch \<and> (sc_map st sid = Some ch \<longrightarrow> sc_map st' sid = Some ch)"
  using assms
  by (cases "(cx, dbg, order, ev, st)" rule: receiver_turn.cases)
    (auto simp: trans_resp_def Let_def split: prod.splits option.splits if_splits)

lemma receiver_turn_map:
  assumes "receiver_turn cx dbg order ev st = (st', goes_on)"
  shows "sc_map st' sid \<in> {None, sc_map st sid}"
  using assms
  by (cases "(cx, dbg, order, ev, st)" rule: receiver_turn.cases)
    (auto simp: trans_resp_def fail_all_def Let_def split: prod.splits option.splits if_splits)

lemma sc_inv_step:
  assumes "sc_step d cx dbg order wr s s'" and "sc_inv s"
  shows "sc_inv s'"
  using assms(1)
proof cases
  case (sc_request buf b)
  with assms(2) show ?thesis by (auto simp: sc_inv_def)
next
  case (sc_register buf ch q sid st')
  have "ch' \<in> snd ` set q \<or> (\<exists>k. sc_map st' k = Some ch')" if "reading s" and "sc_waits st' ch'" for ch'
  proof (cases "ch' = ch")
    case True
    with sc_register(4) show ?thesis by (auto simp: sender_register_def Let_def)
  next
    case False
    have "sc_waits (scl s) ch'" using that(2) sc_register(4) by (auto simp: sender_register_def Let_def)
    with assms(2) that(1) False sc_register(3,5) have "ch' \<in> snd ` set q \<or> (\<exists>k. sc_map (scl s) k = Some ch' \<and> k \<noteq> sid)"
      unfolding sc_inv_def by fastforce
    with sc_register(4) show ?thesis by (auto simp: sender_register_def Let_def)
  qed
  moreover have "sc_map st' sid = Some ch" using sc_register(4) by (auto simp: sender_register_def Let_def)
  ultimately show ?thesis using sc_register(1) by (simp add: sc_inv_def)
next
  case (sc_send buf ch sid w prefix st' w' prefix')
  obtain wres where st': "st' = sender_effect cx buf ch sid wres (scl s)"
    using sender_write_effect [OF sc_send(3)] by blast
  have mine: "sc_map (scl s) sid \<in> {None, Some ch}" using assms(2) sc_send(2) by (auto simp: sc_inv_def)
  have "ch' \<in> snd ` set (queue s) \<or> (\<exists>k. sc_map st' k = Some ch')" if r: "reading s" and w: "sc_waits st' ch'" for ch'
  proof -
    have "sc_waits (scl s) ch'" and own: "ch' = ch \<longrightarrow> sc_map st' = sc_map (scl s)"
      using sender_effect_waits(1) w unfolding st' by blast+
    with assms(2) r have "ch' \<in> snd ` set (queue s) \<or> (\<exists>k. sc_map (scl s) k = Some ch')" by (auto simp: sc_inv_def)
    with own mine sender_effect_waits(2) [of _ sid cx buf ch wres "scl s"] show ?thesis unfolding st' by (metis insertE option.distinct(1) option.inject singletonD)
  qed
  with sc_send(1) show ?thesis by (simp add: sc_inv_def)
next
  case (sc_receive ev st' goes_on)
  have "\<exists>k. sc_map st' k = Some ch" if "goes_on" "sc_waits st' ch" "sc_map (scl s) k = Some ch" for ch k
    using receiver_turn_waits [of cx dbg order ev "scl s" st' ch k] sc_receive(3) that by auto
  moreover have "sc_waits (scl s) ch" if "goes_on" "sc_waits st' ch" for ch
    using receiver_turn_waits [of cx dbg order ev "scl s" st' ch] sc_receive(3) that by auto
  moreover have "sc_map st' k \<in> {None, sc_map (scl s) k}" for k using receiver_turn_map [OF sc_receive(3)] .
  ultimately show ?thesis using assms(2) sc_receive(1,2) unfolding sc_inv_def by (simp; fastforce)
next
  case (sc_timeout ch)
  with assms(2) show ?thesis by (auto simp: sc_inv_def)
qed

lemma sc_reach_inv: "sc_reach d cx dbg order wr t s \<Longrightarrow> sc_inv s"
proof (induction rule: rtranclp_induct)
  case base
  then show ?case by (simp add: sc_inv_def sc_init_def sync_client_new_def)
qed (rule sc_inv_step)

lemma fail_all_answers:
  assumes "drains order" and "sc_map st sid = Some ch"
  shows "\<not> sc_waits (fail_all order y st) ch"
proof -
  have "(sid, ch) \<in> set (order (sc_map st))"
    using assms enumerates_in [of "order (sc_map st)" "sc_map st" sid ch]
    by (simp add: drains_def finite_subset [OF subset_UNIV])
  then have "ch \<in> snd ` set (order (sc_map st))" by force
  then show ?thesis by (simp add: fail_all_def fold_hand_over)
qed

text \<open>
  C13: No blocking request is lost while the receiver runs. In every state that requests, the sender,
  the receiver and timeouts can reach together, with ids not reused while in use: as long as the
  receiver runs, a request that waits is in the sender's queue or registered under its id, and when
  the connection is lost (a socket error) every registered request is answered, so that only those
  still in the queue keep waiting.
\<close>

theorem sync_request_not_lost:
  assumes "drains order" and "sc_reach d cx dbg order wr t s" and "reading s"
  shows "(\<forall>ch. sc_waits (scl s) ch \<longrightarrow> ch \<in> snd ` set (queue s) \<or> (\<exists>sid. sc_map (scl s) sid = Some ch))
    \<and> (\<forall>y ch. sc_waits (fst (receiver_turn cx dbg order (ReadReturned (Err (Socket y))) (scl s))) ch
         \<longrightarrow> ch \<in> snd ` set (queue s))"
proof -
  have inv: "\<forall>ch. sc_waits (scl s) ch \<longrightarrow> ch \<in> snd ` set (queue s) \<or> (\<exists>sid. sc_map (scl s) sid = Some ch)"
    using sc_reach_inv [OF assms(2)] assms(3) by (simp add: sc_inv_def)
  have "ch \<in> snd ` set (queue s)" if "sc_waits (fail_all order y (scl s)) ch" for y ch
  proof -
    have "sc_waits (scl s) ch" using that by (simp add: fail_all_def fold_hand_over)
    with inv fail_all_answers [OF assms(1)] that show ?thesis by blast
  qed
  with inv show ?thesis by simp
qed

context send_laws
begin

lemma sender_turn_sent:
  assumes "outbound_buf cx (sc_xst st) buf (serialize_aad ((header_new_request 0
      (of_nat (length buf)))\<lparr>stream_id := sc_next_id st\<rparr>)) False = (Ok p, t')"
  shows "\<exists>w' prefix'. sender_turn d cx (pipe_write send) buf ch st w prefix
    = Some (st\<lparr>sc_next_id := sc_next_id st + 2, sc_map := (sc_map st)(sc_next_id st \<mapsto> ch), sc_xst := t'\<rparr>, w', prefix')"
proof -
  let ?mh = "((header_new_request 0 (of_nat (length buf)))\<lparr>stream_id := sc_next_id st\<rparr>)\<lparr>mh_length := of_nat (length p)\<rparr>"
  obtain w' prefix' where "sync_write_message d (pipe_write send) ?mh p prefix w = (Some (Ok (), w'), prefix')"
    using pipe_write_message_ok [of d ?mh p prefix w] by blast
  with assms show ?thesis by (simp add: sender_turn_def sender_register_def sender_write_def Let_def)
qed

end

text \<open>A request without a timeout, queued and then written to the socket.\<close>

abbreviation quiet_dbg :: "message_header \<Rightarrow> error + bytes \<Rightarrow> string" where
  "quiet_dbg mh y \<equiv> []"

definition plain_ctx :: "(unit, unit) conn_ctx" where
  "plain_ctx = conn_ctx_default"

definition one_request :: "unit sc_sys" where
  "one_request = (sc_init ())\<lparr>scl := (sync_client_new ())\<lparr>sc_waits := (\<lambda>_. False)(0 := True)\<rparr>,
     queue := [([], 0)], used := 1\<rparr>"

definition one_registered :: "unit sc_sys" where
  "one_registered = one_request\<lparr>scl := (scl one_request)\<lparr>sc_next_id := 3, sc_map := [1 \<mapsto> 0]\<rparr>, queue := [],
     sending := Some ([], 0, 1)\<rparr>"

definition one_sent :: "unit sc_sys" where
  "one_sent = one_registered\<lparr>sending := None\<rparr>"

lemma one_sent_reached:
  "sc_reach plain_display plain_ctx quiet_dbg word_order (pipe_write sock_send) () one_sent"
proof -
  let ?step = "sc_step plain_display plain_ctx quiet_dbg word_order (pipe_write sock_send)"
  have 1: "?step (sc_init ()) one_request"
    using sc_request [of plain_display plain_ctx quiet_dbg word_order "pipe_write sock_send" "sc_init ()" False "[]"]
    by (simp add: one_request_def sc_init_def sync_client_new_def fun_upd_idem)
  have o: "outbound_buf plain_ctx (sc_xst (scl one_request)) [] (serialize_aad ((header_new_request 0
      (of_nat (length ([] :: bytes))))\<lparr>stream_id := sc_next_id (scl one_request)\<rparr>)) False = (Ok [], ())"
    by (simp add: outbound_buf_def plain_ctx_def conn_ctx_default_def)
  obtain w' prefix' where "sender_turn plain_display plain_ctx (pipe_write sock_send) [] 0 (scl one_request) sample_sock []
      = Some ((scl one_request)\<lparr>sc_next_id := sc_next_id (scl one_request) + 2,
          sc_map := (sc_map (scl one_request))(sc_next_id (scl one_request) \<mapsto> 0), sc_xst := ()\<rparr>, w', prefix')"
    using sock_out.sender_turn_sent [OF o] by blast
  then have written: "sender_write plain_display plain_ctx (pipe_write sock_send) [] 0 1 (scl one_registered) sample_sock []
      = Some (scl one_registered, w', prefix')"
    by (simp add: sender_turn_def sender_register_def Let_def one_request_def one_registered_def sc_init_def sync_client_new_def)
  have 2: "?step one_request one_registered"
    using sc_register [of one_request "[]" 0 "[]" 1 "scl one_registered"]
    by (simp add: one_request_def one_registered_def sender_register_def sc_init_def sync_client_new_def)
  have 3: "?step one_registered one_sent"
    using sc_send [of one_registered, OF _ written, of quiet_dbg word_order] by (simp add: one_registered_def one_sent_def one_request_def sc_init_def)
  from 1 2 3 show ?thesis by (meson converse_rtranclp_into_rtranclp rtranclp.rtrancl_refl)
qed

theorem sync_request_not_lost_witness:
  "sc_waits (scl one_sent) 0 \<and> sc_map (scl one_sent) 1 = Some 0
   \<and> \<not> sc_waits (fst (receiver_turn plain_ctx quiet_dbg word_order (ReadReturned (Err (Socket ''gone''))) (scl one_sent))) 0"
proof -
  have s: "reading one_sent" "queue one_sent = []" "sc_waits (scl one_sent) 0" "sc_map (scl one_sent) 1 = Some 0"
    by (simp_all add: one_sent_def one_registered_def one_request_def sc_init_def)
  from sync_request_not_lost [OF drains_word_order one_sent_reached s(1)] s show ?thesis by auto
qed

text \<open>
  C40: Once the receiver has stopped, a request that was written waits for ever. If the receiver thread
  has ended (after a socket error, or because \<open>ready\<close> failed), a request without a timeout that the
  sender is done with and that still waits will be waiting after any further steps of the client: no
  thread is left that would answer it, and the sender goes on registering and writing new ones.
\<close>

theorem receiver_end_strands:
  assumes "(sc_step d cx dbg order wr)\<^sup>*\<^sup>* s s'" and "\<not> reading s" and "sc_waits (scl s) ch" and "ch < used s"
    and "ch \<notin> snd ` set (queue s)" and "\<forall>buf sid. sending s \<noteq> Some (buf, ch, sid)" and "\<not> timed s ch"
  shows "sc_waits (scl s') ch \<and> \<not> reading s'"
proof -
  let ?P = "\<lambda>s. \<not> reading s \<and> sc_waits (scl s) ch \<and> ch < used s \<and> ch \<notin> snd ` set (queue s)
    \<and> (\<forall>buf sid. sending s \<noteq> Some (buf, ch, sid)) \<and> \<not> timed s ch"
  have keep: "?P s2" if "sc_step d cx dbg order wr s1 s2" and "?P s1" for s1 s2
    using that
  proof cases
    case (sc_send buf ch' sid w prefix st' w' prefix')
    obtain wres where "st' = sender_effect cx buf ch' sid wres (scl s1)"
      using sender_write_effect [OF sc_send(3)] by blast
    moreover have "ch \<noteq> ch'" using that(2) sc_send(2) by auto
    ultimately show ?thesis
      using that(2) sc_send(1) by (auto simp: sender_effect_def split: prod.splits sum.splits)
  qed (auto simp: sender_register_def Let_def)
  from assms(1) have "?P s \<Longrightarrow> ?P s'"
    by (induction rule: rtranclp_induct) (use keep in blast)+
  with assms(2-7) show ?thesis by blast
qed

theorem receiver_end_strands_witness:
  "\<exists>s. sc_reach plain_display plain_ctx quiet_dbg word_order (pipe_write sock_send) () s \<and> \<not> reading s
     \<and> (\<forall>s'. (sc_step plain_display plain_ctx quiet_dbg word_order (pipe_write sock_send))\<^sup>*\<^sup>* s s'
          \<longrightarrow> sc_waits (scl s') 0)"
proof -
  let ?s = "one_sent\<lparr>scl := scl one_sent, reading := False\<rparr>"
  have "sc_step plain_display plain_ctx quiet_dbg word_order (pipe_write sock_send) one_sent ?s"
    by (rule sc_receive [where ev = "Ready (Err (OsError 9))"]) (simp_all add: one_sent_def one_registered_def one_request_def sc_init_def)
  with one_sent_reached have r: "sc_reach plain_display plain_ctx quiet_dbg word_order (pipe_write sock_send) () ?s"
    by (rule rtranclp.rtrancl_into_rtrancl)
  have s: "\<not> reading ?s" "sc_waits (scl ?s) 0" "0 < used ?s" "0 \<notin> snd ` set (queue ?s)" "\<forall>buf sid. sending ?s \<noteq> Some (buf, 0, sid)" "\<not> timed ?s 0"
    by (simp_all add: one_sent_def one_registered_def one_request_def sc_init_def)
  have "sc_waits (scl s') 0"
    if "(sc_step plain_display plain_ctx quiet_dbg word_order (pipe_write sock_send))\<^sup>*\<^sup>* ?s s'" for s'
    using receiver_end_strands [OF that s] by simp
  with r s(1) show ?thesis by blast
qed

end
