(* ===== verification/SyncServer.thy ===== *)
theory SyncServer
  imports AsyncServer SyncChannel
begin

text \<open>
  The blocking server, \<open>src/src/sync/server.rs\<close> and \<open>src/src/sync/utils.rs\<close>: how responses are sent
  through the response channel, one turn of a method-handler thread, the reader and response threads
  of a connection, and the server object. The pool of handler threads is theory \<open>SyncPool\<close>.

  The response channel is the list of frames put into it; \<open>tx_open\<close> says that its receiver lives.
  The transform's state is threaded through the calls in the order of the outbound lock.
\<close>

type_synonym resp_queue = "(message_header \<times> bytes) list"
type_synonym 't resp_state = "'t \<times> resp_queue"

subsection \<open>Sending responses (utils.rs)\<close>

definition send_response ::
  "response codec \<Rightarrow> ('d, 't) conn_ctx \<Rightarrow> bool \<Rightarrow> u32 \<Rightarrow> response \<Rightarrow> 't resp_state
    \<Rightarrow> (error + unit) \<times> 't resp_state" where
  "send_response rc cx tx_open sid res st =
     (case st of (t, q) \<Rightarrow>
        let max_len = max_raw_payload_len cx;
            encoded = rbind (map_err (err_to_others []) (c_encode rc res)) (\<lambda>buf.
              if length buf > max_len then
                map_err (err_to_others []) (c_encode rc (oversize_response (length buf) max_len))
              else Ok buf)
        in case encoded of
             Inl e \<Rightarrow> (Err e, st)
           | Inr buf \<Rightarrow>
               send_response_sync cx buf (serialize_aad (header_new_response sid 0)) tx_open
                 \<lparr>mh_length = 0, stream_id = sid, mh_type = MESSAGE_TYPE_RESPONSE, flags = 0\<rparr> t q)"

text \<open>The deprecated helper: it answers with an empty context, whatever the connection has.\<close>

definition response_to_channel ::
  "response codec \<Rightarrow> bool \<Rightarrow> u32 \<Rightarrow> response \<Rightarrow> 't resp_state \<Rightarrow> (error + unit) \<times> 't resp_state" where
  "response_to_channel rc tx_open sid res st =
     send_response rc (conn_ctx_default :: (unit, 't) conn_ctx) tx_open sid res st"

definition response_error_to_channel ::
  "display \<Rightarrow> response codec \<Rightarrow> ('d, 't) conn_ctx \<Rightarrow> bool \<Rightarrow> u32 \<Rightarrow> error \<Rightarrow> 't resp_state
    \<Rightarrow> (error + unit) \<times> 't resp_state" where
  "response_error_to_channel d rc cx tx_open sid e st =
     send_response rc cx tx_open sid (response_of_error d e) st"

record ('d, 't) sync_context =
  sx_fd :: fd
  sx_mh :: message_header
  sx_metadata :: metadata_map
  sx_timeout_nano :: i64
  sx_conn_ctx :: "('d, 't) conn_ctx"

type_synonym ('d, 't) sync_handler =
  "('d, 't) sync_context \<Rightarrow> request \<Rightarrow> bool \<Rightarrow> 't resp_state \<Rightarrow> (error + unit) \<times> 't resp_state"

definition sx_respond ::
  "response codec \<Rightarrow> ('d, 't) sync_context \<Rightarrow> bool \<Rightarrow> u32 \<Rightarrow> response \<Rightarrow> 't resp_state
    \<Rightarrow> (error + unit) \<times> 't resp_state" where
  "sx_respond rc ctx0 tx_open sid res st = send_response rc (sx_conn_ctx ctx0) tx_open sid res st"

text \<open>\<open>request_handler!\<close> around a service function \<open>f\<close>.\<close>

definition request_handler ::
  "display \<Rightarrow> response codec \<Rightarrow> 'q codec \<Rightarrow> 'p codec \<Rightarrow> (('d, 't) sync_context \<Rightarrow> 'q \<Rightarrow> error + 'p)
    \<Rightarrow> ('d, 't) sync_handler" where
  "request_handler d rc qc pc f ctx0 req tx_open st =
     (let res = rbind (map_err (err_to_others ''Unpack request error '') (c_decode qc (req_payload req))) (\<lambda>q.
                  case f ctx0 q of
                    Inr rep \<Rightarrow> ok_response pc rep
                  | Inl x \<Rightarrow> Ok (status_response d x))
      in case res of
           Inl e \<Rightarrow> (Err e, st)
         | Inr resp \<Rightarrow> sx_respond rc ctx0 tx_open (stream_id (sx_mh ctx0)) resp st)"

text \<open>\<open>client_request!\<close>: the request it sends and what it makes of the response.\<close>

definition client_request ::
  "'q codec \<Rightarrow> 'p codec \<Rightarrow> ctx \<Rightarrow> (string \<times> string list) list \<Rightarrow> string \<Rightarrow> string \<Rightarrow> 'q \<Rightarrow> 'p
    \<Rightarrow> (request \<Rightarrow> error + response) \<Rightarrow> error + 'p" where
  "client_request qc pc c md srv meth q cres request =
     rbind (map_err (err_to_others ''Encoding request '') (c_encode qc q)) (\<lambda>p.
     rbind (request (request_set_payload p (init_request srv meth (ctx_timeout_nano c) (to_pb md)))) (\<lambda>res.
       map_err (err_to_others ''Unpack get error '') (c_merge pc cres (resp_payload res))))"

subsection \<open>One turn of a handler thread (server.rs)\<close>

datatype worker_next = Continue | QuitConnection

type_synonym ('d, 't) sync_methods = "string \<rightharpoonup> ('d, 't) sync_handler"

definition worker_send :: "(error + unit) \<times> 't resp_state \<Rightarrow> worker_next \<times> 't resp_state" where
  "worker_send x = (case x of (r, st) \<Rightarrow> (if is_ok r then Continue else QuitConnection, st))"

text \<open>
  The body of the loop after the pool's accounting; \<open>None\<close> is the closed work channel. A failure to
  answer, or of the handler, quits the whole connection.
\<close>

definition worker_turn ::
  "display \<Rightarrow> request codec \<Rightarrow> response codec \<Rightarrow> ('d, 't) conn_ctx \<Rightarrow> ('d, 't) sync_methods \<Rightarrow> fd \<Rightarrow> bool
    \<Rightarrow> (message_header \<times> (error + bytes)) option \<Rightarrow> 't resp_state \<Rightarrow> worker_next \<times> 't resp_state" where
  "worker_turn d qc rc cx meths fd0 tx_open work st =
     (case work of
        None \<Rightarrow> (QuitConnection, st)
      | Some (mh, Inl e) \<Rightarrow> worker_send (response_error_to_channel d rc cx tx_open (stream_id mh) e st)
      | Some (mh, Inr buf) \<Rightarrow>
          if mh_type mh \<noteq> MESSAGE_TYPE_REQUEST then (Continue, st)
          else case c_decode qc buf of
                 Inl x \<Rightarrow>
                   worker_send (send_response rc cx tx_open (stream_id mh)
                     (init_status (get_status INVALID_ARGUMENT x)) st)
               | Inr req \<Rightarrow>
                   (let path = get_path (req_service req) (req_method req)
                    in case meths path of
                         None \<Rightarrow>
                           worker_send (send_response rc cx tx_open (stream_id mh)
                             (init_status (get_status INVALID_ARGUMENT (path @ '' does not exist''))) st)
                       | Some h \<Rightarrow>
                           worker_send (h \<lparr>sx_fd = fd0, sx_mh = mh, sx_metadata = from_pb (metadata req),
                             sx_timeout_nano = timeout_nano req, sx_conn_ctx = cx\<rparr> req tx_open st)))"

subsection \<open>The reader and response threads of a connection\<close>

text \<open>
  The reader over what \<open>read_message\<close> returns: the transform's state, the work queued, and whether the
  connection was told to quit. \<open>workers\<close>: the work channel still has a receiver.
\<close>

fun reader_thread ::
  "('d, 't) conn_ctx \<Rightarrow> bool \<Rightarrow> (error + message_header \<times> (error + bytes)) list \<Rightarrow> 't
    \<Rightarrow> (message_header \<times> (error + bytes)) list \<times> 't \<times> bool" where
  "reader_thread cx workers [] t = ([], t, False)"
| "reader_thread cx workers (Inr (mh, y) # rest) t =
     (let (y', t') = (case y of
            Inr data \<Rightarrow> inbound_buf cx t data (serialize_aad mh) True
          | Inl e \<Rightarrow> (Err e, t));
          mh' = (case y of
            Inr _ \<Rightarrow> (case y' of Inr buf \<Rightarrow> mh\<lparr>mh_length := of_nat (length buf)\<rparr> | Inl _ \<Rightarrow> mh)
          | Inl _ \<Rightarrow> mh)
      in if workers then
           (case reader_thread cx workers rest t' of (ws, t'', quit) \<Rightarrow> ((mh', y') # ws, t'', quit))
         else ([], t', True))"
| "reader_thread cx workers (Inl (Socket e) # rest) t = ([], t, True)"
| "reader_thread cx workers (Inl e # rest) t = reader_thread cx workers rest t"

text \<open>The response thread: frames are written in order until a write fails, which sets the quit flag.\<close>

fun response_thread ::
  "display \<Rightarrow> (bytes \<Rightarrow> ('s, nat) io) \<Rightarrow> resp_queue \<Rightarrow> bytes \<Rightarrow> 's \<Rightarrow> (bool \<times> 's) option" where
  "response_thread d wr [] prefix s = Some (False, s)"
| "response_thread d wr ((mh, p) # rest) prefix s =
     (case sync_write_message d wr mh p prefix s of
        (None, _) \<Rightarrow> None
      | (Some (Inl e, s'), _) \<Rightarrow> Some (True, s')
      | (Some (Inr _, s'), prefix') \<Rightarrow> response_thread d wr rest prefix' s')"

subsection \<open>The server object\<close>

definition connection_context_from_hook ::
  "fd \<Rightarrow> (fd \<Rightarrow> hook_error + ('d, 't) hook_output) option \<Rightarrow> hook_error + ('d, 't) conn_ctx" where
  "connection_context_from_hook fd0 hook =
     (case hook of
        Some h \<Rightarrow> rbind (h fd0) (\<lambda>out. Ok (conn_ctx_new (Some out)))
      | None \<Rightarrow> Ok conn_ctx_default)"

definition is_resource_limit_error :: "io_error \<Rightarrow> bool" where
  "is_resource_limit_error e = (case e of OsError n \<Rightarrow> n \<in> set [24, 23, 105, 12] | OtherError _ \<Rightarrow> False)"

record ('d, 't) sync_server =
  sy_listeners :: "pipe_listener list"
  listener_quit_flag :: bool
  sy_methods :: "('d, 't) sync_methods"
  sy_handler :: bool
  sy_reaper :: bool
  thread_count_default :: nat
  thread_count_min :: nat
  thread_count_max :: nat
  accept_retry_interval :: nat
  accept_hook :: "(fd \<Rightarrow> hook_error + ('d, 't) hook_output) option"

definition sync_server_default :: "('d, 't) sync_server" where
  "sync_server_default = \<lparr>sy_listeners = [], listener_quit_flag = False, sy_methods = Map.empty,
     sy_handler = False, sy_reaper = False, thread_count_default = 3, thread_count_min = 1,
     thread_count_max = 5, accept_retry_interval = 10, accept_hook = None\<rparr>"

definition sync_add_listener :: "error + pipe_listener \<Rightarrow> ('d, 't) sync_server \<Rightarrow> error + ('d, 't) sync_server" where
  "sync_add_listener new s =
     (if sy_listeners s \<noteq> [] then Err (Others ''ttrpc-rust just support 1 sockaddr now'')
      else rbind new (\<lambda>l. Ok (s\<lparr>sy_listeners := sy_listeners s @ [l]\<rparr>)))"

definition sync_register_service ::
  "bool \<Rightarrow> ('d, 't) sync_methods \<Rightarrow> ('d, 't) sync_server \<Rightarrow> ('d, 't) sync_server option" where
  "sync_register_service sole meths s =
     (if sole then Some (s\<lparr>sy_methods := sy_methods s ++ meths\<rparr>) else None)"

text \<open>The setters of the builder.\<close>

definition set_thread_count_default :: "nat \<Rightarrow> ('d, 't) sync_server \<Rightarrow> ('d, 't) sync_server" where
  "set_thread_count_default n s = s\<lparr>thread_count_default := n\<rparr>"

definition set_thread_count_min :: "nat \<Rightarrow> ('d, 't) sync_server \<Rightarrow> ('d, 't) sync_server" where
  "set_thread_count_min n s = s\<lparr>thread_count_min := n\<rparr>"

definition set_thread_count_max :: "nat \<Rightarrow> ('d, 't) sync_server \<Rightarrow> ('d, 't) sync_server" where
  "set_thread_count_max n s = s\<lparr>thread_count_max := n\<rparr>"

definition set_accept_retry_interval :: "nat \<Rightarrow> ('d, 't) sync_server \<Rightarrow> ('d, 't) sync_server" where
  "set_accept_retry_interval n s = s\<lparr>accept_retry_interval := n\<rparr>"

definition set_accept_hook ::
  "(fd \<Rightarrow> hook_error + ('d, 't) hook_output) \<Rightarrow> ('d, 't) sync_server \<Rightarrow> ('d, 't) sync_server" where
  "set_accept_hook h s = s\<lparr>accept_hook := Some h\<rparr>"

definition start_listen :: "('d, 't) sync_server \<Rightarrow> (error + unit) \<times> ('d, 't) sync_server" where
  "start_listen s =
     (if sy_listeners s = [] then (Err (Others ''ttrpc-rust not bind''), s)
      else (Ok (), s\<lparr>listener_quit_flag := False, sy_reaper := True, sy_handler := True\<rparr>))"

definition sync_start :: "('d, 't) sync_server \<Rightarrow> (error + unit) \<times> ('d, 't) sync_server" where
  "sync_start s =
     (if thread_count_default s \<ge> thread_count_max s then
        (Err (Others ''thread_count_default should smaller than thread_count_max''), s)
      else if thread_count_default s \<le> thread_count_min s then
        (Err (Others ''thread_count_default should bigger than thread_count_min''), s)
      else start_listen s)"

text \<open>Indexing the first of no listeners panics (\<open>None\<close>).\<close>

definition sync_stop_listen :: "('d, 't) sync_server \<Rightarrow> ('d, 't) sync_server option" where
  "sync_stop_listen s =
     (if sy_listeners s = [] then None
      else Some (s\<lparr>listener_quit_flag := True, sy_handler := False\<rparr>))"

subsection \<open>Every request is answered once, or the connection quits\<close>

text \<open>A well-formed response frame for a stream.\<close>

definition is_resp :: "u32 \<Rightarrow> message_header \<times> bytes \<Rightarrow> bool" where
  "is_resp sid m \<longleftrightarrow> stream_id (fst m) = sid \<and> mh_type (fst m) = MESSAGE_TYPE_RESPONSE \<and> flags (fst m) = 0
     \<and> unat (mh_length (fst m)) = length (snd m) \<and> length (snd m) \<le> MESSAGE_LENGTH_MAX"

text \<open>Success queues one response for the stream; failure queues nothing.\<close>

definition one_answer :: "u32 \<Rightarrow> 't resp_state \<Rightarrow> (error + unit) \<times> 't resp_state \<Rightarrow> bool" where
  "one_answer sid st x \<longleftrightarrow>
     (if is_ok (fst x) then \<exists>m. snd (snd x) = snd st @ [m] \<and> is_resp sid m else snd (snd x) = snd st)"

text \<open>What the server relies on of a method handler.\<close>

locale method_contract =
  fixes h :: "('d, 't) sync_handler"
  assumes answers: "one_answer (stream_id (sx_mh ctx0)) st (h ctx0 req tx_open st)"

lemma outbound_buf_len:
  "outbound_buf cx t data aad b = (Ok p, t') \<Longrightarrow> length p \<le> MESSAGE_LENGTH_MAX"
  by (auto simp: outbound_buf_def rbind_Ok_iff Let_def split: option.splits if_splits prod.splits sum.splits)

lemma send_response_sync_answers:
  assumes "stream_id mh = sid" and "mh_type mh = MESSAGE_TYPE_RESPONSE" and "flags mh = 0"
  shows "one_answer sid (t, q) (send_response_sync cx buf aad tx_open mh t q)"
proof (cases "outbound_buf cx t buf aad True")
  case (Pair r t')
  then show ?thesis
    using outbound_buf_len [of cx t buf aad True _ t'] assms
    by (cases r) (auto simp: send_response_sync_def one_answer_def is_resp_def MESSAGE_LENGTH_MAX_def
        unat_of_nat take_bit_eq_mod)
qed

lemma send_response_answers: "one_answer sid st (send_response rc cx tx_open sid res st)"
  by (cases st) (auto simp: send_response_def send_response_sync_answers one_answer_def [of _ _ "(Inl _, _)"] Let_def
      split: sum.split)

interpretation gen_method: method_contract "request_handler d rc qc pc f"
  by unfold_locales
    (auto simp: request_handler_def sx_respond_def send_response_answers one_answer_def [of _ _ "(Inl _, _)"] Let_def
      split: sum.split)

lemma worker_send_answers:
  assumes "one_answer sid st x" and "worker_send x = (next, st')"
  shows "(next = Continue \<longrightarrow> (\<exists>m. snd st' = snd st @ [m] \<and> is_resp sid m)) \<and> (next = QuitConnection \<longrightarrow> snd st' = snd st)"
  using assms by (auto simp: one_answer_def worker_send_def split: prod.splits if_splits)

text \<open>
  C14: A blocking server answers every request exactly once or gives the connection up. For any
  table of handlers that keep the contract (the generated ones do), a handler thread's turn on a
  request, or on a frame the reader could not accept, either queues exactly one well-formed response
  for that stream and goes on, or quits the connection having queued nothing: never two answers,
  never an answer for another stream, never a request silently dropped on a connection that goes on.
  Frames that are not requests are ignored.
\<close>

theorem sync_worker_answers:
  assumes "\<forall>path h. meths path = Some h \<longrightarrow> method_contract h"
    and "worker_turn d qc rc cx meths fd0 tx_open (Some (mh, y)) st = (next, st')"
  shows "if is_ok y \<and> mh_type mh \<noteq> MESSAGE_TYPE_REQUEST then next = Continue \<and> st' = st
    else (next = Continue \<longrightarrow> (\<exists>m. snd st' = snd st @ [m] \<and> is_resp (stream_id mh) m))
      \<and> (next = QuitConnection \<longrightarrow> snd st' = snd st)"
proof (cases y)
  case (Inl e)
  with assms(2) show ?thesis
    using worker_send_answers [OF send_response_answers]
    by (simp add: worker_turn_def response_error_to_channel_def)
next
  case (Inr buf)
  show ?thesis
  proof (cases "mh_type mh = MESSAGE_TYPE_REQUEST")
    case True
    have h: "one_answer (stream_id mh) st (h \<lparr>sx_fd = fd0, sx_mh = mh, sx_metadata = md, sx_timeout_nano = tn,
        sx_conn_ctx = cx\<rparr> req tx_open st)" if "meths path = Some h" for path h md tn req
      using method_contract.answers [of h "\<lparr>sx_fd = fd0, sx_mh = mh, sx_metadata = md, sx_timeout_nano = tn,
        sx_conn_ctx = cx\<rparr>"] assms(1) that by simp
    have "\<exists>x. worker_turn d qc rc cx meths fd0 tx_open (Some (mh, y)) st = worker_send x \<and> one_answer (stream_id mh) st x"
      using Inr True h send_response_answers
      by (simp add: worker_turn_def Let_def del: split_paired_Ex split: sum.split option.split) blast
    then obtain x where "worker_send x = (next, st')" "one_answer (stream_id mh) st x"
      using assms(2) by auto
    from worker_send_answers [OF this(2,1)] Inr True show ?thesis by simp
  qed (use assms(2) Inr in \<open>simp add: worker_turn_def\<close>)
qed

subsection \<open>Responses stay in step\<close>

text \<open>The calls of \<open>send_response\<close> on one connection, in the order of the outbound lock; those that succeed.\<close>

fun send_responses ::
  "response codec \<Rightarrow> ('d, 't) conn_ctx \<Rightarrow> (u32 \<times> response) list \<Rightarrow> 't resp_state
    \<Rightarrow> (u32 \<times> response) list \<times> 't resp_state" where
  "send_responses rc cx [] st = ([], st)"
| "send_responses rc cx ((sid, res) # rs) st =
     (case send_response rc cx True sid res st of
        (r, st1) \<Rightarrow> (case send_responses rc cx rs st1 of
           (sent, st2) \<Rightarrow> ((if is_ok r then (sid, res) # sent else sent), st2)))"

text \<open>What the client's receiver makes of the frames, in wire order.\<close>

fun decode_responses ::
  "response codec \<Rightarrow> ('d, 't) conn_ctx \<Rightarrow> resp_queue \<Rightarrow> 't \<Rightarrow> (u32 \<times> response option) list \<times> 't" where
  "decode_responses rc cx [] r = ([], r)"
| "decode_responses rc cx ((mh, p) # q) r =
     (case inbound_buf cx r p (serialize_aad mh) False of
        (y, r1) \<Rightarrow> (case decode_responses rc cx q r1 of
           (ds, r2) \<Rightarrow> ((stream_id mh, case y of
              Inr buf \<Rightarrow> (case c_decode rc buf of Inr x \<Rightarrow> Some x | Inl _ \<Rightarrow> None)
            | Inl _ \<Rightarrow> None) # ds, r2)))"

definition effective :: "response codec \<Rightarrow> ('d, 't) conn_ctx \<Rightarrow> response \<Rightarrow> response" where
  "effective rc cx res =
     (case c_encode rc res of
        Inr buf \<Rightarrow> if length buf > max_raw_payload_len cx
                   then oversize_response (length buf) (max_raw_payload_len cx) else res
      | Inl _ \<Rightarrow> res)"

lemma send_response_cases:
  assumes "send_response rc cx True sid res (t, q) = (r, t', q')"
  obtains (unencoded) "\<not> is_ok r" "t' = t" "q' = q"
    | (refused) buf e where "outbound_buf cx t buf (serialize_aad (header_new_response sid 0)) True = (Err e, t')"
        "\<not> is_ok r" "q' = q"
    | (queued) buf p mh where "c_encode rc (effective rc cx res) = Ok buf" "is_ok r"
        "outbound_buf cx t buf (serialize_aad (header_new_response sid 0)) True = (Ok p, t')"
        "q' = q @ [(mh, p)]" "stream_id mh = sid" "serialize_aad mh = serialize_aad (header_new_response sid 0)"
        "mh_length mh = of_nat (length p)"
proof (cases "c_encode rc (effective rc cx res)")
  case (Inl e)
  then have "\<not> is_ok r \<and> t' = t \<and> q' = q"
    using assms by (auto simp: send_response_def effective_def Let_def split: sum.splits if_splits)
  with unencoded show ?thesis by blast
next
  case (Inr buf)
  let ?mh = "\<lparr>mh_length = 0, stream_id = sid, mh_type = MESSAGE_TYPE_RESPONSE, flags = 0\<rparr> :: message_header"
  let ?aad = "serialize_aad (header_new_response sid 0)"
  show ?thesis
  proof (cases "c_encode rc res")
    case (Inl e)
    with assms unencoded show ?thesis by (auto simp: send_response_def)
  next
    case (Inr _)
    with \<open>c_encode rc (effective rc cx res) = Ok buf\<close> assms
    have s: "send_response_sync cx buf ?aad True ?mh t q = (r, t', q')"
      by (auto simp: send_response_def effective_def split: if_splits)
    show ?thesis
    proof (cases "outbound_buf cx t buf ?aad True")
      case (Pair y t1)
      show ?thesis
      proof (cases y)
        case (Inl e)
        with Pair s refused show ?thesis by (auto simp: send_response_sync_def)
      next
        case (Inr p)
        with Pair s have "r = Ok ()" "t' = t1" "q' = q @ [(?mh\<lparr>mh_length := of_nat (length p)\<rparr>, p)]"
          by (auto simp: send_response_sync_def)
        with Pair Inr \<open>c_encode rc (effective rc cx res) = Ok buf\<close> show ?thesis
          by (intro queued [of buf p "?mh\<lparr>mh_length := of_nat (length p)\<rparr>"])
            (simp_all add: serialize_aad_def wire_simps)
      qed
    qed
  qed
qed

context synced_transform
begin

lemma outbound_buf_step:
  assumes o: "outbound_buf cx t data aad b = (Ok p, t')" and sync: "insync t r"
    and cx: "payload_transform cx = Some xf" and cx': "payload_transform cx' = Some xf"
  shows "\<exists>r'. inbound_buf cx' r p aad b' = (Ok data, r') \<and> insync t' r'"
proof -
  have len: "length data \<le> MESSAGE_LENGTH_MAX" and out: "xf_out xf t data aad = (Ok p, t')"
    using o cx by (auto simp: outbound_buf_def max_raw_payload_len_def rbind_Ok_iff Let_def
        split: if_splits prod.splits sum.splits)
  obtain r' where "xf_in xf r p aad = (Ok data, r')" "insync t' r'"
    using out_in [OF out sync len] by blast
  with cx' len show ?thesis by (simp add: inbound_buf_def)
qed

lemma outbound_buf_failed:
  assumes o: "outbound_buf cx t data aad b = (Err e, t')" and sync: "insync t r"
    and cx: "payload_transform cx = Some xf"
  shows "insync t' r"
proof (cases "length data > max_raw_payload_len cx")
  case True
  with o cx sync show ?thesis by (simp add: outbound_buf_def Let_def)
next
  case False
  obtain y t1 where y: "xf_out xf t data aad = (y, t1)" by (metis surj_pair)
  have "length p \<le> MESSAGE_LENGTH_MAX" if "y = Ok p" for p
    using out_overhead [of t data aad p t1] y that False cx overhead_fits by (simp add: max_raw_payload_len_def)
  with y False o cx sync out_failed show ?thesis
    by (cases y) (auto simp: outbound_buf_def Let_def)
qed

lemma send_responses_synced:
  "\<lbrakk>send_responses rc cx rs (t, q) = (sent, t', q'); insync t r; codec_laws rc dr;
     payload_transform cx = Some xf; payload_transform cx' = Some xf\<rbrakk>
   \<Longrightarrow> \<exists>new r'. q' = q @ new \<and> insync t' r'
     \<and> decode_responses rc cx' new r = (map (\<lambda>(sid, res). (sid, Some (effective rc cx res))) sent, r')"
proof (induction rs arbitrary: t q r sent t' q')
  case Nil
  then show ?case by auto
next
  case (Cons x rs)
  obtain sid res where x: "x = (sid, res)" by force
  obtain y t1 q1 where one: "send_response rc cx True sid res (t, q) = (y, t1, q1)" by (metis surj_pair)
  obtain sent1 where rest: "send_responses rc cx rs (t1, q1) = (sent1, t', q')"
      "sent = (if is_ok y then (sid, res) # sent1 else sent1)"
    using Cons.prems(1) by (auto simp: x one split: prod.splits)
  note IH = Cons.IH [OF rest(1) _ Cons.prems(3-5)]
  from one show ?case
  proof (cases rule: send_response_cases)
    case unencoded
    then show ?thesis using IH [of r] Cons.prems(2) rest(2) by simp
  next
    case (refused buf e)
    then show ?thesis using IH [of r] outbound_buf_failed [OF refused(1) Cons.prems(2,4)] rest(2) by simp
  next
    case (queued buf p mh)
    obtain r1 where r1: "inbound_buf cx' r p (serialize_aad mh) False = (Ok buf, r1)" "insync t1 r1"
      using outbound_buf_step [OF queued(3) Cons.prems(2,4,5)] queued(6) by auto
    have "c_decode rc buf = Ok (effective rc cx res)"
      by (rule codec_laws.decode_encode [OF Cons.prems(3) queued(1)])
    with IH [OF r1(2)] r1(1) queued rest(2) show ?thesis by auto
  qed
qed

end

context send_laws
begin

lemma response_thread_wire:
  "\<exists>s'. response_thread d (pipe_write send) q prefix s = Some (False, s')
     \<and> out s' = out s @ concat (map (\<lambda>(mh, p). frame_bytes \<lparr>header = mh, payload = p\<rparr>) q)"
proof (induction q arbitrary: prefix s)
  case Nil
  then show ?case by simp
next
  case (Cons x q)
  obtain mh p where x: "x = (mh, p)" by force
  obtain s1 prefix1 where w: "sync_write_message d (pipe_write send) mh p prefix s = (Some (Ok (), s1), prefix1)"
      "out s1 = out s @ frame_bytes \<lparr>header = mh, payload = p\<rparr>"
    using pipe_write_message_ok [of d mh p prefix s] by (auto simp: frame_bytes_def)
  from Cons.IH [of prefix1 s1] w show ?case by (auto simp: x)
qed

end

text \<open>
  C15: Responses of concurrent handlers reach the client intact. With a contract-keeping transform
  in step, whatever responses the handler threads send in whatever order, and whichever sends fail:
  the response thread writes exactly the queued frames, in queue order, to the socket; and the
  client's inbound pipeline over those frames decodes every one, to exactly the responses whose sends succeeded
  (an oversize response being replaced by its error response), each under its own stream id, leaving
  both ends in step.
\<close>

theorem sync_responses_delivered:
  assumes "synced_transform xf insync" and "codec_laws rc dr" and "send_laws send out patience"
    and "payload_transform cx = Some xf" and "payload_transform cx' = Some xf" and "insync t r"
    and "send_responses rc cx rs (t, []) = (sent, t', q)"
  shows "\<exists>s' r'. response_thread d (pipe_write send) q prefix s = Some (False, s')
    \<and> out s' = out s @ concat (map (\<lambda>(mh, p). frame_bytes \<lparr>header = mh, payload = p\<rparr>) q)
    \<and> decode_responses rc cx' q r = (map (\<lambda>(sid, res). (sid, Some (effective rc cx res))) sent, r')
    \<and> insync t' r'"
  using synced_transform.send_responses_synced [OF assms(1,7,6,2,4,5)]
    send_laws.response_thread_wire [OF assms(3), of d q prefix s]
  by auto

lemma encode_response_default: "c_encode response_codec response_default = Ok []"
  by (simp add: response_codec_def pb_codec_def response_fields_def response_default_def len_field_def
      int_field_def write_fields_def)

lemma seq_send_response:
  "c_encode rc res = Ok [] \<Longrightarrow> is_ok (fst (send_response rc seq_ctx True sid res (t, q)))"
  by (simp add: send_response_def send_response_sync_def outbound_buf_def seq_ctx_def max_raw_payload_len_def
      seq_xform_def DEFAULT_MAX_OVERHEAD_def seq_outbound_def serialize_aad_def wire_simps Let_def)

theorem sync_responses_delivered_witness:
  "\<exists>t' q s' r'. send_responses response_codec seq_ctx [(1, response_default), (5, response_default)] (seq_start, [])
       = ([(1, response_default), (5, response_default)], t', q)
     \<and> response_thread plain_display (pipe_write sock_send) q [] sample_sock = Some (False, s')
     \<and> decode_responses response_codec seq_ctx q seq_start
       = ([(1, Some response_default), (5, Some response_default)], r')"
proof -
  have ok: "is_ok (fst (send_response response_codec seq_ctx True sid response_default st))" for sid st
    using seq_send_response [OF encode_response_default, of sid "fst st" "snd st"] by simp
  have "fst (send_responses response_codec seq_ctx [(1, response_default), (5, response_default)] (seq_start, []))
      = [(1, response_default), (5, response_default)]"
    by (simp add: case_prod_beta ok)
  then obtain t' q where sent: "send_responses response_codec seq_ctx [(1, response_default), (5, response_default)]
       (seq_start, []) = ([(1, response_default), (5, response_default)], t', q)"
    by (metis prod.collapse)
  have ctx: "payload_transform seq_ctx = Some seq_xform" by (simp add: seq_ctx_def)
  have sync: "seq_insync seq_start seq_start" by (simp add: seq_insync_def seq_start_def)
  have eff: "effective response_codec seq_ctx response_default = response_default"
    by (simp add: effective_def encode_response_default)
  from sync_responses_delivered [OF seq_sync.synced_transform_axioms resp_codec.codec_laws_axioms
      sock_out.send_laws_axioms ctx ctx sync sent, of plain_display "[]" sample_sock]
  obtain s' r' where "response_thread plain_display (pipe_write sock_send) q [] sample_sock = Some (False, s')"
    "decode_responses response_codec seq_ctx q seq_start
       = ([(1, Some response_default), (5, Some response_default)], r')"
    by (auto simp: eff)
  with sent show ?thesis by blast
qed

definition echo_methods :: "(unit, seq_state) sync_methods" where
  "echo_methods = [''//'' \<mapsto> request_handler plain_display response_codec response_codec response_codec
     (\<lambda>ctx0 q. Err (RpcStatus (get_status NOT_FOUND ''x'')))]"

theorem sync_worker_answers_witness:
  "\<exists>m st'. worker_turn plain_display request_codec response_codec seq_ctx echo_methods 4 True
       (Some (header_new_request 7 0, Ok [])) (seq_start, []) = (Continue, st') \<and> snd st' = [m] \<and> is_resp 7 m"
proof -
  have c: "\<forall>path h. echo_methods path = Some h \<longrightarrow> method_contract h"
    by (simp add: echo_methods_def gen_method.method_contract_axioms)
  have dec: "c_decode request_codec [] = Ok request_default" "c_decode response_codec [] = Ok response_default"
    by (simp_all add: request_codec_def response_codec_def pb_codec_def merge_with_def parse_fields_def)
  obtain nx st' where w: "worker_turn plain_display request_codec response_codec seq_ctx echo_methods 4 True
       (Some (header_new_request 7 0, Ok [])) (seq_start, []) = (nx, st')"
    by (metis surj_pair)
  have "write_fields (response_fields (init_status (get_status NOT_FOUND ''x''))) = [10, 5, 8, 5, 18, 1, 120]"
    by code_simp
  then obtain buf where buf: "c_encode response_codec (init_status (get_status NOT_FOUND ''x'')) = Ok buf" "length buf = 7"
    by (simp add: response_codec_def pb_codec_def)
  have "nx = Continue"
    using w buf dec
    by (auto simp: worker_turn_def echo_methods_def get_path_def request_default_def response_default_def worker_send_def
        request_handler_def sx_respond_def status_response_def send_response_def send_response_sync_def
        outbound_buf_def seq_ctx_def max_raw_payload_len_def seq_xform_def DEFAULT_MAX_OVERHEAD_def
        seq_outbound_def serialize_aad_def wire_simps Let_def)
  moreover have "mh_type (header_new_request 7 0) = MESSAGE_TYPE_REQUEST" "stream_id (header_new_request 7 0) = 7"
    by (simp_all add: wire_simps)
  ultimately show ?thesis using sync_worker_answers [OF c w] w by auto
qed

end
