(* ===== verification/SyncRpc.thy ===== *)
theory SyncRpc
  imports Rpc SyncClient SyncServer
begin

text \<open>
  A call of the blocking API from end to end: the generated client stub (\<open>client_request!\<close>), the sender thread of
  the client, the bytes on the socket, the reader and a handler thread of the server with the generated handler
  (\<open>request_handler!\<close>), the response thread, and the receiver thread of the client (\<open>sync/client.rs\<close>, \<open>sync/server.rs\<close>,
  \<open>sync/channel.rs\<close>, \<open>sync/utils.rs\<close> and the transport composed).
\<close>

subsection \<open>One turn of every thread\<close>

text \<open>
  The exchange of one request. The sockets are given by their calls; \<open>deliver\<close> is a socket at the other end that holds
  the given bytes, and \<open>out\<close> tells what has been written. \<open>None\<close>: some thread never returns.
\<close>

definition sync_exchange ::
  "display \<Rightarrow> request codec \<Rightarrow> response codec \<Rightarrow> ('d, 't) conn_ctx \<Rightarrow> ('e, 't) conn_ctx \<Rightarrow> ('e, 't) sync_methods \<Rightarrow> fd
    \<Rightarrow> (message_header \<Rightarrow> error + bytes \<Rightarrow> string) \<Rightarrow> ((u32 \<rightharpoonup> nat) \<Rightarrow> (u32 \<times> nat) list)
    \<Rightarrow> 's send \<Rightarrow> 's recv \<Rightarrow> ('s \<Rightarrow> bytes) \<Rightarrow> (bytes \<Rightarrow> 's)
    \<Rightarrow> bytes \<Rightarrow> nat \<Rightarrow> 't sync_client \<times> 's \<times> bytes \<Rightarrow> 't \<times> 's \<times> bytes \<Rightarrow> ('t sync_client \<times> 't) option" where
  "sync_exchange d qc rc cx cx' meths fd0 dbg order send recv out deliver buf ch client server =
     (case (client, server) of ((c, w, prefix), (t, w', prefix')) \<Rightarrow>
      (case sender_turn d cx (pipe_write send) buf ch c w prefix of
         None \<Rightarrow> None
       | Some (c1, w1, _) \<Rightarrow>
      (case read_message d (pipe_read recv) (deliver (drop (length (out w)) (out w1))) of
         None \<Rightarrow> None
       | Some (x, _) \<Rightarrow>
      (case reader_thread cx' True [x] t of (works, t1, _) \<Rightarrow>
      (case fold (\<lambda>k st. snd (worker_turn d qc rc cx' meths fd0 True (Some k) st)) works (t1, []) of (t2, q) \<Rightarrow>
      (case response_thread d (pipe_write send) q prefix' w' of
         None \<Rightarrow> None
       | Some (_, w2) \<Rightarrow>
      (case read_message d (pipe_read recv) (deliver (drop (length (out w')) (out w2))) of
         None \<Rightarrow> None
       | Some (y, _) \<Rightarrow> Some (fst (receiver_turn cx dbg order (ReadReturned y) c1), t2))))))))"

text \<open>A transform that encodes whatever fits.\<close>

definition never_refuses :: "('d, 't) conn_ctx \<Rightarrow> bool" where
  "never_refuses cx \<longleftrightarrow> (\<forall>xf t p aad. payload_transform cx = Some xf \<and> length aad = 6 \<longrightarrow> is_ok (fst (xf_out xf t p aad)))"

text \<open>The response of a generated handler, or of the server for an unknown path.\<close>

definition sync_reply ::
  "display \<Rightarrow> 'p codec \<Rightarrow> (('d, 't) sync_context \<Rightarrow> 'q \<Rightarrow> error + 'p) option \<Rightarrow> string \<Rightarrow> ('d, 't) sync_context \<Rightarrow> 'q
    \<Rightarrow> error + response" where
  "sync_reply d pc fopt path ctx0 q =
     (case fopt of
        None \<Rightarrow> Ok (init_status (get_status INVALID_ARGUMENT (path @ '' does not exist'')))
      | Some f \<Rightarrow> (case f ctx0 q of Inr rep \<Rightarrow> ok_response pc rep | Inl x \<Rightarrow> Ok (status_response d x)))"

text \<open>What the caller should get.\<close>

definition sync_view ::
  "display \<Rightarrow> (('d, 't) sync_context \<Rightarrow> 'q \<Rightarrow> error + 'p) option \<Rightarrow> string \<Rightarrow> ('d, 't) sync_context \<Rightarrow> 'q \<Rightarrow> error + 'p" where
  "sync_view d fopt path ctx0 q =
     (case fopt of
        None \<Rightarrow> Err (RpcStatus (get_status INVALID_ARGUMENT (path @ '' does not exist'')))
      | Some f \<Rightarrow> typed_view d (f ctx0 q))"

subsection \<open>Buffers through a linked connection\<close>

lemma aad_length [simp]: "length (serialize_aad mh) = 6"
  by (simp add: serialize_aad_def be_write_u32_def)

lemma linked_buf_total:
  assumes "linked cx cx' insync" and "never_refuses cx" and "length data \<le> max_raw_payload_len cx" and "length aad = 6"
  obtains p t' where "outbound_buf cx t data aad b = (Ok p, t')"
  using assms(1)
proof (cases rule: linkedE)
  case plain
  with assms(3) that show ?thesis by (simp add: outbound_buf_def max_raw_payload_len_def)
next
  case (coded xf)
  with assms(2,4) obtain p t' where p: "xf_out xf t data aad = (Ok p, t')"
    unfolding never_refuses_def by (cases "xf_out xf t data aad"; cases "fst (xf_out xf t data aad)") (auto, metis fst_conv is_ok.simps)
  have "length p \<le> MESSAGE_LENGTH_MAX"
    using synced_transform.out_overhead [OF coded(3) p] synced_transform.overhead_fits [OF coded(3)] assms(3) coded(1)
    by (simp add: max_raw_payload_len_def)
  with p coded(1) assms(3) that show ?thesis by (simp add: outbound_buf_def Let_def)
qed

lemma linked_buf_step:
  assumes "linked cx cx' insync" and o: "outbound_buf cx t data aad b = (Ok p, t')" and "insync t r" and "insync r t"
  shows "\<exists>r'. inbound_buf cx' r p aad b' = (Ok data, r') \<and> insync t' r' \<and> insync r' t'"
  using assms(1)
proof (cases rule: linkedE)
  case plain
  with o assms(3,4) show ?thesis by (auto simp: outbound_buf_def inbound_buf_def rbind_Ok_iff)
next
  case (coded xf)
  obtain r' where r': "inbound_buf cx' r p aad b' = (Ok data, r')" "insync t' r'"
    using synced_transform.outbound_buf_step [OF coded(3) o assms(3) coded(1,2)] by blast
  have xo: "\<exists>y. xf_out xf t data aad = (y, t')" and xi: "\<exists>y. xf_in xf r p aad = (y, r')"
    using o r'(1) coded(1,2) by (auto simp: outbound_buf_def inbound_buf_def Let_def split: if_splits prod.splits sum.splits)
  have "insync r t'" using xo duplex_transform.out_rev [OF coded(4) _ assms(4)] by blast
  then have "insync r' t'" using xi duplex_transform.in_rev [OF coded(4)] by blast
  with r' show ?thesis by blast
qed

subsection \<open>The two legs\<close>

text \<open>A frame that one end writes is what the other end reads.\<close>

lemma frame_crosses:
  assumes "send_laws send out pw" and "recv_laws recv rest pr" and "\<And>bs. rest (deliver bs) = bs" and "frame_ok m"
  obtains w1 prefix1 s1 where "sync_write_message d (pipe_write send) (header m) (payload m) prefix w = (Some (Ok (), w1), prefix1)"
    "read_message d (pipe_read recv) (deliver (drop (length (out w)) (out w1))) = Some (Ok (header m, Ok (payload m)), s1)"
proof -
  obtain w1 prefix1 where w1: "sync_write_message d (pipe_write send) (header m) (payload m) prefix w = (Some (Ok (), w1), prefix1)"
      "out w1 = out w @ frame_bytes m"
    using send_laws.pipe_write_message_ok [OF assms(1)] unfolding frame_bytes_def by blast
  then have "rest (deliver (drop (length (out w)) (out w1))) = frame_bytes m @ []" using assms(3) by simp
  from recv_laws.pipe_read_message_frame [OF assms(2,4) this] w1(1) that show ?thesis by blast
qed

lemma buf_frame_ok:
  assumes "outbound_buf cx t data aad b = (Ok p, t')"
  shows "frame_ok \<lparr>header = mh\<lparr>mh_length := of_nat (length p)\<rparr>, payload = p\<rparr>"
  using outbound_buf_len [OF assms] by (simp add: frame_ok_def)

text \<open>The request on its way: from the sender thread of the client to the work channel of the server.\<close>

definition request_mh :: "u32 \<Rightarrow> bytes \<Rightarrow> message_header" where
  "request_mh sid buf = (header_new_request 0 (of_nat (length buf)))\<lparr>stream_id := sid\<rparr>"

lemma request_leg:
  assumes net: "send_laws send out pw" "recv_laws recv rest pr" "\<And>bs. rest (deliver bs) = bs"
    and link: "linked cx cx' insync" "never_refuses cx" "insync (sc_xst c) t" "insync t (sc_xst c)"
    and len: "length buf \<le> max_raw_payload_len cx"
  obtains w1 prefix1 x s1 t0 t1
  where "sender_turn d cx (pipe_write send) buf ch c w prefix =
      Some (c\<lparr>sc_next_id := sc_next_id c + 2, sc_map := (sc_map c)(sc_next_id c \<mapsto> ch), sc_xst := t0\<rparr>, w1, prefix1)"
    and "read_message d (pipe_read recv) (deliver (drop (length (out w)) (out w1))) = Some (x, s1)"
    and "reader_thread cx' True [x] t = ([(request_mh (sc_next_id c) buf, Ok buf)], t1, False)"
    and "insync t0 t1" "insync t1 t0"
proof -
  let ?mh = "request_mh (sc_next_id c) buf"
  have short: "length buf \<le> MESSAGE_LENGTH_MAX" using len max_raw_le [of cx] by linarith
  obtain p t0 where o: "outbound_buf cx (sc_xst c) buf (serialize_aad ?mh) False = (Ok p, t0)"
    using linked_buf_total [OF link(1,2) len aad_length] by blast
  let ?m = "\<lparr>header = ?mh\<lparr>mh_length := of_nat (length p)\<rparr>, payload = p\<rparr>"
  obtain w1 prefix1 s1 where x: "sync_write_message d (pipe_write send) (header ?m) (payload ?m) prefix w = (Some (Ok (), w1), prefix1)"
      "read_message d (pipe_read recv) (deliver (drop (length (out w)) (out w1))) = Some (Ok (header ?m, Ok (payload ?m)), s1)"
    using frame_crosses [OF net buf_frame_ok [OF o]] by blast
  obtain t1 where t1: "inbound_buf cx' t p (serialize_aad ?mh) True = (Ok buf, t1)" "insync t0 t1" "insync t1 t0"
    using linked_buf_step [OF link(1) o link(3,4)] by blast
  have aad: "serialize_aad (?mh\<lparr>mh_length := n\<rparr>) = serialize_aad ?mh" for n by (simp add: serialize_aad_def)
  have mh: "?mh\<lparr>mh_length := of_nat (length buf)\<rparr> = ?mh" by (simp add: request_mh_def wire_simps)
  show thesis
  proof (rule that [OF _ x(2)])
    show "sender_turn d cx (pipe_write send) buf ch c w prefix =
        Some (c\<lparr>sc_next_id := sc_next_id c + 2, sc_map := (sc_map c)(sc_next_id c \<mapsto> ch), sc_xst := t0\<rparr>, w1, prefix1)"
      using o x(1) by (simp add: sender_turn_def sender_register_def sender_write_def request_mh_def [symmetric] Let_def)
    show "reader_thread cx' True [Ok (header ?m, Ok (payload ?m))] t = ([(?mh, Ok buf)], t1, False)"
      using t1(1) by (simp add: aad mh)
  qed (fact t1)+
qed

text \<open>A response on its way back, to the request that waits for it.\<close>

lemma response_leg:
  assumes net: "send_laws send out pw" "recv_laws recv rest pr" "\<And>bs. rest (deliver bs) = bs"
    and link: "linked cx' cx insync" "never_refuses cx'" "insync t (sc_xst c)" "insync (sc_xst c) t"
    and resp: "c_encode rc resp = Ok buf" "length buf \<le> max_raw_payload_len cx'"
    and wait: "sc_map c sid = Some ch" "sc_waits c ch"
  obtains t2 q w2 y s2 c2
  where "send_response rc cx' True sid resp (t, []) = (Ok (), t2, q)"
    and "response_thread d (pipe_write send) q prefix w = Some (False, w2)"
    and "read_message d (pipe_read recv) (deliver (drop (length (out w)) (out w2))) = Some (y, s2)"
    and "receiver_turn cx dbg order (ReadReturned y) c = (c2, True)"
    and "sc_got c2 ch = Some (Ok buf)" "sc_map c2 = (sc_map c)(sid := None)" "insync t2 (sc_xst c2)" "insync (sc_xst c2) t2"
proof -
  let ?mh = "\<lparr>mh_length = 0, stream_id = sid, mh_type = MESSAGE_TYPE_RESPONSE, flags = 0\<rparr> :: message_header"
  have aad: "serialize_aad (?mh\<lparr>mh_length := n\<rparr>) = serialize_aad (header_new_response sid 0)" for n
    by (simp add: serialize_aad_def wire_simps)
  obtain p t2 where o: "outbound_buf cx' t buf (serialize_aad (header_new_response sid 0)) True = (Ok p, t2)"
    using linked_buf_total [OF link(1,2) resp(2) aad_length] by blast
  let ?m = "\<lparr>header = ?mh\<lparr>mh_length := of_nat (length p)\<rparr>, payload = p\<rparr>"
  have sent: "send_response rc cx' True sid resp (t, []) = (Ok (), t2, [(header ?m, payload ?m)])"
    using resp o by (simp add: send_response_def send_response_sync_def)
  obtain w2 prefix2 s2 where x: "sync_write_message d (pipe_write send) (header ?m) (payload ?m) prefix w = (Some (Ok (), w2), prefix2)"
      "read_message d (pipe_read recv) (deliver (drop (length (out w)) (out w2))) = Some (Ok (header ?m, Ok (payload ?m)), s2)"
    using frame_crosses [OF net buf_frame_ok [OF o]] by blast
  obtain t3 where t3: "inbound_buf cx (sc_xst c) p (serialize_aad (header_new_response sid 0)) False = (Ok buf, t3)" "insync t2 t3" "insync t3 t2"
    using linked_buf_step [OF link(1) o link(3,4)] by blast
  let ?c2 = "sc_forget sid (hand_over ch (Ok buf) (c\<lparr>sc_xst := t3\<rparr>))"
  show thesis
  proof (rule that [OF sent _ x(2)])
    show "response_thread d (pipe_write send) [(header ?m, payload ?m)] prefix w = Some (False, w2)"
      using x(1) by simp
    show "receiver_turn cx dbg order (ReadReturned (Ok (header ?m, Ok (payload ?m)))) c = (?c2, True)"
      using t3(1) wait(1) aad [of "of_nat (length p)"] by (simp add: trans_resp_def)
  qed (use wait t3(2,3) in simp_all)
qed

subsection \<open>A call from end to end\<close>

text \<open>The handler thread sends the reply of the generated handler, or of the server itself.\<close>

lemma worker_replies:
  assumes "codec_laws qc dq" and "c_encode qc req = Ok buf" and "mh_type mh = MESSAGE_TYPE_REQUEST"
    and "codec_laws a da" and "c_encode a q = Ok (req_payload req)"
    and "path = get_path (req_service req) (req_method req)" and "meths path = map_option (request_handler d rc a b) fopt"
    and "ctx0 = \<lparr>sx_fd = fd0, sx_mh = mh, sx_metadata = from_pb (metadata req), sx_timeout_nano = timeout_nano req, sx_conn_ctx = cx\<rparr>"
    and "sync_reply d b fopt path ctx0 q = Ok resp"
    and "send_response rc cx True (stream_id mh) resp st = (Ok (), st')"
  shows "worker_turn d qc rc cx meths fd0 True (Some (mh, Ok buf)) st = (Continue, st')"
proof -
  have dec: "c_decode qc buf = Ok req" by (rule codec_laws.decode_encode [OF assms(1,2)])
  have q: "c_decode a (req_payload req) = Ok q" by (rule codec_laws.decode_encode [OF assms(4,5)])
  show ?thesis
  proof (cases fopt)
    case None
    with assms(3,6,7,9,10) dec show ?thesis by (simp add: worker_turn_def worker_send_def sync_reply_def)
  next
    case (Some f)
    with assms(9) have "(case f ctx0 q of Inr rep \<Rightarrow> ok_response b rep | Inl x \<Rightarrow> Ok (status_response d x)) = Ok resp"
      by (simp add: sync_reply_def)
    with q assms(8,10) have "request_handler d rc a b f ctx0 req True st = (Ok (), st')"
      by (simp add: request_handler_def sx_respond_def)
    with Some assms(3,6,7,8) dec show ?thesis by (simp add: worker_turn_def worker_send_def Let_def)
  qed
qed

lemma sync_view_eq:
  assumes "codec_laws b db" and "sync_reply d b fopt path ctx0 q = Ok resp"
    and "\<forall>f s. fopt = Some f \<and> f ctx0 q = Err (RpcStatus s) \<longrightarrow> st_code s \<noteq> OK"
  shows "async_client_response b db (caller_view (Ok resp)) = sync_view d fopt path ctx0 q"
proof (cases fopt)
  case None
  with assms(2) show ?thesis
    by (auto simp: sync_reply_def sync_view_def caller_view_def non_ok_def init_status_def response_set_status_def
        async_client_response_def get_status_def)
next
  case (Some f)
  with assms(2) have "(case f ctx0 q of Inr rep \<Rightarrow> ok_response b rep | Inl x \<Rightarrow> Ok (status_response d x)) = Ok resp"
    by (simp add: sync_reply_def)
  from handler_reply_view [OF assms(1) this] assms(3) Some show ?thesis by (simp add: sync_view_def)
qed

text \<open>
  C2: A blocking call does what it is meant to do, end to end, on the bytes. Let the two ends of a connection be linked (no
  transform, or the same contract-keeping one that encodes whatever fits, in step), the sockets interrupt and cut
  calls as they like, and request and response fit the safe limits. Then one turn of each thread involved (the
  client's sender, the server's reader, a handler thread, the response thread, and the client's receiver) returns; the
  waiting request is given a result that the client stub turns into the result of the service function on the
  caller's message, as the typed view says, or into an \<open>INVALID_ARGUMENT\<close> status when no service has the path; the function
  sees the caller's metadata and timeout; the registration is gone and both directions are in step.
\<close>

theorem sync_unary_rpc:
  assumes net: "send_laws send out pw" "recv_laws recv rest pr" "\<forall>bs. rest (deliver bs) = bs"
    and link: "linked cx cx' insync" "never_refuses cx" "never_refuses cx'" "insync (sc_xst c) t" "insync t (sc_xst c)"
    and codecs: "codec_laws qc dq" "codec_laws rc dr" "codec_laws a da" "codec_laws b db"
    and req: "c_encode a q = Ok pl" "req = request_set_payload pl (init_request srv meth (ctx_timeout_nano ctx) (to_pb md))"
      "sync_encode_request qc req = Ok buf" "length buf \<le> max_raw_payload_len cx"
    and table: "path = get_path srv meth" "meths path = map_option (request_handler d rc a b) fopt"
    and hctx: "hctx = \<lparr>sx_fd = fd0, sx_mh = request_mh (sc_next_id c) buf, sx_metadata = from_pb (to_pb md),
      sx_timeout_nano = ctx_timeout_nano ctx, sx_conn_ctx = cx'\<rparr>"
    and resp: "sync_reply d b fopt path hctx q = Ok resp" "c_encode rc resp = Ok rbuf" "length rbuf \<le> max_raw_payload_len cx'"
    and status: "\<forall>f s. fopt = Some f \<and> f hctx q = Err (RpcStatus s) \<longrightarrow> st_code s \<noteq> OK"
    and wait: "sc_waits c ch" and intime: "ctx_timeout_nano ctx = 0 \<or> tm \<le> unat (ctx_timeout_nano ctx)"
  shows "\<exists>c2 t2 r. sync_exchange d qc rc cx cx' meths fd0 dbg order send recv out deliver buf ch (c, w, prefix) (t, w', prefix') = Some (c2, t2)
    \<and> sync_request rc req (At tm (sc_got c2 ch)) = Some r
    \<and> client_request a b ctx md srv meth q db (\<lambda>req'. if req' = req then r else Err LocalClosed) = sync_view d fopt path hctx q
    \<and> sc_map c2 = (sc_map c)(sc_next_id c := None) \<and> insync (sc_xst c2) t2 \<and> insync t2 (sc_xst c2)"
proof -
  let ?sid = "sc_next_id c"
  have fields: "req_service req = srv" "req_method req = meth" "req_payload req = pl" "timeout_nano req = ctx_timeout_nano ctx" "metadata req = to_pb md"
    by (simp_all add: req(2) request_set_payload_def init_request_def)
  have enc: "c_encode qc req = Ok buf" using req(3) by (auto simp: sync_encode_request_def rbind_Ok_iff)
  have deliver: "rest (deliver bs) = bs" for bs using net(3) by blast
  obtain w1 prefix1 x s1 t0 t1
    where sent: "sender_turn d cx (pipe_write send) buf ch c w prefix =
        Some (c\<lparr>sc_next_id := ?sid + 2, sc_map := (sc_map c)(?sid \<mapsto> ch), sc_xst := t0\<rparr>, w1, prefix1)"
      and read: "read_message d (pipe_read recv) (deliver (drop (length (out w)) (out w1))) = Some (x, s1)"
      and work: "reader_thread cx' True [x] t = ([(request_mh ?sid buf, Ok buf)], t1, False)"
      and sync: "insync t0 t1" "insync t1 t0"
    by (rule request_leg [OF net(1,2) deliver link(1,2,4,5) req(4)])
  let ?c1 = "c\<lparr>sc_next_id := ?sid + 2, sc_map := (sc_map c)(?sid \<mapsto> ch), sc_xst := t0\<rparr>"
  have c1: "sc_map ?c1 ?sid = Some ch" "sc_waits ?c1 ch" "insync t1 (sc_xst ?c1)" "insync (sc_xst ?c1) t1" using wait sync by simp_all
  obtain t2 rq w2 y s2 c2
    where reply: "send_response rc cx' True ?sid resp (t1, []) = (Ok (), t2, rq)" "response_thread d (pipe_write send) rq prefix' w' = Some (False, w2)"
      "read_message d (pipe_read recv) (deliver (drop (length (out w')) (out w2))) = Some (y, s2)"
      "receiver_turn cx dbg order (ReadReturned y) ?c1 = (c2, True)"
      and got: "sc_got c2 ch = Some (Ok rbuf)" "sc_map c2 = (sc_map ?c1)(?sid := None)" "insync t2 (sc_xst c2)" "insync (sc_xst c2) t2"
    by (rule response_leg [OF net(1,2) deliver linked_sym [OF link(1)] link(3) c1(3,4) resp(2,3) c1(1,2)])
  have mh: "mh_type (request_mh ?sid buf) = MESSAGE_TYPE_REQUEST" "stream_id (request_mh ?sid buf) = ?sid"
    by (simp_all add: request_mh_def wire_simps)
  have "worker_turn d qc rc cx' meths fd0 True (Some (request_mh ?sid buf, Ok buf)) (t1, []) = (Continue, t2, rq)"
    using worker_replies [OF codecs(1) enc mh(1) codecs(3), of q path meths d rc b fopt hctx fd0 cx' resp "(t1, [])" "(t2, rq)"]
      req(1) table hctx resp(1) reply(1) fields mh(2) by simp
  with sent read work reply(2-4) have run:
      "sync_exchange d qc rc cx cx' meths fd0 dbg order send recv out deliver buf ch (c, w, prefix) (t, w', prefix') = Some (c2, t2)"
    by (simp add: sync_exchange_def)
  have dec: "c_decode rc rbuf = Ok resp" by (rule codec_laws.decode_encode [OF codecs(2) resp(2)])
  have finished: "sync_request rc req (At tm (sc_got c2 ch)) = Some (caller_view (Ok resp))"
    using got(1) dec intime fields(4)
    by (auto simp: sync_request_def sync_request_result_def caller_view_def Let_def split: option.split)
  have "client_request a b ctx md srv meth q db (\<lambda>req'. if req' = req then caller_view (Ok resp) else Err LocalClosed)
      = async_client_response b db (caller_view (Ok resp))"
    by (simp add: client_request_def req(1) async_client_response_def req(2) [symmetric])
  with sync_view_eq [OF codecs(4) resp(1) status] run finished got(2-4) show ?thesis by fastforce
qed

text \<open>An echo service, called through the sequencing transform over sockets that interrupt and cut every call.\<close>

definition demo_deliver :: "bytes \<Rightarrow> sock" where
  "demo_deliver bs = \<lparr>inq = bs, outq = [], script = [Interrupted, AtMost 2, WouldBlock, AtMost 0]\<rparr>"

definition demo_methods :: "(unit, seq_state) sync_methods" where
  "demo_methods = [''/s/m'' \<mapsto> request_handler plain_display response_codec response_codec response_codec (\<lambda>ctx0 q. Ok q)]"

definition demo_request :: request where
  "demo_request = request_set_payload [] (init_request ''s'' ''m'' (ctx_timeout_nano (with_timeout 5)) (to_pb []))"

definition demo_client :: "seq_state sync_client" where
  "demo_client = (sync_client_new seq_start)\<lparr>sc_waits := (\<lambda>ch. ch = 0)\<rparr>"

lemma demo_request_encoded: "\<exists>buf. sync_encode_request request_codec demo_request = Ok buf \<and> length buf = 8"
proof -
  have "write_fields (request_fields demo_request) = [10, 1, 115, 18, 1, 109, 32, 5]" unfolding demo_request_def by code_simp
  then show ?thesis by (simp add: sync_encode_request_def request_codec_def pb_codec_def)
qed

lemma demo_response_encoded: "\<exists>buf. c_encode response_codec (response_set_payload [] (init_status (get_status OK []))) = Ok buf \<and> length buf \<le> 2"
proof -
  have "length (write_fields (response_fields (response_set_payload [] (init_status (get_status OK []))))) \<le> 2" by code_simp
  then show ?thesis by (simp add: response_codec_def pb_codec_def Let_def)
qed

lemma seq_never_refuses: "never_refuses seq_ctx"
  by (simp add: never_refuses_def seq_ctx_def seq_xform_def seq_outbound_def)

theorem sync_unary_rpc_witness:
  "\<exists>buf c2 t2 r. sync_encode_request request_codec demo_request = Ok buf
     \<and> sync_exchange plain_display request_codec response_codec seq_ctx seq_ctx demo_methods 4 (\<lambda>mh y. []) (\<lambda>m. []) sock_send sock_recv outq
         demo_deliver buf 0 (demo_client, demo_deliver [], []) (seq_start, demo_deliver [], []) = Some (c2, t2)
     \<and> sync_request response_codec demo_request (At 3 (sc_got c2 0)) = Some r
     \<and> client_request response_codec response_codec (with_timeout 5) [] ''s'' ''m'' response_default response_default
         (\<lambda>req'. if req' = demo_request then r else Err LocalClosed) = Ok response_default"
proof -
  obtain buf where buf: "sync_encode_request request_codec demo_request = Ok buf" "length buf = 8" using demo_request_encoded by blast
  obtain rbuf where rbuf: "c_encode response_codec (response_set_payload [] (init_status (get_status OK []))) = Ok rbuf" "length rbuf \<le> 2"
    using demo_response_encoded by blast
  have enc: "c_encode response_codec response_default = Ok []" by (rule encode_response_default)
  have link: "linked seq_ctx seq_ctx seq_insync"
    using seq_duplex.duplex_transform_axioms by (simp add: linked_def seq_ctx_def)
  have sync: "seq_insync (sc_xst demo_client) seq_start" "seq_insync seq_start (sc_xst demo_client)" "sc_waits demo_client 0"
    by (simp_all add: demo_client_def sync_client_new_def seq_insync_def seq_start_def)
  have fits: "length buf \<le> max_raw_payload_len seq_ctx" "length rbuf \<le> max_raw_payload_len seq_ctx"
    using buf(2) rbuf(2) by (simp_all add: seq_ctx_def max_raw_payload_len_def seq_xform_def DEFAULT_MAX_OVERHEAD_def)
  let ?f = "\<lambda>(ctx0 :: (unit, seq_state) sync_context) q. Ok q :: error + response"
  have meths: "demo_methods (get_path ''s'' ''m'') = map_option (request_handler plain_display response_codec response_codec response_codec) (Some ?f)"
    by (simp add: demo_methods_def get_path_def)
  have reply: "sync_reply plain_display response_codec (Some ?f) path hctx response_default = Ok (response_set_payload [] (init_status (get_status OK [])))" for path hctx
    by (simp add: sync_reply_def ok_response_def enc)
  have deliver: "\<forall>bs. inq (demo_deliver bs) = bs" by (simp add: demo_deliver_def)
  have intime: "ctx_timeout_nano (with_timeout 5) = 0 \<or> 3 \<le> unat (ctx_timeout_nano (with_timeout 5))" by (simp add: with_timeout_def)
  from sync_unary_rpc [where deliver = demo_deliver and insync = seq_insync and c = demo_client and t = seq_start and ch = 0
      and meths = demo_methods and path = "get_path ''s'' ''m''" and fopt = "Some ?f" and tm = 3 and rest = inq, OF sock_out.send_laws_axioms sock_in.recv_laws_axioms deliver link seq_never_refuses seq_never_refuses sync(1,2)
      req_codec.codec_laws_axioms resp_codec.codec_laws_axioms resp_codec.codec_laws_axioms resp_codec.codec_laws_axioms
      enc demo_request_def buf(1) fits(1) refl meths refl reply rbuf(1) fits(2) _ sync(3) intime,
      of 4 "\<lambda>mh y. []" "\<lambda>m. []" "demo_deliver []" "[]" "demo_deliver []" "[]"]
  obtain c2 t2 r where "sync_exchange plain_display request_codec response_codec seq_ctx seq_ctx demo_methods 4 (\<lambda>mh y. []) (\<lambda>m. []) sock_send sock_recv outq
         demo_deliver buf 0 (demo_client, demo_deliver [], []) (seq_start, demo_deliver [], []) = Some (c2, t2)"
      "sync_request response_codec demo_request (At 3 (sc_got c2 0)) = Some r"
      "client_request response_codec response_codec (with_timeout 5) [] ''s'' ''m'' response_default response_default
         (\<lambda>req'. if req' = demo_request then r else Err LocalClosed) = Ok response_default"
    by (auto simp: sync_view_def typed_view_def)
  with buf(1) show ?thesis by blast
qed

end
