(* ===== verification/SyncPool.thy ===== *)
theory SyncPool
  imports SyncServer
begin

text \<open>
  The threads of one connection of the blocking server, \<open>src/src/sync/server.rs\<close>: the pool of handler threads, the
  reader, the response thread, and the connection's main thread (\<open>client_handler\<close>), which replenishes the pool and, at the
  end, joins the others. A thread's place is its program point, handler threads are counted per
  program point, and every access to a shared variable, every channel operation and every thread start is an event of
  its own (a thread start together with the look at the quit flag before it). A run is any sequence of enabled events;
  the accesses are sequentially consistent, as the code asks for.
\<close>

subsection \<open>The threads of a connection\<close>

text \<open>
  Handler threads. \<open>at_top\<close>: at the head of the loop; \<open>counting\<close>: found the connection alive, not counted yet;
  \<open>over\<close>: counted itself above the maximum and has not taken that back;
  \<open>waiting\<close>: in \<open>workload_rx.recv\<close>; \<open>taken\<close>: \<open>recv\<close> has returned; \<open>uncounting\<close>: found the connection alive after that;
  \<open>notifying\<close>: about to send on the rendezvous channel \<open>control_tx\<close> because the pool is low; \<open>working\<close>: handling a
  request; \<open>leaving\<close>: about to send on \<open>control_tx\<close> and end. \<open>left_counted\<close> and \<open>over_exits\<close> are history: threads that
  ended without uncounting themselves, and threads that ended above the maximum.

  The main thread: starting the first threads (so many still to start), at the head of its loop, about to load the counter,
  starting the threads it found missing, in \<open>control_rx.recv\<close>, past its loop, and joining the response thread
  and the reader; \<open>Finished\<close> is past both joins. It holds a sender of its own channel, so that its \<open>recv\<close> never fails.
\<close>

datatype main_pc = Starting nat | Checking | Measuring | Spawning nat | Receiving | Dropping | JoiningResponses | JoiningReader | Finished

text \<open>The reader: at the head of its loop, in \<open>read_message\<close>, about to send on \<open>control_tx\<close> and end, or ended.\<close>

datatype reader_pc = ReaderTop | Reading | ReaderNotifies | ReaderEnded

text \<open>\<open>read_end\<close>: the socket's read side has ended or failed; \<open>jobs\<close> and \<open>responses\<close> are the lengths of the two channels.\<close>

record pool =
  wtc :: nat
  at_top :: nat
  counting :: nat
  over :: nat
  waiting :: nat
  taken :: nat
  uncounting :: nat
  notifying :: nat
  working :: nat
  leaving :: nat
  main :: main_pc
  pool_quit :: bool
  jobs :: nat
  reader :: reader_pc
  read_end :: bool
  responses :: nat
  response_alive :: bool
  left_counted :: nat
  over_exits :: nat

record pool_conf =
  pc_default :: nat
  pc_min :: nat
  pc_max :: nat

datatype pool_event =
    CheckQuit
  | Count
  | UncountOver
  | TakeJob
  | RecvFails
  | CheckTaken
  | Uncount
  | Notify
  | TurnDone bool
  | TurnQuits
  | Leave
  | ReaderChecks
  | ReadFrame
  | ReadOther
  | ReadFails
  | ReaderSends
  | LoopChecks
  | Measure
  | StartThread
  | DropEnds
  | JoinResponses
  | JoinReader
  | Write
  | WriteFails
  | ResponsesEnd
  | QuitSet
  | ReadShut

definition pool_init :: "pool_conf \<Rightarrow> pool" where
  "pool_init c = \<lparr>wtc = 0, at_top = 0, counting = 0, over = 0, waiting = 0, taken = 0, uncounting = 0, notifying = 0, working = 0,
     leaving = 0, main = Starting (pc_default c), pool_quit = False, jobs = 0, reader = ReaderTop, read_end = False,
     responses = 0, response_alive = True, left_counted = 0, over_exits = 0\<rparr>"

text \<open>The handler threads there are. Each holds a sender of the response channel and a receiver of the workload channel.\<close>

definition handlers :: "pool \<Rightarrow> nat" where
  "handlers s = at_top s + counting s + over s + waiting s + taken s + uncounting s + notifying s + working s + leaving s"

text \<open>The main thread has dropped \<open>control_rx\<close>, \<open>res_tx\<close> and \<open>workload_rx\<close>.\<close>

definition dropped :: "main_pc \<Rightarrow> bool" where
  "dropped m = (m = JoiningResponses \<or> m = JoiningReader \<or> m = Finished)"

text \<open>
  A send on \<open>control_tx\<close>, as the main thread sees it: it meets the main thread in \<open>control_rx.recv\<close>, fails at once when the
  receiver is gone, and waits otherwise.
\<close>

definition control_send :: "main_pc \<Rightarrow> main_pc option" where
  "control_send m = (if m = Receiving then Some Checking else if dropped m then Some m else None)"

text \<open>
  One event, if it is enabled. \<open>recv\<close> on the workload fails once the reader has ended and the channel is empty. An
  answered turn has put a response into the channel, which fails when the response thread is gone. The response
  thread ends when the channel is empty and every sender is dropped, or when a write fails.
\<close>

fun pool_step :: "pool_conf \<Rightarrow> pool_event \<Rightarrow> pool \<Rightarrow> pool option" where
  "pool_step c CheckQuit s =
     (if at_top s = 0 then None
      else if pool_quit s then Some (s\<lparr>at_top := at_top s - 1\<rparr>)
      else Some (s\<lparr>at_top := at_top s - 1, counting := counting s + 1\<rparr>))"
| "pool_step c Count s =
     (if counting s = 0 then None
      else if wtc s + 1 > pc_max c then
        Some (s\<lparr>counting := counting s - 1, wtc := wtc s + 1, over := over s + 1\<rparr>)
      else Some (s\<lparr>counting := counting s - 1, wtc := wtc s + 1, waiting := waiting s + 1\<rparr>))"
| "pool_step c UncountOver s =
     (if over s = 0 then None
      else Some (s\<lparr>over := over s - 1, wtc := wtc s - 1, over_exits := over_exits s + 1\<rparr>))"
| "pool_step c TakeJob s =
     (if waiting s = 0 \<or> jobs s = 0 then None
      else Some (s\<lparr>waiting := waiting s - 1, taken := taken s + 1, jobs := jobs s - 1\<rparr>))"
| "pool_step c RecvFails s =
     (if waiting s = 0 \<or> jobs s \<noteq> 0 \<or> reader s \<noteq> ReaderEnded then None
      else Some (s\<lparr>waiting := waiting s - 1, taken := taken s + 1\<rparr>))"
| "pool_step c CheckTaken s =
     (if taken s = 0 then None
      else if pool_quit s then
        Some (s\<lparr>taken := taken s - 1, leaving := leaving s + 1, left_counted := left_counted s + 1\<rparr>)
      else Some (s\<lparr>taken := taken s - 1, uncounting := uncounting s + 1\<rparr>))"
| "pool_step c Uncount s =
     (if uncounting s = 0 then None
      else if wtc s - 1 < pc_min c then
        Some (s\<lparr>uncounting := uncounting s - 1, wtc := wtc s - 1, notifying := notifying s + 1\<rparr>)
      else Some (s\<lparr>uncounting := uncounting s - 1, wtc := wtc s - 1, working := working s + 1\<rparr>))"
| "pool_step c Notify s =
     (if notifying s = 0 then None
      else map_option (\<lambda>m. s\<lparr>notifying := notifying s - 1, working := working s + 1, main := m\<rparr>) (control_send (main s)))"
| "pool_step c (TurnDone ans) s =
     (if working s = 0 \<or> ans \<and> \<not> response_alive s then None
      else Some (s\<lparr>working := working s - 1, at_top := at_top s + 1, responses := responses s + (if ans then 1 else 0)\<rparr>))"
| "pool_step c TurnQuits s =
     (if working s = 0 then None
      else Some (s\<lparr>working := working s - 1, leaving := leaving s + 1, pool_quit := True\<rparr>))"
| "pool_step c Leave s =
     (if leaving s = 0 then None
      else map_option (\<lambda>m. s\<lparr>leaving := leaving s - 1, main := m\<rparr>) (control_send (main s)))"
| "pool_step c ReaderChecks s =
     (if reader s \<noteq> ReaderTop then None
      else Some (s\<lparr>reader := (if pool_quit s then ReaderEnded else Reading)\<rparr>))"
| "pool_step c ReadFrame s =
     (if reader s \<noteq> Reading then None
      else if dropped (main s) \<and> handlers s = 0 then Some (s\<lparr>reader := ReaderNotifies, pool_quit := True\<rparr>)
      else Some (s\<lparr>reader := ReaderTop, jobs := jobs s + 1\<rparr>))"
| "pool_step c ReadOther s = (if reader s \<noteq> Reading then None else Some (s\<lparr>reader := ReaderTop\<rparr>))"
| "pool_step c ReadFails s =
     (if reader s \<noteq> Reading \<or> \<not> read_end s then None
      else Some (s\<lparr>reader := ReaderNotifies, pool_quit := True\<rparr>))"
| "pool_step c ReaderSends s =
     (if reader s \<noteq> ReaderNotifies then None
      else map_option (\<lambda>m. s\<lparr>reader := ReaderEnded, main := m\<rparr>) (control_send (main s)))"
| "pool_step c LoopChecks s =
     (if main s \<noteq> Checking then None
      else Some (s\<lparr>main := (if pool_quit s then Dropping else Measuring)\<rparr>))"
| "pool_step c Measure s =
     (if main s \<noteq> Measuring then None
      else Some (s\<lparr>main := Spawning (if wtc s < pc_min c then pc_default c - wtc s else 0)\<rparr>))"
| "pool_step c StartThread s =
     (case main s of
        Starting k \<Rightarrow>
          (if k = 0 \<or> pool_quit s then Some (s\<lparr>main := Checking\<rparr>)
           else Some (s\<lparr>main := Starting (k - 1), at_top := at_top s + 1\<rparr>))
      | Spawning k \<Rightarrow>
          (if k = 0 \<or> pool_quit s then Some (s\<lparr>main := Receiving\<rparr>)
           else Some (s\<lparr>main := Spawning (k - 1), at_top := at_top s + 1\<rparr>))
      | _ \<Rightarrow> None)"
| "pool_step c DropEnds s = (if main s = Dropping then Some (s\<lparr>main := JoiningResponses\<rparr>) else None)"
| "pool_step c JoinResponses s =
     (if main s = JoiningResponses \<and> \<not> response_alive s then Some (s\<lparr>main := JoiningReader\<rparr>) else None)"
| "pool_step c JoinReader s =
     (if main s = JoiningReader \<and> reader s = ReaderEnded then Some (s\<lparr>main := Finished\<rparr>) else None)"
| "pool_step c Write s =
     (if response_alive s \<and> 0 < responses s then Some (s\<lparr>responses := responses s - 1\<rparr>) else None)"
| "pool_step c WriteFails s =
     (if response_alive s \<and> 0 < responses s then Some (s\<lparr>response_alive := False, pool_quit := True\<rparr>) else None)"
| "pool_step c ResponsesEnd s =
     (if response_alive s \<and> responses s = 0 \<and> dropped (main s) \<and> handlers s = 0 then Some (s\<lparr>response_alive := False\<rparr>)
      else None)"
| "pool_step c QuitSet s = Some (s\<lparr>pool_quit := True\<rparr>)"
| "pool_step c ReadShut s = Some (s\<lparr>read_end := True\<rparr>)"

fun pool_run :: "pool_conf \<Rightarrow> pool_event list \<Rightarrow> pool \<Rightarrow> pool option" where
  "pool_run c [] s = Some s"
| "pool_run c (e # es) s = Option.bind (pool_step c e s) (pool_run c es)"

lemma pool_run_invariant:
  assumes "\<And>e s s'. pool_step c e s = Some s' \<Longrightarrow> P s \<Longrightarrow> P s'"
  shows "pool_run c es s = Some s' \<Longrightarrow> P s \<Longrightarrow> P s'"
  by (induction es arbitrary: s) (auto simp: bind_eq_Some_conv dest: assms)

lemma dropped_simps [simp]:
  "\<not> dropped (Starting k)" "\<not> dropped Checking" "\<not> dropped Measuring" "\<not> dropped (Spawning k)" "\<not> dropped Receiving" "\<not> dropped Dropping"
  "dropped JoiningResponses" "dropped JoiningReader" "dropped Finished"
  by (simp_all add: dropped_def)

lemma control_send_Some [simp]: "control_send m = Some m' \<longleftrightarrow> m = Receiving \<and> m' = Checking \<or> dropped m \<and> m' = m"
  by (auto simp: control_send_def)

lemma StartThread_Some:
  "pool_step c StartThread s = Some s' \<longleftrightarrow>
     (\<exists>k. main s = Starting k \<and> s' = (if k = 0 \<or> pool_quit s then s\<lparr>main := Checking\<rparr> else s\<lparr>main := Starting (k - 1), at_top := at_top s + 1\<rparr>))
   \<or> (\<exists>k. main s = Spawning k \<and> s' = (if k = 0 \<or> pool_quit s then s\<lparr>main := Receiving\<rparr> else s\<lparr>main := Spawning (k - 1), at_top := at_top s + 1\<rparr>))"
  by (cases "main s") auto

subsection \<open>The pool\<close>

definition pool_counts :: "pool_conf \<Rightarrow> pool \<Rightarrow> bool" where
  "pool_counts c s \<longleftrightarrow> wtc s = waiting s + taken s + uncounting s + over s + left_counted s
     \<and> waiting s + taken s + uncounting s \<le> pc_max c \<and> (dropped (main s) \<or> main s = Dropping \<or> 0 < left_counted s \<longrightarrow> pool_quit s)"

lemma pool_counts_step: "pool_step c e s = Some s' \<Longrightarrow> pool_counts c s \<Longrightarrow> pool_counts c s'"
proof (cases "e = StartThread")
  case False
  assume "pool_step c e s = Some s'" "pool_counts c s"
  with False show ?thesis by (cases e; clarsimp simp: pool_counts_def split: if_splits) auto
qed (auto simp: pool_counts_def StartThread_Some simp del: pool_step.simps split: if_splits)

text \<open>While no thread has ended above the maximum: either enough threads are counted or about to count themselves, or the main thread will be told.\<close>

definition pool_live :: "pool_conf \<Rightarrow> pool \<Rightarrow> bool" where
  "pool_live c s \<longleftrightarrow> (\<not> pool_quit s \<and> over_exits s = 0 \<longrightarrow>
     (main s = Receiving \<longrightarrow> pc_min c \<le> wtc s + at_top s + counting s \<or> 0 < notifying s)
     \<and> (\<forall>k. main s = Spawning k \<longrightarrow> pc_min c \<le> wtc s + at_top s + counting s + k \<or> 0 < notifying s))"

lemma pool_live_step:
  "pool_step c e s = Some s' \<Longrightarrow> pc_min c \<le> pc_default c \<Longrightarrow> pool_counts c s \<Longrightarrow> pool_live c s \<Longrightarrow> pool_live c s'"
proof (cases "e = StartThread")
  case False
  assume "pool_step c e s = Some s'" "pc_min c \<le> pc_default c" "pool_counts c s" "pool_live c s"
  with False show ?thesis by (cases e; clarsimp simp: pool_live_def pool_counts_def split: if_splits) auto
qed (auto simp: pool_live_def StartThread_Some simp del: pool_step.simps split: if_splits)

text \<open>
  C16: The pool of handler threads is bounded and replenished. With any thresholds that
  \<open>Server::start\<close> accepts, in every run of a connection's threads: the counter is the number of
  threads waiting for work, holding it or uncounting themselves; never more than the maximum wait; and unless the
  connection quits or a thread has ended above the maximum, as long as the main thread sleeps at least the minimum of
  threads is counted or about to count itself, or a thread is about to wake the main thread. (A minimum of zero is accepted
  and promises nothing: such a pool may run dry.)
\<close>

theorem pool_replenished:
  assumes "pool_run c es (pool_init c) = Some s" and "pc_min c < pc_default c" and "pc_default c < pc_max c"
  shows "waiting s \<le> pc_max c \<and> (\<not> pool_quit s \<longrightarrow> wtc s = waiting s + taken s + uncounting s + over s)
    \<and> (\<not> pool_quit s \<and> over_exits s = 0 \<and> main s = Receiving \<longrightarrow>
         pc_min c \<le> waiting s + taken s + uncounting s + over s + at_top s + counting s \<or> 0 < notifying s)"
proof -
  have "pool_counts c s \<and> pool_live c s"
  proof (rule pool_run_invariant [where P = "\<lambda>s. pool_counts c s \<and> pool_live c s", OF _ assms(1)])
    fix e s s'
    assume "pool_step c e s = Some s'" and "pool_counts c s \<and> pool_live c s"
    with pool_counts_step pool_live_step assms(2) show "pool_counts c s' \<and> pool_live c s'"
      by (metis less_imp_le)
  next
    show "pool_counts c (pool_init c) \<and> pool_live c (pool_init c)"
      by (simp add: pool_counts_def pool_live_def pool_init_def)
  qed
  then show ?thesis by (auto simp: pool_counts_def pool_live_def)
qed

definition default_conf :: pool_conf where
  "default_conf = \<lparr>pc_default = thread_count_default (sync_server_default :: (unit, unit) sync_server),
     pc_min = thread_count_min (sync_server_default :: (unit, unit) sync_server),
     pc_max = thread_count_max (sync_server_default :: (unit, unit) sync_server)\<rparr>"

text \<open>Three requests arrive and are taken by the three threads that were started.\<close>

definition busy_run :: "pool_event list" where
  "busy_run = replicate 4 StartThread @ replicate 3 CheckQuit @ replicate 3 Count @ [LoopChecks, Measure, StartThread]
     @ concat (replicate 3 [ReaderChecks, ReadFrame]) @ replicate 3 TakeJob @ replicate 3 CheckTaken @ replicate 3 Uncount"

theorem pool_replenished_witness:
  "\<exists>s. pool_run default_conf busy_run (pool_init default_conf) = Some s \<and> waiting s = 0 \<and> working s = 2
     \<and> (pc_min default_conf \<le> waiting s + taken s + uncounting s + over s + at_top s + counting s \<or> 0 < notifying s)"
proof -
  obtain s where s: "pool_run default_conf busy_run (pool_init default_conf) = Some s" "waiting s = 0"
      "working s = 2" "\<not> pool_quit s" "over_exits s = 0" "main s = Receiving"
    by (simp add: default_conf_def sync_server_default_def busy_run_def pool_init_def eval_nat_numeral)
  have "pc_min default_conf < pc_default default_conf" "pc_default default_conf < pc_max default_conf"
    by (simp_all add: default_conf_def sync_server_default_def)
  from pool_replenished [OF s(1) this] s show ?thesis by auto
qed

subsection \<open>The end of a connection\<close>

text \<open>Events other than the two halves of \<open>Connection::shutdown\<close>; and those that wait for a handler or for the socket to accept a response.\<close>

definition inside :: "pool_event \<Rightarrow> bool" where
  "inside e \<longleftrightarrow> e \<noteq> QuitSet \<and> e \<noteq> ReadShut"

fun awaited :: "pool_event \<Rightarrow> bool" where
  "awaited (TurnDone ans) = True"
| "awaited TurnQuits = True"
| "awaited Write = True"
| "awaited WriteFails = True"
| "awaited e = False"

text \<open>How many steps are left at most once the connection quits.\<close>

fun main_left :: "main_pc \<Rightarrow> nat" where
  "main_left (Starting k) = 5"
| "main_left Checking = 4"
| "main_left Measuring = 7"
| "main_left (Spawning k) = 6"
| "main_left Receiving = 5"
| "main_left Dropping = 3"
| "main_left JoiningResponses = 2"
| "main_left JoiningReader = 1"
| "main_left Finished = 0"

fun reader_left :: "reader_pc \<Rightarrow> nat" where
  "reader_left ReaderTop = 1"
| "reader_left Reading = 2"
| "reader_left ReaderNotifies = 1"
| "reader_left ReaderEnded = 0"

definition threads_left :: "pool \<Rightarrow> nat" where
  "threads_left s = at_top s + 4 * counting s + over s + 3 * waiting s + 2 * taken s + 5 * uncounting s + 4 * notifying s
     + 3 * working s + leaving s + main_left (main s) + reader_left (reader s) + responses s + (if response_alive s then 1 else 0)"

lemma quit_read_end_kept:
  assumes "pool_step c e s = Some s'"
  shows "pool_quit s \<Longrightarrow> pool_quit s'" "read_end s \<Longrightarrow> read_end s'"
  using assms by (cases e; clarsimp split: if_splits main_pc.splits)+

lemma threads_left_step:
  assumes "pool_step c e s = Some s'" and "pool_quit s" and "inside e"
  shows "threads_left s' < threads_left s"
proof (cases "e = StartThread")
  case False
  with assms show ?thesis by (cases e; clarsimp simp: threads_left_def inside_def split: if_splits) auto
qed (use assms in \<open>auto simp: threads_left_def StartThread_Some simp del: pool_step.simps\<close>)

text \<open>
  \<open>stranded\<close>: the main thread sleeps and nobody is left to wake it. \<open>will_wake\<close>: it is not asleep nor about to be, or
  somebody is bound to send on its channel.
\<close>

definition stranded :: "pool \<Rightarrow> bool" where
  "stranded s \<longleftrightarrow> pool_quit s \<and> main s = Receiving \<and> handlers s = 0 \<and> reader s = ReaderEnded"

definition will_wake :: "pool \<Rightarrow> bool" where
  "will_wake s \<longleftrightarrow> main s \<noteq> Receiving \<and> main s \<noteq> Measuring \<and> (\<forall>k. main s \<noteq> Spawning k)
     \<or> 0 < waiting s + taken s + notifying s + leaving s \<or> reader s = ReaderNotifies"

definition busy :: "pool \<Rightarrow> bool" where
  "busy s \<longleftrightarrow> 0 < working s \<or> response_alive s \<and> 0 < responses s"

lemma will_wake_not_stranded: "will_wake s \<Longrightarrow> \<not> stranded s"
  by (auto simp: will_wake_def stranded_def handlers_def)

lemma will_wake_step:
  assumes "pool_step c e s = Some s'" and "pool_quit s" and "will_wake s"
  shows "will_wake s'"
proof (cases "e = StartThread")
  case False
  with assms show ?thesis by (cases e; clarsimp simp: will_wake_def split: if_splits) auto
qed (use assms in \<open>auto simp: will_wake_def StartThread_Some simp del: pool_step.simps\<close>)

text \<open>The main thread can always go on except in its three waits.\<close>

lemma main_goes_on:
  assumes "pool_quit s"
  obtains "main s = Receiving" | "dropped (main s)" | e s' where "inside e" "\<not> awaited e" "pool_step c e s = Some s'"
proof -
  have "main s = Receiving \<or> dropped (main s) \<or> (\<exists>e s'. inside e \<and> \<not> awaited e \<and> pool_step c e s = Some s')"
  proof (cases "main s")
    case (Starting k)
    with assms show ?thesis by (intro disjI2 exI [of _ StartThread]) (simp add: inside_def)
  next
    case Checking
    then show ?thesis by (intro disjI2 exI [of _ LoopChecks]) (simp add: inside_def)
  next
    case Measuring
    then show ?thesis by (intro disjI2 exI [of _ Measure]) (simp add: inside_def)
  next
    case (Spawning k)
    with assms show ?thesis by (intro disjI2 exI [of _ StartThread]) (simp add: inside_def)
  next
    case Dropping
    then show ?thesis by (intro disjI2 exI [of _ DropEnds]) (simp add: inside_def)
  qed simp_all
  then show thesis using that by blast
qed

lemma reader_goes_on:
  assumes "pool_quit s" and "read_end s" and "reader s \<noteq> ReaderEnded"
  shows "\<exists>e s'. inside e \<and> \<not> awaited e \<and> pool_step c e s = Some s'"
  using assms(3)
proof (cases "reader s")
  case ReaderTop
  then show ?thesis by (intro exI [of _ ReaderChecks]) (simp add: inside_def)
next
  case Reading
  with assms(2) show ?thesis by (intro exI [of _ ReadFails]) (simp add: inside_def)
next
  case ReaderNotifies
  show ?thesis
  proof (rule main_goes_on [OF assms(1), where c = c])
    show ?thesis if "main s = Receiving"
      using that ReaderNotifies by (intro exI [of _ ReaderSends]) (simp add: inside_def control_send_def)
    show ?thesis if "dropped (main s)"
      using that ReaderNotifies by (intro exI [of _ ReaderSends]) (auto simp: inside_def control_send_def)
  qed blast
qed simp

lemma handlers_go_on:
  assumes "pool_quit s" and "read_end s" and "handlers s \<noteq> 0" and "working s = 0"
  shows "\<exists>e s'. inside e \<and> \<not> awaited e \<and> pool_step c e s = Some s'"
proof -
  have step: ?thesis if "inside e" "\<not> awaited e" "pool_step c e s \<noteq> None" for e using that by blast
  have send: ?thesis if signal: "0 < notifying s \<or> 0 < leaving s"
  proof -
    have met: ?thesis if "main s = Receiving \<or> dropped (main s)"
      using step [of Notify] step [of Leave] that signal by (auto simp: inside_def control_send_def)
    show ?thesis by (rule main_goes_on [OF assms(1), where c = c]) (use met in blast)+
  qed
  have wait: ?thesis if "0 < waiting s"
  proof (cases "jobs s = 0 \<and> reader s \<noteq> ReaderEnded")
    case False
    with that step [of TakeJob] step [of RecvFails] show ?thesis by (cases "jobs s = 0") (simp_all add: inside_def)
  qed (use reader_goes_on [OF assms(1,2)] in blast)
  from assms(3,4) consider "0 < at_top s" | "0 < counting s" | "0 < over s" | "0 < waiting s" | "0 < taken s" | "0 < uncounting s"
    | "0 < notifying s \<or> 0 < leaving s" by (auto simp: handlers_def)
  then show ?thesis
    by cases (use step [of CheckQuit] step [of Count] step [of UncountOver] step [of CheckTaken] step [of Uncount] wait send in
      \<open>auto simp: inside_def\<close>)
qed

text \<open>
  After \<open>Connection::shutdown\<close> some thread can go on until the main thread has joined the others, unless a handler is at work, a response
  is being written, or the main thread is stranded.
\<close>

lemma connection_goes_on:
  assumes "pool_quit s" and "read_end s" and "main s \<noteq> Finished" and "\<not> busy s" and "\<not> stranded s"
  shows "\<exists>e s'. inside e \<and> \<not> awaited e \<and> pool_step c e s = Some s'"
proof (cases "handlers s = 0 \<and> reader s = ReaderEnded")
  case True
  show ?thesis
  proof (rule main_goes_on [OF assms(1), where c = c])
    assume "dropped (main s)"
    with assms(3) consider "main s = JoiningResponses" | "main s = JoiningReader" by (auto simp: dropped_def)
    then show ?thesis
    proof cases
      case 1
      show ?thesis
      proof (cases "response_alive s")
        case alive: True
        with 1 True assms(4) show ?thesis by (intro exI [of _ ResponsesEnd]) (simp add: inside_def busy_def)
      qed (use 1 in \<open>intro exI [of _ JoinResponses], simp add: inside_def\<close>)
    qed (use True in \<open>intro exI [of _ JoinReader], simp add: inside_def\<close>)
  qed (use True assms(1,5) in \<open>auto simp: stranded_def\<close>)
next
  case False
  with handlers_go_on [OF assms(1,2)] reader_goes_on [OF assms(1,2)] assms(4) show ?thesis by (auto simp: busy_def)
qed

text \<open>
  C38: A blocking server's shutdown can hang. Suppose a connection is told to quit while its main thread sleeps in
  \<open>control_rx.recv\<close>, its reader is between two reads (or has ended), and no handler thread waits for work or is on
  its way in or out of that wait: all of them are at work, at the head of their loop or above the maximum. Then, as
  long as no handler fails, whatever the threads do and however often they are told to quit, the main thread never wakes again: the
  reader and the handler threads see the quit flag and end without a word. The connection is never handed to the reaper, which
  \<open>disconnect\<close> waits for.
\<close>

theorem shutdown_strands:
  assumes "pool_quit s" and "main s = Receiving" and "reader s = ReaderTop \<or> reader s = ReaderEnded"
    and "counting s + waiting s + taken s + uncounting s + notifying s + leaving s = 0"
    and "pool_run c es s = Some s'" and "TurnQuits \<notin> set es"
  shows "main s' = Receiving \<and> reader s' \<noteq> Reading \<and> handlers s' \<le> handlers s \<and> leaving s' + notifying s' + waiting s' = 0"
  using assms
proof (induction es arbitrary: s)
  case Nil
  then show ?case by auto
next
  case (Cons e es)
  then obtain s1 where s1: "pool_step c e s = Some s1" "pool_run c es s1 = Some s'" by (auto simp: bind_eq_Some_conv)
  have "pool_quit s1 \<and> main s1 = Receiving \<and> (reader s1 = ReaderTop \<or> reader s1 = ReaderEnded)
      \<and> counting s1 + waiting s1 + taken s1 + uncounting s1 + notifying s1 + leaving s1 = 0 \<and> handlers s1 \<le> handlers s"
    using s1(1) Cons.prems(1-4,6) by (cases e; clarsimp simp: handlers_def split: if_splits)
  with Cons.IH [of s1] s1(2) Cons.prems(6) show ?case by auto
qed

text \<open>
  Such a state with the default thresholds: the three threads are busy, the main thread has been woken and has started
  three more, which have not looked at the flag yet, when the connection is told to quit; the handlers then finish.
\<close>

definition race_run :: "pool_event list" where
  "race_run = busy_run @ [Notify, LoopChecks, Measure] @ replicate 4 StartThread @ [QuitSet, ReadShut]"

definition silent_end :: "pool_event list" where
  "silent_end = replicate 3 (TurnDone True) @ replicate 6 CheckQuit @ [ReaderChecks] @ replicate 3 Write"

theorem shutdown_strands_witness:
  "\<exists>s s'. pool_run default_conf race_run (pool_init default_conf) = Some s \<and> pool_run default_conf silent_end s = Some s'
     \<and> main s' = Receiving \<and> stranded s'"
proof -
  obtain s where s: "pool_run default_conf race_run (pool_init default_conf) = Some s" "pool_quit s" "main s = Receiving"
      "reader s = ReaderTop" "counting s + waiting s + taken s + uncounting s + notifying s + leaving s = 0"
      "at_top s = 3" "working s = 3" "over s = 0" "response_alive s" "responses s = 0"
    by (simp add: default_conf_def sync_server_default_def race_run_def busy_run_def pool_init_def eval_nat_numeral control_send_def)
  obtain s' where s': "pool_run default_conf silent_end s = Some s'" "reader s' = ReaderEnded" "handlers s' = 0" "pool_quit s'"
    using s(2-) by (simp add: silent_end_def eval_nat_numeral handlers_def)
  have "TurnQuits \<notin> set silent_end" by (simp add: silent_end_def)
  from shutdown_strands [OF s(2,3) _ s(5) s'(1) this] s s' show ?thesis by (auto simp: stranded_def)
qed

end
