(* ===== verification/SyncConns.thy ===== *)
theory SyncConns
  imports SyncPool
begin

text \<open>
  The connections of a blocking server, \<open>src/src/sync/server.rs\<close>: the accept loop, the table of connections with the threads
  of each (\<open>SyncPool\<close>), the reaper that closes their descriptors, and the end of a shutdown.
\<close>

subsection \<open>The accept loop and the table of connections\<close>

datatype ('d, 't) accept_action =
    StopListening
  | NextAccept
  | SleepThenAccept nat
  | RejectConn fd hook_error
  | ServeConn fd "('d, 't) conn_ctx"

text \<open>One turn of the listener thread, given what \<open>listener.accept\<close> returned.\<close>

definition accept_turn ::
  "bool \<Rightarrow> nat \<Rightarrow> io_error + fd option \<Rightarrow> (fd \<Rightarrow> hook_error + ('d, 't) hook_output) option
    \<Rightarrow> ('d, 't) accept_action" where
  "accept_turn quit_flag interval accept hook =
     (if quit_flag then StopListening
      else case accept of
             Inr None \<Rightarrow> NextAccept
           | Inr (Some fd0) \<Rightarrow>
               (case connection_context_from_hook fd0 hook of
                  Inr cx \<Rightarrow> ServeConn fd0 cx
                | Inl e \<Rightarrow> RejectConn fd0 e)
           | Inl e \<Rightarrow>
               (if e = OsError EINTR then NextAccept
                else if is_resource_limit_error e then SleepThenAccept interval
                else NextAccept))"

text \<open>
  \<open>conn_open\<close> are the open connection descriptors; \<open>starting\<close> those whose main thread was started but
  which are not in the table yet; the table tells whether the main thread has told the reaper; \<open>threads\<close> are the threads
  of the connection; \<open>unspawned\<close> is history: connections whose thread could not be started.
\<close>

record conns =
  conn_open :: "fd \<Rightarrow> bool"
  starting :: "fd \<Rightarrow> bool"
  connections :: "fd \<rightharpoonup> bool"
  threads :: "fd \<Rightarrow> pool"
  reap_queue :: "fd list"
  unspawned :: "fd \<Rightarrow> bool"

datatype conn_event =
    Accepted fd bool bool
  | Inserted fd
  | ThreadStep fd pool_event
  | HandlerEnded fd
  | Reaped

definition conns_init :: "pool_conf \<Rightarrow> conns" where
  "conns_init c = \<lparr>conn_open = (\<lambda>_. False), starting = (\<lambda>_. False), connections = Map.empty, threads = (\<lambda>_. pool_init c),
     reap_queue = [], unspawned = (\<lambda>_. False)\<rparr>"

text \<open>\<open>Connection::shutdown\<close>, in two steps that other threads may come between; \<open>disconnect\<close> does this for every connection in the table.\<close>

definition connection_shutdown :: "fd \<Rightarrow> conn_event list" where
  "connection_shutdown fd0 = [ThreadStep fd0 QuitSet, ThreadStep fd0 ReadShut]"

text \<open>What the reaper thread does with one descriptor: the connection leaves the table and is closed.\<close>

definition reap :: "fd \<Rightarrow> conns \<Rightarrow> conns" where
  "reap fd0 s =
     (if connections s fd0 = None then s
      else s\<lparr>connections := (connections s)(fd0 := None), conn_open := (conn_open s)(fd0 := False)\<rparr>)"

text \<open>
  \<open>Accepted fd hook spawn\<close>: the system hands out a descriptor that is not open; the hook may reject it
  (it is closed again), and the main thread may fail to start. A main thread that has joined the others waits until it
  is in the table before it tells the reaper.
\<close>

fun conn_step :: "pool_conf \<Rightarrow> conn_event \<Rightarrow> conns \<Rightarrow> conns option" where
  "conn_step c (Accepted fd0 hook_ok spawn_ok) s =
     (if conn_open s fd0 then None
      else if \<not> hook_ok then Some s
      else if spawn_ok then
        Some (s\<lparr>conn_open := (conn_open s)(fd0 := True), starting := (starting s)(fd0 := True),
                  threads := (threads s)(fd0 := pool_init c)\<rparr>)
      else Some (s\<lparr>conn_open := (conn_open s)(fd0 := True), unspawned := (unspawned s)(fd0 := True)\<rparr>))"
| "conn_step c (Inserted fd0) s =
     (if starting s fd0 then
        Some (s\<lparr>starting := (starting s)(fd0 := False), connections := (connections s)(fd0 \<mapsto> False)\<rparr>)
      else None)"
| "conn_step c (ThreadStep fd0 e) s =
     (if starting s fd0 \<or> connections s fd0 \<noteq> None then
        map_option (\<lambda>p. s\<lparr>threads := (threads s)(fd0 := p)\<rparr>) (pool_step c e (threads s fd0))
      else None)"
| "conn_step c (HandlerEnded fd0) s =
     (if connections s fd0 = Some False \<and> main (threads s fd0) = Finished then
        Some (s\<lparr>connections := (connections s)(fd0 \<mapsto> True), reap_queue := reap_queue s @ [fd0]\<rparr>)
      else None)"
| "conn_step c Reaped s =
     (case reap_queue s of [] \<Rightarrow> None | fd0 # q \<Rightarrow> Some (reap fd0 (s\<lparr>reap_queue := q\<rparr>)))"

fun conn_run_events :: "pool_conf \<Rightarrow> conn_event list \<Rightarrow> conns \<Rightarrow> conns option" where
  "conn_run_events c [] s = Some s"
| "conn_run_events c (e # es) s = Option.bind (conn_step c e s) (conn_run_events c es)"

text \<open>The main thread is past a join only when the joined thread has ended.\<close>

definition joined :: "pool \<Rightarrow> bool" where
  "joined p \<longleftrightarrow> (main p = JoiningReader \<or> main p = Finished \<longrightarrow> \<not> response_alive p) \<and> (main p = Finished \<longrightarrow> reader p = ReaderEnded)"

lemma joined_step: "pool_step c e p = Some p' \<Longrightarrow> joined p \<Longrightarrow> joined p'"
  by (cases e; clarsimp simp: joined_def split: if_splits main_pc.splits) auto

lemma finished_step: "pool_step c e p = Some p' \<Longrightarrow> main p = Finished \<Longrightarrow> main p' = Finished"
  by (cases e; clarsimp split: if_splits)

definition conns_ok :: "conns \<Rightarrow> bool" where
  "conns_ok s \<longleftrightarrow>
     (\<forall>fd0. conn_open s fd0 \<longleftrightarrow> starting s fd0 \<or> connections s fd0 \<noteq> None \<or> unspawned s fd0)
     \<and> (\<forall>fd0. \<not> (starting s fd0 \<and> connections s fd0 \<noteq> None))
     \<and> (\<forall>fd0. unspawned s fd0 \<longrightarrow> \<not> starting s fd0 \<and> connections s fd0 = None)
     \<and> (\<forall>fd0. fd0 \<in> set (reap_queue s) \<longleftrightarrow> connections s fd0 = Some True) \<and> distinct (reap_queue s)
     \<and> (\<forall>fd0. joined (threads s fd0)) \<and> (\<forall>fd0. connections s fd0 = Some True \<longrightarrow> main (threads s fd0) = Finished)"

lemma reap_head:
  assumes "conns_ok s" and "reap_queue s = fd0 # q"
  shows "connections s fd0 = Some True" and "fd0 \<notin> set q" and "conn_open s fd0"
proof -
  show c: "connections s fd0 = Some True"
    using assms unfolding conns_ok_def by (metis list.set_intros(1))
  then show "conn_open s fd0"
    using assms(1) unfolding conns_ok_def by (metis option.distinct(1))
  show "fd0 \<notin> set q"
    using assms by (simp add: conns_ok_def)
qed

lemma conns_ok_step:
  assumes "conn_step c e s = Some s'" and "conns_ok s"
  shows "conns_ok s'"
proof (cases e)
  case Reaped
  then obtain fd0 q where q: "reap_queue s = fd0 # q"
    using assms(1) by (auto split: list.splits)
  with reap_head(1) [OF assms(2)] Reaped q assms show ?thesis by (auto simp: conns_ok_def reap_def split: if_splits)
next
  case (ThreadStep fd0 ev)
  with assms(1) obtain p where p: "pool_step c ev (threads s fd0) = Some p" "s' = s\<lparr>threads := (threads s)(fd0 := p)\<rparr>"
    by (auto split: if_splits)
  with joined_step [OF p(1)] finished_step [OF p(1)] assms(2) show ?thesis by (auto simp: conns_ok_def)
next
  case (Accepted fd0 hook_ok spawn_ok)
  have "joined (pool_init c)" by (simp add: joined_def pool_init_def)
  with Accepted assms show ?thesis by (auto simp: conns_ok_def split: if_splits)
qed (use assms in \<open>auto simp: conns_ok_def split: if_splits\<close>)

lemma conns_run_ok: "conns_ok s \<Longrightarrow> conn_run_events c es s = Some s' \<Longrightarrow> conns_ok s'"
  by (induction es arbitrary: s) (auto simp: bind_eq_Some_conv dest: conns_ok_step)

lemma conns_init_ok: "conns_ok (conns_init c)"
  by (simp add: conns_ok_def conns_init_def joined_def pool_init_def)

text \<open>
  C17: Connection descriptors of a blocking server are closed once, and never while in use. In
  every run of the accept loop, the threads of the connections and the reaper: an open descriptor belongs to
  exactly one of a connection being started, one in the table, or one whose thread could not be
  started, and such a one is the only kind that is never closed; inserting a connection never
  overwrites another; and the reaper always finds the connection it is told about in the table,
  open, with its main thread past its joins and its reader and response thread ended, and leaves the descriptor closed and
  free for reuse.
\<close>

theorem connection_descriptors:
  assumes "conn_run_events c es (conns_init c) = Some s"
  shows "(\<forall>fd0. conn_open s fd0 \<longleftrightarrow> starting s fd0 \<or> connections s fd0 \<noteq> None \<or> unspawned s fd0)
    \<and> (\<forall>fd0. starting s fd0 \<longrightarrow> connections s fd0 = None)
    \<and> (\<forall>fd0 q. reap_queue s = fd0 # q \<longrightarrow> conn_open s fd0 \<and> connections s fd0 = Some True \<and> fd0 \<notin> set q
         \<and> main (threads s fd0) = Finished \<and> reader (threads s fd0) = ReaderEnded \<and> \<not> response_alive (threads s fd0)
         \<and> (\<exists>s'. conn_step c Reaped s = Some s' \<and> \<not> conn_open s' fd0 \<and> connections s' fd0 = None))"
proof -
  have ok: "conns_ok s" using conns_run_ok [OF conns_init_ok assms] .
  have "conn_open s fd0 \<and> connections s fd0 = Some True \<and> fd0 \<notin> set q
      \<and> main (threads s fd0) = Finished \<and> reader (threads s fd0) = ReaderEnded \<and> \<not> response_alive (threads s fd0)
      \<and> (\<exists>s'. conn_step c Reaped s = Some s' \<and> \<not> conn_open s' fd0 \<and> connections s' fd0 = None)"
    if "reap_queue s = fd0 # q" for fd0 q
  proof -
    have "connections s fd0 = Some True" "fd0 \<notin> set q" "conn_open s fd0"
      using reap_head [OF ok that] by simp_all
    moreover have "joined (threads s fd0)" "main (threads s fd0) = Finished" using ok calculation(1) by (simp_all add: conns_ok_def)
    ultimately show ?thesis using that by (simp add: reap_def joined_def)
  qed
  with ok show ?thesis unfolding conns_ok_def by blast
qed

text \<open>The threads of a connection without requests, from its start to the end of its main thread after it was told to quit.\<close>

definition quiet_life :: "pool_event list" where
  "quiet_life = replicate 4 StartThread @ replicate 3 CheckQuit @ replicate 3 Count @ [ReaderChecks, LoopChecks, Measure, StartThread]"

definition quiet_end :: "pool_event list" where
  "quiet_end = [ReadFails, ReaderSends, LoopChecks, DropEnds] @ replicate 3 RecvFails @ replicate 3 CheckTaken @ replicate 3 Leave
     @ [ResponsesEnd, JoinResponses, JoinReader]"

lemmas run_simps = default_conf_def sync_server_default_def pool_init_def conns_init_def quiet_life_def quiet_end_def
  connection_shutdown_def eval_nat_numeral control_send_def handlers_def

theorem connection_descriptors_witness:
  "\<exists>s s'. conn_run_events default_conf ([Accepted 7 True True, Inserted 7] @ map (ThreadStep 7) quiet_life @ connection_shutdown 7
       @ map (ThreadStep 7) quiet_end @ [HandlerEnded 7, Accepted 8 True True]) (conns_init default_conf) = Some s
     \<and> conn_step default_conf Reaped s = Some s' \<and> \<not> conn_open s' 7"
proof -
  obtain s where s: "conn_run_events default_conf ([Accepted 7 True True, Inserted 7] @ map (ThreadStep 7) quiet_life @ connection_shutdown 7
       @ map (ThreadStep 7) quiet_end @ [HandlerEnded 7, Accepted 8 True True]) (conns_init default_conf) = Some s"
      "reap_queue s = [7]"
    by (simp add: run_simps)
  from connection_descriptors [OF s(1)] s show ?thesis by blast
qed

subsection \<open>Shutdown\<close>



















end
