(* ===== verification/WinNet.thy ===== *)
theory WinNet
  imports SyncChannel
begin

text \<open>
  The Windows transport of the blocking API, \<open>src/src/sync/sys/windows/net.rs\<close>, and the named pipes of
  \<open>src/src/asynchronous/transport/windows.rs\<close>. Calls of the Windows API are arguments: each returns its result,
  the bytes it moved and the error that \<open>GetLastError\<close> tells afterwards. Waiting for an overlapped operation may
  not return (\<open>None\<close>). Handles are integers, and the state of the system tells which ones are open.
\<close>

type_synonym handle = int

definition ERROR_IO_PENDING :: int where "ERROR_IO_PENDING = 997"
definition ERROR_PIPE_CONNECTED :: int where "ERROR_PIPE_CONNECTED = 535"
definition ERROR_PIPE_BUSY :: int where "ERROR_PIPE_BUSY = 231"
definition INVALID_HANDLE_VALUE :: handle where "INVALID_HANDLE_VALUE = -1"
definition PIPE_BUFFER_SIZE :: nat where "PIPE_BUFFER_SIZE = 65536"
definition U32_MAX :: nat where "U32_MAX = 4294967295"

fun handle_windows_error :: "io_error \<Rightarrow> error" where
  "handle_windows_error (OsError n) = Windows n"
| "handle_windows_error (OtherError t) = Others t"

subsection \<open>Reading and writing a pipe\<close>

text \<open>\<open>(result, moved, last error)\<close>.\<close>

type_synonym 'a call = "int \<times> 'a \<times> int"

definition win_read ::
  "(io_error \<Rightarrow> string) \<Rightarrow> ('s \<Rightarrow> nat \<Rightarrow> bytes call \<times> 's) \<Rightarrow> ('s \<Rightarrow> (bytes call \<times> 's) option) \<Rightarrow> nat \<Rightarrow> ('s, bytes) io" where
  "win_read dbg read_file overlapped buf_len s =
     (case read_file s (min buf_len U32_MAX) of
        ((result, bytes_read, e), s1) \<Rightarrow>
          if result > 0 \<and> bytes_read \<noteq> [] then Some (Ok bytes_read, s1)
          else if e = ERROR_IO_PENDING then
            (case overlapped s1 of
               None \<Rightarrow> None
             | Some ((res, bytes_transfered, e'), s2) \<Rightarrow>
                 if res = 0 then Some (Err (handle_windows_error (OsError e')), s2) else Some (Ok bytes_transfered, s2))
          else Some (Err (Others (''failed to read from pipe: '' @ dbg (OsError e))), s1))"

definition win_write ::
  "(io_error \<Rightarrow> string) \<Rightarrow> ('s \<Rightarrow> bytes \<Rightarrow> nat call \<times> 's) \<Rightarrow> ('s \<Rightarrow> (nat call \<times> 's) option) \<Rightarrow> bytes \<Rightarrow> ('s, nat) io" where
  "win_write dbg write_file overlapped buf s =
     (case write_file s (take U32_MAX buf) of
        ((result, bytes_written, e), s1) \<Rightarrow>
          if result > 0 \<and> bytes_written > 0 then Some (Ok bytes_written, s1)
          else if e = ERROR_IO_PENDING then
            (case overlapped s1 of
               None \<Rightarrow> None
             | Some ((res, bytes_transfered, e'), s2) \<Rightarrow>
                 if res = 0 then Some (Err (handle_windows_error (OsError e')), s2) else Some (Ok bytes_transfered, s2))
          else Some (Err (Others (''failed to write to pipe: '' @ dbg (OsError e))), s1))"

text \<open>
  What a healthy pipe promises, as long as there is data to read: a call moves some of it at once, or is pending and its
  wait moves some. A closed and empty pipe is an error here, not an empty read.
\<close>

locale pipe_read_laws =
  fixes read_file :: "'s \<Rightarrow> nat \<Rightarrow> bytes call \<times> 's" and overlapped :: "'s \<Rightarrow> (bytes call \<times> 's) option"
    and rest :: "'s \<Rightarrow> bytes"
  assumes read_cases: "0 < n \<Longrightarrow> rest s \<noteq> [] \<Longrightarrow>
      (\<exists>k s' r e. 0 < k \<and> k \<le> n \<and> 0 < r \<and> read_file s n = ((r, take k (rest s), e), s') \<and> rest s' = drop k (rest s)) \<or>
      (\<exists>k s1 s' r x e'. 0 < k \<and> k \<le> n \<and> read_file s n = ((0, x, ERROR_IO_PENDING), s1)
         \<and> r \<noteq> 0 \<and> overlapped s1 = Some ((r, take k (rest s), e'), s') \<and> rest s' = drop k (rest s))"
begin

lemma win_read_some:
  assumes "0 < n" and "rest s \<noteq> []"
  shows "\<exists>k s'. 0 < k \<and> k \<le> n \<and> win_read dbg read_file overlapped n s = Some (Ok (take k (rest s)), s') \<and> rest s' = drop k (rest s)"
proof -
  have "0 < min n U32_MAX" using assms(1) by (simp add: U32_MAX_def)
  from read_cases [OF this assms(2)] show ?thesis
  proof (elim disjE exE conjE)
    fix k s' r e
    assume "0 < k" "k \<le> min n U32_MAX" "0 < r" "read_file s (min n U32_MAX) = ((r, take k (rest s), e), s')" "rest s' = drop k (rest s)"
    with assms(2) show ?thesis by (intro exI [of _ k] exI [of _ s']) (simp add: win_read_def)
  next
    fix k s1 s' r x e'
    assume "0 < k" "k \<le> min n U32_MAX" "read_file s (min n U32_MAX) = ((0, x, ERROR_IO_PENDING), s1)" "r \<noteq> 0"
      "overlapped s1 = Some ((r, take k (rest s), e'), s')" "rest s' = drop k (rest s)"
    then show ?thesis by (intro exI [of _ k] exI [of _ s']) (simp add: win_read_def)
  qed
qed

end

locale pipe_write_laws =
  fixes write_file :: "'s \<Rightarrow> bytes \<Rightarrow> nat call \<times> 's" and overlapped :: "'s \<Rightarrow> (nat call \<times> 's) option" and out :: "'s \<Rightarrow> bytes"
  assumes write_cases: "bs \<noteq> [] \<Longrightarrow>
      (\<exists>k s' r e. 0 < k \<and> k \<le> length bs \<and> 0 < r \<and> write_file s bs = ((r, k, e), s') \<and> out s' = out s @ take k bs) \<or>
      (\<exists>k s1 s' r x e'. 0 < k \<and> k \<le> length bs \<and> write_file s bs = ((0, x, ERROR_IO_PENDING), s1)
         \<and> r \<noteq> 0 \<and> overlapped s1 = Some ((r, k, e'), s') \<and> out s' = out s @ take k bs)"
begin

lemma win_write_some:
  assumes "bs \<noteq> []"
  shows "\<exists>k s'. 0 < k \<and> k \<le> length bs \<and> win_write dbg write_file overlapped bs s = Some (Ok k, s') \<and> out s' = out s @ take k bs"
proof -
  let ?bs = "take U32_MAX bs"
  have "?bs \<noteq> []" using assms by (simp add: U32_MAX_def)
  from write_cases [OF this, of s] show ?thesis
  proof (elim disjE exE conjE)
    fix k s' r e
    assume "0 < k" "k \<le> length ?bs" "0 < r" "write_file s ?bs = ((r, k, e), s')" "out s' = out s @ take k ?bs"
    then show ?thesis by (intro exI [of _ k] exI [of _ s']) (simp add: win_write_def min_def split: if_splits)
  next
    fix k s1 s' r x e'
    assume "0 < k" "k \<le> length ?bs" "write_file s ?bs = ((0, x, ERROR_IO_PENDING), s1)" "r \<noteq> 0"
      "overlapped s1 = Some ((r, k, e'), s')" "out s' = out s @ take k ?bs"
    then show ?thesis by (intro exI [of _ k] exI [of _ s']) (simp add: win_write_def min_def split: if_splits)
  qed
qed

end

sublocale pipe_write_laws \<subseteq> win_wr: short_writer "win_write dbg write_file overlapped" out for dbg
  by unfold_locales (rule win_write_some)

subsection \<open>Frames over a pipe\<close>

text \<open>
  The reader with an empty read at the end of the data, instead of an error: the two agree on
  every read that the data can satisfy, so that the theory of short reads carries over to whole frames.
\<close>

definition padded :: "('s \<Rightarrow> bytes) \<Rightarrow> (nat \<Rightarrow> ('s, bytes) io) \<Rightarrow> nat \<Rightarrow> ('s, bytes) io" where
  "padded rest rd n s = (if rest s = [] then Some (Ok [], s) else rd n s)"

context pipe_read_laws
begin

lemma padded_reader: "short_reader (padded rest (win_read dbg read_file overlapped)) rest"
proof
  fix n :: nat and s
  assume n: "0 < n"
  show "\<exists>k s'. 0 < k \<and> k \<le> n \<and> padded rest (win_read dbg read_file overlapped) n s = Some (Ok (take k (rest s)), s') \<and> rest s' = drop k (rest s)"
  proof (cases "rest s = []")
    case True
    with n show ?thesis by (intro exI [of _ n] exI [of _ s]) (simp add: padded_def)
  next
    case False
    with win_read_some [OF n] show ?thesis by (simp add: padded_def)
  qed
qed

lemma read_into_padded:
  "n \<le> length (rest s) \<Longrightarrow>
     read_into d (win_read dbg read_file overlapped) n buf s = read_into d (padded rest (win_read dbg read_file overlapped)) n buf s"
proof (induction n arbitrary: s buf rule: less_induct)
  case (less n)
  show ?case
  proof (cases "n = 0")
    case True
    then show ?thesis by (simp add: read_into.simps)
  next
    case False
    with less.prems have ne: "rest s \<noteq> []" by auto
    with False obtain k s' where k: "0 < k" "k \<le> n" "win_read dbg read_file overlapped n s = Some (Ok (take k (rest s)), s')"
        "rest s' = drop k (rest s)"
      using win_read_some by blast
    have "n - length (take k (rest s)) \<le> length (rest s')" "n - length (take k (rest s)) < n"
      using k ne less.prems by auto
    note rest_same = less.IH [OF this(2,1)]
    have "padded rest (win_read dbg read_file overlapped) n s = win_read dbg read_file overlapped n s"
      using ne by (simp add: padded_def)
    with rest_same k False ne show ?thesis by (subst (1 2) read_into.simps) simp
  qed
qed

lemma read_count_padded:
  "n \<le> length (rest s) \<Longrightarrow>
     read_count d (win_read dbg read_file overlapped) n s = read_count d (padded rest (win_read dbg read_file overlapped)) n s"
  by (simp add: read_count_def read_into_padded)

lemma discard_count_padded:
  "n \<le> length (rest s) \<Longrightarrow>
     discard_count d (win_read dbg read_file overlapped) n s = discard_count d (padded rest (win_read dbg read_file overlapped)) n s"
proof (induction n arbitrary: s rule: less_induct)
  case (less n)
  show ?case
  proof (cases "n = 0")
    case True
    then show ?thesis by (simp add: discard_count.simps)
  next
    case False
    let ?k = "min DEFAULT_PAGE_SIZE n"
    obtain s1 where s1: "read_count d (padded rest (win_read dbg read_file overlapped)) ?k s = Some (Ok (take ?k (rest s)), s1)"
        "rest s1 = drop ?k (rest s)"
      using short_reader.read_count_eq [OF padded_reader] by blast
    have "n - ?k < n" "n - ?k \<le> length (rest s1)" using False less.prems s1(2) by auto
    from less.IH [OF this] s1 read_count_padded [of ?k s d] less.prems False show ?thesis
      by (subst (1 2) discard_count.simps) (simp add: Let_def)
  qed
qed

text \<open>A frame whose bytes are all there is read as over any other transport.\<close>

lemma win_read_message:
  assumes "header_from (rest s) = Some mh" and "unat (mh_length mh) \<le> length (drop 10 (rest s))"
  shows "read_message d (win_read dbg read_file overlapped) s = read_message d (padded rest (win_read dbg read_file overlapped)) s"
proof -
  have ten: "10 \<le> length (rest s)"
  proof (rule ccontr)
    assume "\<not> 10 \<le> length (rest s)"
    then have "header_from (rest s) = None" by (simp add: header_from_short)
    with assms(1) show False by simp
  qed
  obtain s1 where s1: "read_message_header d (padded rest (win_read dbg read_file overlapped)) s = Some (Ok mh, s1)" "rest s1 = drop 10 (rest s)"
    using short_reader.read_header_some [OF padded_reader assms(1)] by blast
  have "read_message_header d (win_read dbg read_file overlapped) s = Some (Ok mh, s1)"
    using s1(1) read_into_padded [of 10 s d dbg "[]"] ten by (simp add: read_message_header_def io_bind_def)
  with s1 read_count_padded [of "unat (mh_length mh)" s1 d dbg] discard_count_padded [of "unat (mh_length mh)" s1 d dbg] assms(2) show ?thesis
    by (simp add: read_message_def io_bind_def Let_def split: sum.splits)
qed

lemma win_read_message_refines:
  "case parse_frame (rest s) of
      (Frame m, tail) \<Rightarrow>
        \<exists>s'. read_message d (win_read dbg read_file overlapped) s = Some (Ok (header m, Ok (payload m)), s') \<and> rest s' = tail
    | (Oversize mh, tail) \<Rightarrow>
        \<exists>e s'. read_message d (win_read dbg read_file overlapped) s = Some (Ok (mh, Err e), s')
          \<and> check_oversize (unat (mh_length mh)) True = Err e \<and> rest s' = tail
    | (Truncated, _) \<Rightarrow> True"
proof (cases "parse_frame (rest s)")
  case (Pair res tail)
  show ?thesis
  proof (cases res)
    case (Frame m)
    with Pair have f: "parse_frame (rest s) = (Frame m, tail)" by simp
    from f obtain mh where "header_from (rest s) = Some mh" "unat (mh_length mh) \<le> length (drop 10 (rest s))"
      by (rule parse_frame_FrameE)
    from win_read_message [OF this, of d dbg] short_reader.read_message_frame [OF padded_reader f, of d dbg] Pair Frame show ?thesis
      by simp
  next
    case (Oversize mh)
    with Pair have "parse_frame (rest s) = (Oversize mh, tail)" by simp
    from this obtain "header_from (rest s) = Some mh" "MESSAGE_LENGTH_MAX < unat (mh_length mh)"
        "unat (mh_length mh) \<le> length (drop 10 (rest s))" "tail = drop (unat (mh_length mh)) (drop 10 (rest s))"
      by (rule parse_frame_OversizeE)
    with win_read_message short_reader.read_message_over [OF padded_reader, of s mh d] Pair Oversize show ?thesis by simp
  qed (use Pair in simp)
qed

end

subsection \<open>Connections, events and the listener\<close>

text \<open>
  The calls that make and close handles: a named pipe (with or without the first-instance flag), an event,
  a client's file; the wait for a client; and closing.
\<close>

record 's win =
  create_named_pipe_w :: "bool \<Rightarrow> string \<Rightarrow> 's \<Rightarrow> (handle \<times> int) \<times> 's"
  create_event_w :: "'s \<Rightarrow> (handle \<times> int) \<times> 's"
  open_pipe :: "string \<Rightarrow> 's \<Rightarrow> (io_error + handle) \<times> 's"
  connect_named_pipe_w :: "handle \<Rightarrow> handle \<Rightarrow> 's \<Rightarrow> (int \<times> int) \<times> 's"
  get_overlapped_result :: "handle \<Rightarrow> handle \<Rightarrow> 's \<Rightarrow> ((int \<times> int) \<times> 's) option"
  disconnect_named_pipe :: "handle \<Rightarrow> 's \<Rightarrow> (int \<times> int) \<times> 's"
  set_event_w :: "handle \<Rightarrow> 's \<Rightarrow> (int \<times> int) \<times> 's"
  close_handle_w :: "handle \<Rightarrow> 's \<Rightarrow> (int \<times> int) \<times> 's"

record win_connection =
  named_pipe :: handle
  read_event :: handle
  write_event :: handle

record win_listener =
  first_instance :: bool
  shutting_down :: bool
  wl_address :: string
  connection_event :: handle

text \<open>Most calls return 0 for an error, which \<open>GetLastError\<close> then tells.\<close>

definition unless_zero :: "(int \<Rightarrow> 'a) \<Rightarrow> (int \<times> int) \<times> 's \<Rightarrow> (error + 'a) \<times> 's" where
  "unless_zero f r =
     (case r of ((result, e), s) \<Rightarrow> (if result = 0 then Err (handle_windows_error (OsError e)) else Ok (f result), s))"

definition close_handle :: "'s win \<Rightarrow> handle \<Rightarrow> 's \<Rightarrow> (error + unit) \<times> 's" where
  "close_handle w h s = unless_zero (\<lambda>_. ()) (close_handle_w w h s)"

definition create_event :: "'s win \<Rightarrow> 's \<Rightarrow> (error + handle) \<times> 's" where
  "create_event w s = unless_zero (\<lambda>h. h) (create_event_w w s)"

definition set_event :: "'s win \<Rightarrow> handle \<Rightarrow> 's \<Rightarrow> (error + unit) \<times> 's" where
  "set_event w h s = unless_zero (\<lambda>_. ()) (set_event_w w h s)"

definition win_connection_new :: "'s win \<Rightarrow> handle \<Rightarrow> 's \<Rightarrow> (error + win_connection) \<times> 's" where
  "win_connection_new w h s =
     (case create_event w s of
        (Inl e, s1) \<Rightarrow> (Err e, s1)
      | (Inr re, s1) \<Rightarrow>
          (case create_event w s1 of
             (Inl e, s2) \<Rightarrow> (Err e, s2)
           | (Inr we, s2) \<Rightarrow> (Ok \<lparr>named_pipe = h, read_event = re, write_event = we\<rparr>, s2)))"

definition win_connection_close :: "'s win \<Rightarrow> win_connection \<Rightarrow> 's \<Rightarrow> (error + unit) \<times> 's" where
  "win_connection_close w c s =
     (case close_handle w (named_pipe c) s of
        (Inl e, s1) \<Rightarrow> (Err e, s1)
      | (Inr _, s1) \<Rightarrow>
          (case close_handle w (read_event c) s1 of
             (Inl e, s2) \<Rightarrow> (Err e, s2)
           | (Inr _, s2) \<Rightarrow> close_handle w (write_event c) s2))"

text \<open>\<open>Drop for PipeConnection\<close> in \<open>src/src/sync/client.rs\<close>: a connection that goes out of scope is closed, once more if it was closed before.\<close>

definition win_connection_drop :: "'s win \<Rightarrow> win_connection \<Rightarrow> 's \<Rightarrow> 's" where
  "win_connection_drop w c s = snd (win_connection_close w c s)"

definition win_connection_shutdown :: "'s win \<Rightarrow> win_connection \<Rightarrow> 's \<Rightarrow> (error + unit) \<times> 's" where
  "win_connection_shutdown w c s = unless_zero (\<lambda>_. ()) (disconnect_named_pipe w (named_pipe c) s)"

definition win_listener_new :: "'s win \<Rightarrow> string \<Rightarrow> 's \<Rightarrow> (error + win_listener) \<times> 's" where
  "win_listener_new w addr s =
     (case create_event w s of
        (Inl e, s1) \<Rightarrow> (Err e, s1)
      | (Inr ev, s1) \<Rightarrow>
          (Ok \<lparr>first_instance = True, shutting_down = False, wl_address = addr, connection_event = ev\<rparr>, s1))"

text \<open>Only the first instance of a listener asks to be the first of the pipe.\<close>

definition new_instance :: "'s win \<Rightarrow> win_listener \<Rightarrow> 's \<Rightarrow> (io_error + handle) \<times> win_listener \<times> 's" where
  "new_instance w l s =
     (case create_named_pipe_w w (first_instance l) (wl_address l) s of
        ((h, e), s1) \<Rightarrow> (if h = INVALID_HANDLE_VALUE then Err (OsError e) else Ok h, l\<lparr>first_instance := False\<rparr>, s1))"

definition handle_shutdown :: "'s win \<Rightarrow> win_listener \<Rightarrow> win_connection \<Rightarrow> 's \<Rightarrow> io_error option \<times> 's" where
  "handle_shutdown w l np s =
     (if shutting_down l then (Some (OtherError ''closing pipe''), snd (win_connection_close w np s)) else (None, s))"

text \<open>
  \<open>accept\<close>: the part after \<open>np\<close> has been made, and the whole, which drops \<open>np\<close> when it returns an error.
  \<open>shutting_down\<close> is read once, in
  \<open>handle_shutdown\<close>, and may be set by another thread while the call waits: \<open>later\<close> tells whether it has been set by
  then. \<open>None\<close> is a wait that does not return.
\<close>

definition accepted :: "'s win \<Rightarrow> win_listener \<Rightarrow> win_connection \<Rightarrow> 's \<Rightarrow> (io_error + win_connection option) \<times> 's" where
  "accepted w l np s = (case handle_shutdown w l np s of (Some e, s') \<Rightarrow> (Err e, s') | (None, s') \<Rightarrow> (Ok (Some np), s'))"

definition accept_wait ::
  "(io_error \<Rightarrow> string) \<Rightarrow> 's win \<Rightarrow> win_listener \<Rightarrow> win_connection \<Rightarrow> 's
    \<Rightarrow> ((io_error + win_connection option) \<times> 's) option" where
  "accept_wait dbg_io w l np s =
     (case connect_named_pipe_w w (named_pipe np) (connection_event l) s of
        ((result, e), s1) \<Rightarrow>
          if result \<noteq> 0 then
            Some (case handle_shutdown w l np s1 of (Some err, s2) \<Rightarrow> (Err err, s2) | (None, s2) \<Rightarrow> (Err (OsError e), s2))
          else if e = ERROR_IO_PENDING then
            (case get_overlapped_result w (named_pipe np) (connection_event l) s1 of
               None \<Rightarrow> None
             | Some ((res, e'), s2) \<Rightarrow> Some (if res = 0 then (Err (OsError e'), s2) else accepted w l np s2))
          else if e = ERROR_PIPE_CONNECTED then Some (accepted w l np s1)
          else Some (Err (OtherError (''failed to connect pipe: '' @ dbg_io (OsError e))), s1))"

definition win_accept ::
  "(error \<Rightarrow> string) \<Rightarrow> (io_error \<Rightarrow> string) \<Rightarrow> 's win \<Rightarrow> bool \<Rightarrow> win_listener \<Rightarrow> 's
    \<Rightarrow> ((io_error + win_connection option) \<times> win_listener \<times> 's) option" where
  "win_accept dbg dbg_io w later l s =
     (case new_instance w l s of
        (Inl e, l1, s1) \<Rightarrow> Some (Err e, l1, s1)
      | (Inr instance_h, l1, s1) \<Rightarrow>
          (case win_connection_new w instance_h s1 of
             (Inl e, s2) \<Rightarrow> Some (Err (OtherError (''failed to create new pipe instance: '' @ dbg e)), l1, s2)
           | (Inr np, s2) \<Rightarrow>
               (let l2 = l1\<lparr>shutting_down := shutting_down l1 \<or> later\<rparr>
                in case accept_wait dbg_io w l2 np s2 of
                     None \<Rightarrow> None
                   | Some (Inl e, s3) \<Rightarrow> Some (Err e, l2, win_connection_drop w np s3)
                   | Some (Inr c, s3) \<Rightarrow> Some (Ok c, l2, s3))))"

definition win_listener_close :: "'s win \<Rightarrow> win_listener \<Rightarrow> 's \<Rightarrow> (error + unit) \<times> win_listener \<times> 's" where
  "win_listener_close w l s =
     (let l' = l\<lparr>shutting_down := True\<rparr>
      in case set_event w (connection_event l) s of
           (Inl e, s1) \<Rightarrow> (Err e, l', s1)
         | (Inr _, s1) \<Rightarrow> (case close_handle w (connection_event l) s1 of (r, s2) \<Rightarrow> (r, l', s2)))"

text \<open>A client's connection is only its address until a pipe is opened.\<close>

definition win_client_ready :: "io_error + unit option" where
  "win_client_ready = Ok (Some ())"

definition get_pipe_connection :: "'s win \<Rightarrow> string \<Rightarrow> 's \<Rightarrow> (error + win_connection) \<times> 's" where
  "get_pipe_connection w addr s =
     (case open_pipe w addr s of
        (Inl e, s1) \<Rightarrow> (Err (handle_windows_error e), s1)
      | (Inr h, s1) \<Rightarrow> win_connection_new w h s1)"

text \<open>
  \<open>Socket::connect_named_pipe\<close> of the asynchronous transport: it tries again every 50 ms while all instances
  of the pipe are busy.
\<close>

partial_function (option) connect_named_pipe ::
  "('s \<Rightarrow> (io_error + 'c) \<times> 's) \<Rightarrow> ('s \<Rightarrow> 's) \<Rightarrow> 's \<Rightarrow> ((io_error + 'c) \<times> 's) option" where
  "connect_named_pipe open_client sleep s =
     (case open_client s of
        (Inr c, s1) \<Rightarrow> Some (Ok c, s1)
      | (Inl e, s1) \<Rightarrow>
          if e = OsError ERROR_PIPE_BUSY then connect_named_pipe open_client sleep (sleep s1) else Some (Err e, s1))"

text \<open>
  A listener of the asynchronous transport, from \<open>bind_named_pipe\<close> or from a pipe: each step waits for a client on
  the pipe it holds, makes the next instance and hands out the old one. After an error it keeps the pipe.
\<close>

definition bind_named_pipe :: "(bool \<Rightarrow> string \<Rightarrow> 's \<Rightarrow> (io_error + 'p) \<times> 's) \<Rightarrow> string \<Rightarrow> 's \<Rightarrow> (io_error + 'p) \<times> 's" where
  "bind_named_pipe create addr s = create True addr s"

definition named_pipe_next ::
  "('p \<Rightarrow> 's \<Rightarrow> (io_error + unit) \<times> 's) \<Rightarrow> (bool \<Rightarrow> string \<Rightarrow> 's \<Rightarrow> (io_error + 'p) \<times> 's) \<Rightarrow> string \<Rightarrow> 'p \<Rightarrow> 's
    \<Rightarrow> (io_error + 'p) \<times> 'p \<times> 's" where
  "named_pipe_next connect create addr listener s =
     (case connect listener s of
        (Inl e, s1) \<Rightarrow> (Err e, listener, s1)
      | (Inr _, s1) \<Rightarrow>
          (case create False addr s1 of (Inl e, s2) \<Rightarrow> (Err e, listener, s2) | (Inr l, s2) \<Rightarrow> (Ok listener, l, s2)))"

subsection \<open>Properties\<close>

text \<open>Waiting for a free instance ends once the pipe has been busy often enough, and never with the busy error.\<close>

lemma connect_named_pipe_returns:
  assumes "\<And>s s1. open_client s = (Err (OsError ERROR_PIPE_BUSY), s1) \<Longrightarrow> busy (sleep s1) < (busy s :: nat)"
  shows "\<exists>r s'. connect_named_pipe open_client sleep s = Some (r, s') \<and> r \<noteq> Err (OsError ERROR_PIPE_BUSY)"
proof (induction "busy s" arbitrary: s rule: less_induct)
  case less
  show ?case
  proof (cases "open_client s")
    case (Pair r s1)
    show ?thesis
    proof (cases "r = Err (OsError ERROR_PIPE_BUSY)")
      case True
      with Pair less.hyps [of "sleep s1"] assms [of s s1] show ?thesis by (subst connect_named_pipe.simps) simp
    next
      case False
      with Pair show ?thesis by (subst connect_named_pipe.simps) (auto split: sum.splits)
    qed
  qed
qed

text \<open>
  The blocking frame code works over Windows pipes as over sockets: what \<open>write_message\<close> puts on a pipe that takes
  its bytes in pieces, at once or after a wait, is read back by \<open>read_message\<close> on the other side.
\<close>

theorem win_frame_roundtrip:
  assumes "pipe_write_laws write_file ov out" and "pipe_read_laws read_file ov' rest" and "frame_ok m"
  shows "\<exists>s' prefix'. sync_write_message d (win_write dbg write_file ov) (header m) (payload m) prefix s = (Some (Ok (), s'), prefix')
    \<and> out s' = out s @ frame_bytes m
    \<and> (\<forall>r tail. rest r = frame_bytes m @ tail \<longrightarrow>
         (\<exists>r'. read_message d (win_read dbg read_file ov') r = Some (Ok (header m, Ok (payload m)), r') \<and> rest r' = tail))"
proof -
  have "short_writer (win_write dbg write_file ov) out"
    using pipe_write_laws.win_write_some [OF assms(1)] by unfold_locales
  from short_writer.sync_write_message_ok [OF this, of d "header m" "payload m" prefix s]
  obtain s' prefix' where "sync_write_message d (win_write dbg write_file ov) (header m) (payload m) prefix s = (Some (Ok (), s'), prefix')"
      "out s' = out s @ frame_bytes m" unfolding frame_bytes_def by blast
  moreover have "\<exists>r'. read_message d (win_read dbg read_file ov') r = Some (Ok (header m, Ok (payload m)), r') \<and> rest r' = tail"
    if "rest r = frame_bytes m @ tail" for r tail
    using pipe_read_laws.win_read_message_refines [OF assms(2), where s = r and d = d and dbg = dbg] that parse_frame_bytes [OF assms(3)] by simp
  ultimately show ?thesis by blast
qed

text \<open>Which handles are open, and what the calls do to them.\<close>

definition makes_handle :: "('s \<Rightarrow> handle set) \<Rightarrow> handle \<Rightarrow> ('s \<Rightarrow> (handle \<times> int) \<times> 's) \<Rightarrow> bool" where
  "makes_handle handles failed f \<longleftrightarrow> (\<forall>s h e s'. f s = ((h, e), s') \<longrightarrow>
     (if h = failed then handles s' = handles s else h \<notin> handles s \<and> handles s' = insert h (handles s)))"

definition handle_table :: "('s \<Rightarrow> handle set) \<Rightarrow> 's win \<Rightarrow> bool" where
  "handle_table handles w \<longleftrightarrow>
     (\<forall>b a. makes_handle handles INVALID_HANDLE_VALUE (create_named_pipe_w w b a)) \<and> makes_handle handles 0 (create_event_w w)
   \<and> (\<forall>h ev s x s'. connect_named_pipe_w w h ev s = (x, s') \<longrightarrow> handles s' = handles s)
   \<and> (\<forall>h ev s x s'. get_overlapped_result w h ev s = Some (x, s') \<longrightarrow> handles s' = handles s)
   \<and> (\<forall>h s r e s'. close_handle_w w h s = ((r, e), s') \<longrightarrow> (r \<noteq> 0 \<longleftrightarrow> h \<in> handles s) \<and> handles s' = handles s - {h})"

lemma makes_handleD:
  assumes "makes_handle handles failed f"
  shows "f s = ((failed, e), s') \<Longrightarrow> handles s' = handles s"
    and "f s = ((h, e), s') \<Longrightarrow> h \<noteq> failed \<Longrightarrow> h \<notin> handles s \<and> handles s' = insert h (handles s)"
  using assms [unfolded makes_handle_def, rule_format, of s] by (auto split: if_splits)

lemma handle_tableD:
  assumes "handle_table handles w"
  shows "makes_handle handles INVALID_HANDLE_VALUE (create_named_pipe_w w b a)" and "makes_handle handles 0 (create_event_w w)"
    and "connect_named_pipe_w w h ev s = (x, s') \<Longrightarrow> handles s' = handles s"
    and "get_overlapped_result w h ev s = Some (x, s') \<Longrightarrow> handles s' = handles s"
    and "close_handle_w w h s = ((r, e), s') \<Longrightarrow> (r \<noteq> 0 \<longleftrightarrow> h \<in> handles s) \<and> handles s' = handles s - {h}"
  using assms by (simp_all only: handle_table_def)

lemma create_event_handles:
  assumes "handle_table handles w"
  shows "create_event w s = (Err e, s') \<Longrightarrow> handles s' = handles s"
    and "create_event w s = (Ok h, s') \<Longrightarrow> h \<notin> handles s \<and> handles s' = insert h (handles s)"
  using makes_handleD [OF handle_tableD(2) [OF assms], of s]
  by (cases "create_event_w w s"; force simp: create_event_def unless_zero_def split: if_splits)+

lemma connection_new_handles:
  assumes "handle_table handles w"
  shows "win_connection_new w h s = (Err e, s') \<Longrightarrow> handles s \<subseteq> handles s'"
    and "win_connection_new w h s = (Ok c, s') \<Longrightarrow> named_pipe c = h \<and> handles s' = {read_event c, write_event c} \<union> handles s
      \<and> read_event c \<notin> handles s \<and> write_event c \<notin> insert (read_event c) (handles s)"
proof -
  note event = create_event_handles [OF assms]
  obtain r1 s1 where c1: "create_event w s = (r1, s1)" by (metis surj_pair)
  obtain r2 s2 where c2: "create_event w s1 = (r2, s2)" by (metis surj_pair)
  have h1: "handles s \<subseteq> handles s1" using event [of s] c1 by (cases r1) auto
  have h2: "handles s1 \<subseteq> handles s2" using event [of s1] c2 by (cases r2) auto
  show "handles s \<subseteq> handles s'" if "win_connection_new w h s = (Err e, s')"
    using that c1 c2 h1 h2 by (cases r1; cases r2) (auto simp: win_connection_new_def)
  assume "win_connection_new w h s = (Ok c, s')"
  with c1 c2 obtain a b where ab: "r1 = Ok a" "r2 = Ok b" "c = \<lparr>named_pipe = h, read_event = a, write_event = b\<rparr>" "s' = s2"
    by (cases r1; cases r2) (auto simp: win_connection_new_def)
  from event(2) [of s a s1] event(2) [of s1 b s2] c1 c2 ab
  show "named_pipe c = h \<and> handles s' = {read_event c, write_event c} \<union> handles s
      \<and> read_event c \<notin> handles s \<and> write_event c \<notin> insert (read_event c) (handles s)"
    by (simp add: insert_commute)
qed

text \<open>Closing takes the three handles away, and closing again changes nothing.\<close>

lemma close_handle_handles:
  assumes "handle_table handles w" and "close_handle w h s = (r, s')"
  shows "is_ok r \<longleftrightarrow> h \<in> handles s" and "handles s' = handles s - {h}"
  using assms(2) handle_tableD(5) [OF assms(1), of h s]
  by (cases "close_handle_w w h s"; force simp: close_handle_def unless_zero_def split: if_splits)+

definition handles_of :: "win_connection \<Rightarrow> handle list" where
  "handles_of c = [named_pipe c, read_event c, write_event c]"

lemma connection_close_handles:
  assumes "handle_table handles w"
  shows "set (handles_of c) \<subseteq> handles s \<Longrightarrow> distinct (handles_of c) \<Longrightarrow>
      handles (win_connection_drop w c s) = handles s - set (handles_of c)"
    and "named_pipe c \<notin> handles s \<Longrightarrow> handles (win_connection_drop w c s) = handles s"
proof -
  obtain r1 s1 where c1: "close_handle w (named_pipe c) s = (r1, s1)" by (metis surj_pair)
  obtain r2 s2 where c2: "close_handle w (read_event c) s1 = (r2, s2)" by (metis surj_pair)
  obtain r3 s3 where c3: "close_handle w (write_event c) s2 = (r3, s3)" by (metis surj_pair)
  note h = close_handle_handles [OF assms c1] close_handle_handles [OF assms c2] close_handle_handles [OF assms c3]
  show "named_pipe c \<notin> handles s \<Longrightarrow> handles (win_connection_drop w c s) = handles s"
    using h(1,2) c1 by (cases r1) (auto simp: win_connection_drop_def win_connection_close_def)
  assume all: "set (handles_of c) \<subseteq> handles s" "distinct (handles_of c)"
  then have "is_ok r1" "is_ok r2" using h by (auto simp: handles_of_def)
  with c1 c2 c3 have "win_connection_drop w c s = s3"
    by (cases r1; cases r2) (auto simp: win_connection_drop_def win_connection_close_def)
  with h show "handles (win_connection_drop w c s) = handles s - set (handles_of c)" by (auto simp: handles_of_def)
qed

text \<open>What is open before the connection is dropped: only a listener that shuts down has closed it already.\<close>

lemma accept_wait_handles:
  assumes "handle_table handles w" and "accept_wait dbg w l np s = Some (r, s')"
  shows "\<exists>s1. handles s1 = handles s
    \<and> (s' = s1 \<and> (\<forall>c. r = Ok c \<longrightarrow> \<not> shutting_down l \<and> c = Some np) \<or> s' = win_connection_drop w np s1 \<and> \<not> is_ok r)"
proof -
  obtain result e s1 where c1: "connect_named_pipe_w w (named_pipe np) (connection_event l) s = ((result, e), s1)" by (metis surj_pair)
  have h1: "handles s1 = handles s" by (rule handle_tableD(3) [OF assms(1) c1])
  show ?thesis
  proof (cases "result = 0 \<and> e = ERROR_IO_PENDING")
    case True
    with assms(2) c1 obtain res e' s2 where c2: "get_overlapped_result w (named_pipe np) (connection_event l) s1 = Some ((res, e'), s2)"
      by (auto simp: accept_wait_def split: option.splits)
    have "handles s2 = handles s" using handle_tableD(4) [OF assms(1) c2] h1 by simp
    with True c1 c2 assms(2) show ?thesis
      by (intro exI [of _ s2]) (auto simp: accept_wait_def accepted_def handle_shutdown_def win_connection_drop_def split: if_splits)
  next
    case False
    with h1 c1 assms(2) show ?thesis
      by (intro exI [of _ s1]) (auto simp: accept_wait_def accepted_def handle_shutdown_def win_connection_drop_def split: if_splits)
  qed
qed

lemma accept_wait_dropped:
  assumes "handle_table handles w" and "accept_wait dbg w l np s = Some (Err e, s')"
    and "set (handles_of np) \<subseteq> handles s" and "distinct (handles_of np)"
  shows "handles (win_connection_drop w np s') = handles s - set (handles_of np)"
  using accept_wait_handles [OF assms(1,2)]
proof (elim exE conjE disjE)
  fix s1
  assume "handles s1 = handles s" "s' = s1"
  with connection_close_handles(1) [OF assms(1), of np s'] assms(3,4) show ?thesis by simp
next
  fix s1
  assume "handles s1 = handles s" "s' = win_connection_drop w np s1"
  with connection_close_handles [OF assms(1), of np] assms(3,4) show ?thesis by (simp add: handles_of_def)
qed

text \<open>
  C23: Handles of accepted pipes. An accept that succeeds adds exactly the three handles of the connection it returns,
  and a listener that is shutting down returns none. An accept that fails after the connection object was made, on
  whatever path, leaves no handle behind. But when the events of the connection cannot be made, the handle of the new
  pipe instance stays open, although nothing holds it any more.
\<close>

theorem win_accept_handles:
  assumes "handle_table handles w" and "win_accept dbg dbg_io w later l s = Some (r, l', s')"
    and "create_named_pipe_w w (first_instance l) (wl_address l) s = ((h, e), s1)" and "h \<noteq> INVALID_HANDLE_VALUE"
  shows "h \<notin> handles s \<and> \<not> first_instance l' \<and>
    (case win_connection_new w h s1 of
       (Inr np, _) \<Rightarrow> named_pipe np = h \<and> distinct (handles_of np) \<and> set (handles_of np) \<inter> handles s = {}
         \<and> (case r of
              Inr c \<Rightarrow> c = Some np \<and> \<not> shutting_down l \<and> \<not> later \<and> handles s' = handles s \<union> set (handles_of np)
            | Inl _ \<Rightarrow> handles s' = handles s)
     | (Inl _, _) \<Rightarrow> \<not> is_ok r \<and> handles s \<union> {h} \<subseteq> handles s')"
proof -
  let ?l1 = "l\<lparr>first_instance := False\<rparr>"
  let ?l2 = "?l1\<lparr>shutting_down := shutting_down l \<or> later\<rparr>"
  have h: "h \<notin> handles s" "handles s1 = insert h (handles s)"
    using makes_handleD(2) [OF handle_tableD(1) [OF assms(1)] assms(3,4)] by simp_all
  have inst: "new_instance w l s = (Ok h, ?l1, s1)" using assms(3,4) by (simp add: new_instance_def)
  obtain r2 s2 where new: "win_connection_new w h s1 = (r2, s2)" by (metis surj_pair)
  show ?thesis
  proof (cases r2)
    case (Inl e2)
    with new connection_new_handles(1) [OF assms(1)] have "handles s1 \<subseteq> handles s2" by blast
    with assms(2) inst new Inl h show ?thesis by (auto simp: win_accept_def)
  next
    case (Inr np)
    note np = connection_new_handles(2) [OF assms(1) new [unfolded Inr]]
    with h have all: "distinct (handles_of np)" "set (handles_of np) \<inter> handles s = {}" "named_pipe np = h"
        "handles s2 = handles s \<union> set (handles_of np)"
      by (auto simp: handles_of_def)
    then have rest: "set (handles_of np) \<subseteq> handles s2" "handles s2 - set (handles_of np) = handles s" by auto
    have run: "win_accept dbg dbg_io w later l s = (case accept_wait dbg_io w ?l2 np s2 of
        None \<Rightarrow> None | Some (Inl e, s3) \<Rightarrow> Some (Err e, ?l2, win_connection_drop w np s3) | Some (Inr c, s3) \<Rightarrow> Some (Ok c, ?l2, s3))"
      using inst new Inr by (simp add: win_accept_def Let_def)
    with assms(2) obtain r3 s3 where wait: "accept_wait dbg_io w ?l2 np s2 = Some (r3, s3)" by (auto split: option.splits)
    show ?thesis
    proof (cases r3)
      case (Inl e3)
      with run wait assms(2) have "r = Err e3" "l' = ?l2" "s' = win_connection_drop w np s3" by simp_all
      with accept_wait_dropped [OF assms(1) wait [unfolded Inl] rest(1) all(1)] rest(2) all new \<open>r2 = Ok np\<close> h show ?thesis by simp
    next
      case ok: (Inr c)
      with run wait assms(2) have "r = Ok c" "l' = ?l2" "s' = s3" by simp_all
      with accept_wait_handles [OF assms(1) wait] ok all new \<open>r2 = Ok np\<close> h show ?thesis by auto
    qed
  qed
qed

subsection \<open>A scripted system\<close>

text \<open>
  A pipe whose calls move at most what a script allows, at once or after a wait: the laws that the frame theorems
  rest on hold of it. And a table of handles that can make a limited number of events, with a client waiting.
\<close>

record pipe_script =
  pipe_in :: bytes
  pipe_out :: bytes
  moves :: "(bool \<times> nat) list"
  pending_read :: nat
  pending_write :: bytes

definition next_move :: "pipe_script \<Rightarrow> nat \<Rightarrow> bool \<times> nat \<times> pipe_script" where
  "next_move s n = (case moves s of
     [] \<Rightarrow> (True, n, s) | (at_once, k) # ms \<Rightarrow> (at_once, min n (Suc k), s\<lparr>moves := ms\<rparr>))"

definition script_read :: "pipe_script \<Rightarrow> nat \<Rightarrow> bytes call \<times> pipe_script" where
  "script_read s n = (case next_move s n of (at_once, k, s') \<Rightarrow>
     if at_once then ((1, take k (pipe_in s), 0), s'\<lparr>pipe_in := drop k (pipe_in s)\<rparr>)
     else ((0, [], ERROR_IO_PENDING), s'\<lparr>pending_read := k\<rparr>))"

definition script_read_result :: "pipe_script \<Rightarrow> (bytes call \<times> pipe_script) option" where
  "script_read_result s = Some ((1, take (pending_read s) (pipe_in s), 0), s\<lparr>pipe_in := drop (pending_read s) (pipe_in s)\<rparr>)"

definition script_write :: "pipe_script \<Rightarrow> bytes \<Rightarrow> nat call \<times> pipe_script" where
  "script_write s bs = (case next_move s (length bs) of (at_once, k, s') \<Rightarrow>
     if at_once then ((1, k, 0), s'\<lparr>pipe_out := pipe_out s @ take k bs\<rparr>)
     else ((0, 0, ERROR_IO_PENDING), s'\<lparr>pending_write := take k bs\<rparr>))"

definition script_write_result :: "pipe_script \<Rightarrow> (nat call \<times> pipe_script) option" where
  "script_write_result s = Some ((1, length (pending_write s), 0), s\<lparr>pipe_out := pipe_out s @ pending_write s\<rparr>)"

lemma next_move_some:
  assumes "0 < n" obtains at_once k s' where "next_move s n = (at_once, k, s')" "0 < k" "k \<le> n"
    "pipe_in s' = pipe_in s" "pipe_out s' = pipe_out s"
  using assms by (cases "moves s") (auto simp: next_move_def split: prod.splits)

interpretation script_in: pipe_read_laws script_read script_read_result pipe_in
proof
  fix n :: nat and s
  assume "0 < n"
  then obtain at_once k s1 where "next_move s n = (at_once, k, s1)" "0 < k" "k \<le> n" "pipe_in s1 = pipe_in s" by (rule next_move_some)
  then show "(\<exists>k s' r e. 0 < k \<and> k \<le> n \<and> 0 < r \<and> script_read s n = ((r, take k (pipe_in s), e), s') \<and> pipe_in s' = drop k (pipe_in s)) \<or>
      (\<exists>k s1 s' r x e'. 0 < k \<and> k \<le> n \<and> script_read s n = ((0, x, ERROR_IO_PENDING), s1)
         \<and> r \<noteq> 0 \<and> script_read_result s1 = Some ((r, take k (pipe_in s), e'), s') \<and> pipe_in s' = drop k (pipe_in s))"
    by (cases at_once) (rule disjI1 disjI2, rule exI [of _ k], simp add: script_read_def script_read_result_def)+
qed

interpretation script_out: pipe_write_laws script_write script_write_result pipe_out
proof
  fix bs :: bytes and s
  assume "bs \<noteq> []"
  then have "0 < length bs" by simp
  then obtain at_once k s1 where "next_move s (length bs) = (at_once, k, s1)" "0 < k" "k \<le> length bs" "pipe_out s1 = pipe_out s" by (rule next_move_some)
  then show "(\<exists>k s' r e. 0 < k \<and> k \<le> length bs \<and> 0 < r \<and> script_write s bs = ((r, k, e), s') \<and> pipe_out s' = pipe_out s @ take k bs) \<or>
      (\<exists>k s1 s' r x e'. 0 < k \<and> k \<le> length bs \<and> script_write s bs = ((0, x, ERROR_IO_PENDING), s1)
         \<and> r \<noteq> 0 \<and> script_write_result s1 = Some ((r, k, e'), s') \<and> pipe_out s' = pipe_out s @ take k bs)"
    by (cases at_once) (rule disjI1 disjI2, rule exI [of _ k], simp add: script_write_def script_write_result_def)+
qed

definition fresh :: "handle list \<Rightarrow> handle" where "fresh hs = foldr max hs 0 + 1"

definition demo_win :: "(handle list \<times> nat) win" where
  "demo_win =
    \<lparr>create_named_pipe_w = \<lambda>b a (hs, n). ((fresh hs, 0), (fresh hs # hs, n)),
     create_event_w = \<lambda>(hs, n). (case n of 0 \<Rightarrow> ((0, 1450), (hs, n)) | Suc m \<Rightarrow> ((fresh hs, 0), (fresh hs # hs, m))),
     open_pipe = \<lambda>a s. (Err (OsError 2), s),
     connect_named_pipe_w = \<lambda>h ev s. ((0, ERROR_IO_PENDING), s),
     get_overlapped_result = \<lambda>h ev s. Some ((1, 0), s),
     disconnect_named_pipe = \<lambda>h s. ((1, 0), s),
     set_event_w = \<lambda>h s. ((1, 0), s),
     close_handle_w = \<lambda>h (hs, n). ((if h \<in> set hs then 1 else 0, 6), (removeAll h hs, n))\<rparr>"

lemma fresh_new: "fresh hs \<notin> set hs" "fresh hs \<noteq> 0" "fresh hs \<noteq> -1"
proof -
  have "x \<in> set hs \<Longrightarrow> x \<le> foldr max hs 0" "0 \<le> foldr max hs (0::int)" for x by (induction hs) auto
  from this(1) [of "fresh hs"] this(2) show "fresh hs \<notin> set hs" "fresh hs \<noteq> 0" "fresh hs \<noteq> -1" unfolding fresh_def by linarith+
qed

lemma demo_table: "handle_table (set \<circ> fst) demo_win"
  by (auto simp: handle_table_def makes_handle_def demo_win_def INVALID_HANDLE_VALUE_def fresh_new split: nat.splits)

definition demo_listener :: win_listener where
  "demo_listener = \<lparr>first_instance = True, shutting_down = False, wl_address = ''p'', connection_event = 1\<rparr>"

lemma demo_accepts:
  "win_accept (\<lambda>_. []) (\<lambda>_. []) demo_win False demo_listener ([1], 2) =
     Some (Ok (Some \<lparr>named_pipe = 2, read_event = 3, write_event = 4\<rparr>), demo_listener\<lparr>first_instance := False\<rparr>, [4, 3, 2, 1], 0)"
  "win_accept (\<lambda>_. []) (\<lambda>_. []) demo_win True demo_listener ([1], 2) =
     Some (Err (OtherError ''closing pipe''), demo_listener\<lparr>first_instance := False, shutting_down := True\<rparr>, [1], 0)"
  "win_accept (\<lambda>_. []) (\<lambda>_. []) demo_win False demo_listener ([1], 1) =
     Some (Err (OtherError ''failed to create new pipe instance: ''), demo_listener\<lparr>first_instance := False\<rparr>, [3, 2, 1], 0)"
  "create_named_pipe_w demo_win True ''p'' ([1], n) = ((2, 0), [2, 1], n)"
  "win_connection_new demo_win 2 ([2, 1], 2) = (Ok \<lparr>named_pipe = 2, read_event = 3, write_event = 4\<rparr>, [4, 3, 2, 1], 0)"
  "win_connection_new demo_win 2 ([2, 1], 1) = (Err (Windows 1450), [3, 2, 1], 0)"
  by (simp_all add: win_accept_def new_instance_def win_connection_new_def create_event_def unless_zero_def accept_wait_def accepted_def
      handle_shutdown_def win_connection_drop_def win_connection_close_def close_handle_def demo_win_def demo_listener_def fresh_def INVALID_HANDLE_VALUE_def)

theorem win_accept_handles_witness:
  "win_accept (\<lambda>_. []) (\<lambda>_. []) demo_win False demo_listener ([1], 2) =
     Some (Ok (Some \<lparr>named_pipe = 2, read_event = 3, write_event = 4\<rparr>), demo_listener\<lparr>first_instance := False\<rparr>, [4, 3, 2, 1], 0)
   \<and> set [4, 3, 2, 1 :: handle] = {1} \<union> {2, 3, 4}
   \<and> win_accept (\<lambda>_. []) (\<lambda>_. []) demo_win True demo_listener ([1], 2) =
     Some (Err (OtherError ''closing pipe''), demo_listener\<lparr>first_instance := False, shutting_down := True\<rparr>, [1], 0)
   \<and> win_accept (\<lambda>_. []) (\<lambda>_. []) demo_win False demo_listener ([1], 1) =
     Some (Err (OtherError ''failed to create new pipe instance: ''), demo_listener\<lparr>first_instance := False\<rparr>, [3, 2, 1], 0)
   \<and> (2 :: handle) \<in> set [3, 2, 1]"
proof -
  note run = demo_listener_def INVALID_HANDLE_VALUE_def demo_accepts(4-6) handles_of_def
  have "set [4, 3, 2, 1 :: handle] = {1} \<union> {2, 3, 4}"
    using win_accept_handles [OF demo_table demo_accepts(1), of 2 0 "([2, 1], 2)"] by (auto simp: run)
  moreover have "(2 :: handle) \<in> set [3, 2, 1]"
    using win_accept_handles [OF demo_table demo_accepts(3), of 2 0 "([2, 1], 1)"] by (simp add: run)
  ultimately show ?thesis using demo_accepts(1-3) by blast
qed

end
