(* ===== verification/Addr.thy ===== *)
theory Addr
  imports UnixNet
begin

text \<open>
  Addresses and sockets: the blocking transport's \<open>src/src/common.rs\<close> and the asynchronous
  \<open>src/src/asynchronous/transport/\<close> (\<open>mod.rs\<close>, \<open>unix.rs\<close>, \<open>tcp.rs\<close>, \<open>vsock.rs\<close>), both as built for Linux.
  Both parse the same address texts, with code of their own, and hand the result to the system.

  What the sources use of the standard library is defined here: \<open>str::trim\<close>, \<open>u32::from_str\<close>,
  \<open>SocketAddrV4::from_str\<close> and the limits of Unix socket names. The nix crate's address constructors, the
  system calls, the IPv6 parser of the standard library and the \<open>Debug\<close> text of a string are arguments.
\<close>

subsection \<open>Numbers, white space and IPv4 addresses as the standard library reads them\<close>

datatype int_error_kind = Empty | InvalidDigit | PosOverflow

fun parse_digits :: "nat \<Rightarrow> string \<Rightarrow> int_error_kind + nat" where
  "parse_digits acc [] = Ok acc"
| "parse_digits acc (c # cs) =
     (if \<not> is_digit c then Err InvalidDigit
      else if 10 * acc + digit_val c \<ge> 2 ^ 32 then Err PosOverflow
      else parse_digits (10 * acc + digit_val c) cs)"

definition parse_u32 :: "string \<Rightarrow> int_error_kind + u32" where
  "parse_u32 s =
     rbind (case s of
        [] \<Rightarrow> Err Empty
      | [c] \<Rightarrow> if c = CHR ''+'' \<or> c = CHR ''-'' then Err InvalidDigit else parse_digits 0 s
      | c # cs \<Rightarrow> if c = CHR ''+'' then parse_digits 0 cs else parse_digits 0 s) (\<lambda>n. Ok (of_nat n))"

fun debug_parse_int_error :: "int_error_kind \<Rightarrow> string" where
  "debug_parse_int_error Empty = ''ParseIntError { kind: Empty }''"
| "debug_parse_int_error InvalidDigit = ''ParseIntError { kind: InvalidDigit }''"
| "debug_parse_int_error PosOverflow = ''ParseIntError { kind: PosOverflow }''"

text \<open>The UTF-8 encodings of the characters with the property \<open>White_Space\<close>.\<close>

definition white_space :: "string list" where
  "white_space =
     map (map char_of) ([[9], [10], [11], [12], [13], [32], [194, 133], [194, 160], [225, 154, 128],
       [226, 128, 168], [226, 128, 169], [226, 128, 175], [226, 129, 159], [227, 128, 128]]
       @ map (\<lambda>n. [226, 128, n]) [128 ..< 139] :: nat list list)"

lemma white_space_nonempty: "w \<in> set white_space \<Longrightarrow> w \<noteq> []"
  by (auto simp: white_space_def)

function trim_prefixes :: "string list \<Rightarrow> string \<Rightarrow> string" where
  "trim_prefixes ws s =
     (case find (\<lambda>w. w \<noteq> [] \<and> strip_prefix w s \<noteq> None) ws of
        None \<Rightarrow> s
      | Some w \<Rightarrow> trim_prefixes ws (drop (length w) s))"
  by pat_completeness auto
termination
  by (relation "measure (\<lambda>(ws, s). length s)")
    (auto simp: find_Some_iff strip_prefix_Some)

declare trim_prefixes.simps [simp del]

definition trim :: "string \<Rightarrow> string" where
  "trim s = rev (trim_prefixes (map rev white_space) (rev (trim_prefixes white_space s)))"

text \<open>\<open>read_number(10, Some(3), false)\<close> and \<open>read_port\<close> of the address parser.\<close>

definition read_octet :: "string \<Rightarrow> (nat \<times> string) option" where
  "read_octet s =
     (let ds = takeWhile is_digit s
      in if ds = [] \<or> length ds > 3 \<or> read_digits ds > 255 \<or> (hd ds = CHR ''0'' \<and> length ds > 1) then None
         else Some (read_digits ds, drop (length ds) s))"

definition read_port :: "string \<Rightarrow> (nat \<times> string) option" where
  "read_port s =
     (case s of
        [] \<Rightarrow> None
      | c # cs \<Rightarrow>
          (let ds = takeWhile is_digit cs
           in if c \<noteq> CHR '':'' \<or> ds = [] \<or> read_digits ds > 65535 then None
              else Some (read_digits ds, drop (length ds) cs)))"

fun read_octets :: "nat \<Rightarrow> string \<Rightarrow> (nat list \<times> string) option" where
  "read_octets 0 s = Some ([], s)"
| "read_octets (Suc k) s =
     Option.bind (read_octet s) (\<lambda>(o1, s1).
       if k = 0 then Some ([o1], s1)
       else (case s1 of
               [] \<Rightarrow> None
             | c # s2 \<Rightarrow>
                 (if c \<noteq> CHR ''.'' then None
                  else map_option (\<lambda>(os, s3). (o1 # os, s3)) (read_octets k s2))))"

definition parse_v4 :: "string \<Rightarrow> (nat list \<times> nat) option" where
  "parse_v4 s =
     Option.bind (read_octets 4 s) (\<lambda>(ip, s1).
     Option.bind (read_port s1) (\<lambda>(port, s2). if s2 = [] then Some (ip, port) else None))"

subsection \<open>The blocking transport (common.rs)\<close>

datatype domain = DomainUnix | DomainTcp | DomainVsock

datatype 'v6 endpoint =
    UnixUnnamed
  | UnixPath string
  | UnixAbstract string
  | Vsock u32 u32
  | Inet4 "nat list" nat
  | Inet6 'v6

datatype sockopt = ReusePort | TcpNoDelay

text \<open>The constructors of the nix crate, and the system calls over the state of the system.\<close>

record 'v6 nix =
  nx_unix :: "string \<Rightarrow> int + 'v6 endpoint"
  nx_abstract :: "string \<Rightarrow> int + 'v6 endpoint"
  nx_sockaddr_in :: "string \<Rightarrow> string + 'v6 endpoint"

record ('v6, 's) os =
  os_socket :: "domain \<Rightarrow> 's \<Rightarrow> (int + fd) \<times> 's"
  os_setsockopt :: "fd \<Rightarrow> sockopt \<Rightarrow> 's \<Rightarrow> (int + unit) \<times> 's"
  os_bind :: "fd \<Rightarrow> 'v6 endpoint \<Rightarrow> 's \<Rightarrow> (int + unit) \<times> 's"
  os_connect :: "fd \<Rightarrow> 'v6 endpoint \<Rightarrow> 's \<Rightarrow> (int + unit) \<times> 's"
  os_set_nonblock :: "fd \<Rightarrow> 's \<Rightarrow> (int + unit) \<times> 's"
  os_listen :: "fd \<Rightarrow> int \<Rightarrow> 's \<Rightarrow> (int + unit) \<times> 's"

definition VMADDR_CID_ANY :: u32 where
  "VMADDR_CID_ANY = -1"

definition parse_sockaddr :: "(string \<Rightarrow> string) \<Rightarrow> string \<Rightarrow> error + domain \<times> string" where
  "parse_sockaddr dbg addr =
     (case strip_prefix ''unix://'' addr of
        Some a \<Rightarrow> Ok (DomainUnix, a)
      | None \<Rightarrow>
     (case strip_prefix ''vsock://'' addr of
        Some a \<Rightarrow> Ok (DomainVsock, a)
      | None \<Rightarrow>
     (case strip_prefix ''tcp://'' addr of
        Some a \<Rightarrow> Ok (DomainTcp, a)
      | None \<Rightarrow> Err (Others (''Scheme '' @ dbg addr @ '' is not supported'')))))"

definition make_addr :: "display \<Rightarrow> 'v6 nix \<Rightarrow> domain \<Rightarrow> string \<Rightarrow> error + 'v6 endpoint" where
  "make_addr d nx dm s =
     (if dm = DomainUnix then
        map_err (\<lambda>e. err_to_others [] (disp_nix d e))
          (case strip_prefix ''@'' s of Some a \<Rightarrow> nx_abstract nx a | None \<Rightarrow> nx_unix nx s)
      else Err (Others ''function make_addr does not support create vsock/tcp socket''))"

definition parse_vscok :: "(string \<Rightarrow> string) \<Rightarrow> string \<Rightarrow> error + u32 \<times> u32" where
  "parse_vscok dbg addr =
     (case split_on CHR '':'' addr of
        [c, p] \<Rightarrow>
          rbind (if trim c = ''-1'' then Ok VMADDR_CID_ANY
                 else map_err (\<lambda>e. Others (''failed to parse cid from '' @ dbg c @ '' error: '' @ debug_parse_int_error e))
                        (parse_u32 c)) (\<lambda>cid.
          rbind (map_err (\<lambda>e. Others (''failed to parse port from '' @ dbg p @ '' error: '' @ debug_parse_int_error e))
                   (parse_u32 p)) (\<lambda>port.
            Ok (cid, port)))
      | _ \<Rightarrow> Err (Others (''sockaddr '' @ addr @ '' is not right for vsock'')))"

definition make_socket ::
  "display \<Rightarrow> (string \<Rightarrow> string) \<Rightarrow> 'v6 nix \<Rightarrow> ('v6, 's) os \<Rightarrow> string \<Rightarrow> 's
    \<Rightarrow> (error + fd \<times> domain \<times> 'v6 endpoint) \<times> 's" where
  "make_socket d dbg nx os addr s =
     (let open_with = (\<lambda>dm (a :: error + 'v6 endpoint).
            case os_socket os dm s of
              (Inl e, s') \<Rightarrow> (Err (Socket (disp_nix d e)), s')
            | (Inr fd0, s') \<Rightarrow> (rbind a (\<lambda>ep. Ok (fd0, dm, ep)), s'))
      in case parse_sockaddr dbg addr of
           Inl e \<Rightarrow> (Err e, s)
         | Inr (dm, a) \<Rightarrow>
             (case dm of
                DomainUnix \<Rightarrow> open_with dm (make_addr d nx dm a)
              | DomainTcp \<Rightarrow> open_with dm (map_err (err_to_others []) (nx_sockaddr_in nx a))
              | DomainVsock \<Rightarrow>
                  (case parse_vscok dbg a of
                     Inl e \<Rightarrow> (Err e, s)
                   | Inr (cid, port) \<Rightarrow> open_with dm (Ok (Vsock cid port)))))"

definition eq_ignore_ascii_case :: "string \<Rightarrow> string \<Rightarrow> bool" where
  "eq_ignore_ascii_case a b \<longleftrightarrow> to_lowercase a = to_lowercase b"

text \<open>\<open>var\<close> is the environment's \<open>TTRPC_TCP_NODELAY_ENABLED\<close>, if it is set and Unicode.\<close>

definition tcp_nodelay_enabled :: "string option \<Rightarrow> bool" where
  "tcp_nodelay_enabled var =
     (case var of
        Some val \<Rightarrow>
          if val = ''1'' \<or> eq_ignore_ascii_case val ''true'' then True
          else if val = ''0'' \<or> eq_ignore_ascii_case val ''false'' then False
          else False
      | None \<Rightarrow> False)"

definition set_opt :: "('v6, 's) os \<Rightarrow> bool \<Rightarrow> fd \<Rightarrow> sockopt \<Rightarrow> 's \<Rightarrow> (error + unit) \<times> 's" where
  "set_opt os wanted fd0 opt s =
     (if wanted then (case os_setsockopt os fd0 opt s of (r, s') \<Rightarrow> (map_err Nix r, s')) else (Ok (), s))"

definition set_socket_opts ::
  "('v6, 's) os \<Rightarrow> string option \<Rightarrow> fd \<Rightarrow> domain \<Rightarrow> bool \<Rightarrow> 's \<Rightarrow> (error + unit) \<times> 's" where
  "set_socket_opts os var fd0 dm is_bind s =
     (if dm \<noteq> DomainTcp then (Ok (), s)
      else case set_opt os is_bind fd0 ReusePort s of
             (Inl e, s') \<Rightarrow> (Err e, s')
           | (Inr _, s') \<Rightarrow> set_opt os (tcp_nodelay_enabled var) fd0 TcpNoDelay s')"

definition do_bind ::
  "display \<Rightarrow> (string \<Rightarrow> string) \<Rightarrow> 'v6 nix \<Rightarrow> ('v6, 's) os \<Rightarrow> string option \<Rightarrow> string \<Rightarrow> 's
    \<Rightarrow> (error + fd \<times> domain) \<times> 's" where
  "do_bind d dbg nx os var addr s =
     (case make_socket d dbg nx os addr s of
        (Inl e, s1) \<Rightarrow> (Err e, s1)
      | (Inr (fd0, dm, ep), s1) \<Rightarrow>
          (case set_socket_opts os var fd0 dm True s1 of
             (Inl e, s2) \<Rightarrow> (Err e, s2)
           | (Inr _, s2) \<Rightarrow>
               (case os_bind os fd0 ep s2 of
                  (Inl e, s3) \<Rightarrow> (Err (err_to_others [] (disp_nix d e)), s3)
                | (Inr _, s3) \<Rightarrow> (Ok (fd0, dm), s3))))"

definition client_connect ::
  "display \<Rightarrow> (string \<Rightarrow> string) \<Rightarrow> 'v6 nix \<Rightarrow> ('v6, 's) os \<Rightarrow> string option \<Rightarrow> string \<Rightarrow> 's
    \<Rightarrow> (error + fd) \<times> 's" where
  "client_connect d dbg nx os var addr s =
     (case make_socket d dbg nx os addr s of
        (Inl e, s1) \<Rightarrow> (Err e, s1)
      | (Inr (fd0, dm, ep), s1) \<Rightarrow>
          (case set_socket_opts os var fd0 dm False s1 of
             (Inl e, s2) \<Rightarrow> (Err e, s2)
           | (Inr _, s2) \<Rightarrow>
               (case os_connect os fd0 ep s2 of
                  (Inl e, s3) \<Rightarrow> (Err (Nix e), s3)
                | (Inr _, s3) \<Rightarrow> (Ok fd0, s3))))"

definition do_listen :: "display \<Rightarrow> ('v6, 's) os \<Rightarrow> fd \<Rightarrow> 's \<Rightarrow> (error + unit) \<times> 's" where
  "do_listen d os fd0 s =
     (case os_set_nonblock os fd0 s of
        (Inl e, s') \<Rightarrow>
          (Err (Others (''failed to set listener fd: '' @ show_int fd0 @ '' as non block: '' @ disp_nix d e)), s')
      | (Inr _, s') \<Rightarrow>
          (case os_listen os fd0 10 s' of (r, s'') \<Rightarrow> (map_err (\<lambda>e. Socket (disp_nix d e)) r, s'')))"

subsection \<open>The asynchronous transport\<close>

text \<open>
  \<open>net_bind\<close> and \<open>net_connect\<close> are the constructors of the standard library and of tokio-vsock, which return
  an owned descriptor or an error; \<open>net_drop\<close> is what dropping such an owner does.
\<close>

record ('v6, 's) net =
  net_bind :: "'v6 endpoint \<Rightarrow> 's \<Rightarrow> (io_error + fd) \<times> 's"
  net_connect :: "'v6 endpoint \<Rightarrow> 's \<Rightarrow> (io_error + fd) \<times> 's"
  net_set_nonblocking :: "fd \<Rightarrow> 's \<Rightarrow> (io_error + unit) \<times> 's"
  net_from_std :: "fd \<Rightarrow> 's \<Rightarrow> (io_error + unit) \<times> 's"
  net_drop :: "fd \<Rightarrow> 's \<Rightarrow> 's"

definition SUN_PATH_LEN :: nat where
  "SUN_PATH_LEN = 108"

text \<open>The empty path is the unnamed address to the standard library.\<close>

definition from_pathname :: "string \<Rightarrow> io_error + 'v6 endpoint" where
  "from_pathname p =
     (if CHR 0x00 \<in> set p then Err (OtherError ''paths must not contain interior null bytes'')
      else if length p \<ge> SUN_PATH_LEN then Err (OtherError ''path must be shorter than SUN_LEN'')
      else Ok (if p = [] then UnixUnnamed else UnixPath p))"

definition from_abstract_name :: "string \<Rightarrow> io_error + 'v6 endpoint" where
  "from_abstract_name n =
     (if length n + 1 > SUN_PATH_LEN then Err (OtherError ''abstract socket name must be shorter than SUN_LEN'')
      else Ok (UnixAbstract n))"

definition parse_unix_addr :: "string \<Rightarrow> io_error + 'v6 endpoint" where
  "parse_unix_addr addr =
     (case strip_prefix ''@'' addr of
        Some a \<Rightarrow> from_abstract_name a
      | None \<Rightarrow> from_pathname addr)"

text \<open>\<open>SocketAddr::from_str\<close> tries IPv4 first; \<open>p6\<close> reads the other form.\<close>

definition parse_tcp_addr :: "(string \<Rightarrow> 'v6 option) \<Rightarrow> string \<Rightarrow> io_error + 'v6 endpoint" where
  "parse_tcp_addr p6 addr =
     (case parse_v4 addr of
        Some (ip, port) \<Rightarrow> Ok (Inet4 ip port)
      | None \<Rightarrow>
          (case p6 addr of
             Some a \<Rightarrow> Ok (Inet6 a)
           | None \<Rightarrow> Err (OtherError (''Failed to parse TCP address '' @ [CHR 0x27] @ addr @ [CHR 0x27] @ '': invalid socket address syntax''))))"

definition parse_vsock_addr :: "(string \<Rightarrow> string) \<Rightarrow> string \<Rightarrow> io_error + 'v6 endpoint" where
  "parse_vsock_addr dbg addr =
     (case split_on CHR '':'' addr of
        [c, p] \<Rightarrow>
          rbind (if trim c = ''-1'' then Ok VMADDR_CID_ANY
                 else map_err (\<lambda>e. OtherError (''failed to parse cid from '' @ dbg c @ '' error: '' @ debug_parse_int_error e))
                        (parse_u32 c)) (\<lambda>cid.
          rbind (map_err (\<lambda>e. OtherError (''failed to parse port from '' @ dbg p @ '' error: '' @ debug_parse_int_error e))
                   (parse_u32 p)) (\<lambda>port.
            Ok (Vsock cid port)))
      | _ \<Rightarrow> Err (OtherError (''sockaddr '' @ addr @ '' is not right for vsock'')))"

text \<open>\<open>TryFrom\<close> for listeners and sockets of the standard library: the owner is dropped on failure.\<close>

definition net_try_from :: "('v6, 's) net \<Rightarrow> fd \<Rightarrow> 's \<Rightarrow> (io_error + fd) \<times> 's" where
  "net_try_from net fd0 s =
     (case net_set_nonblocking net fd0 s of
        (Inl e, s1) \<Rightarrow> (Err e, net_drop net fd0 s1)
      | (Inr _, s1) \<Rightarrow>
          (case net_from_std net fd0 s1 of
             (Inl e, s2) \<Rightarrow> (Err e, net_drop net fd0 s2)
           | (Inr _, s2) \<Rightarrow> (Ok fd0, s2)))"

definition with_endpoint ::
  "('v6 endpoint \<Rightarrow> 's \<Rightarrow> (io_error + fd) \<times> 's) \<Rightarrow> (fd \<Rightarrow> 's \<Rightarrow> (io_error + fd) \<times> 's)
    \<Rightarrow> io_error + 'v6 endpoint \<Rightarrow> 's \<Rightarrow> (io_error + fd) \<times> 's" where
  "with_endpoint ctor conv parsed s =
     (case parsed of
        Inl e \<Rightarrow> (Err e, s)
      | Inr ep \<Rightarrow> (case ctor ep s of (Inl e, s') \<Rightarrow> (Err e, s') | (Inr fd0, s') \<Rightarrow> conv fd0 s'))"

definition bind_unix :: "('v6, 's) net \<Rightarrow> string \<Rightarrow> 's \<Rightarrow> (io_error + fd) \<times> 's" where
  "bind_unix net a = with_endpoint (net_bind net) (net_try_from net) (parse_unix_addr a)"

definition bind_tcp :: "(string \<Rightarrow> 'v6 option) \<Rightarrow> ('v6, 's) net \<Rightarrow> string \<Rightarrow> 's \<Rightarrow> (io_error + fd) \<times> 's" where
  "bind_tcp p6 net a = with_endpoint (net_bind net) (net_try_from net) (parse_tcp_addr p6 a)"

definition bind_vsock :: "(string \<Rightarrow> string) \<Rightarrow> ('v6, 's) net \<Rightarrow> string \<Rightarrow> 's \<Rightarrow> (io_error + fd) \<times> 's" where
  "bind_vsock dbg net a = with_endpoint (net_bind net) (\<lambda>fd0 s. (Ok fd0, s)) (parse_vsock_addr dbg a)"

definition connect_unix :: "('v6, 's) net \<Rightarrow> string \<Rightarrow> 's \<Rightarrow> (io_error + fd) \<times> 's" where
  "connect_unix net a = with_endpoint (net_connect net) (net_try_from net) (parse_unix_addr a)"

definition connect_tcp :: "(string \<Rightarrow> 'v6 option) \<Rightarrow> ('v6, 's) net \<Rightarrow> string \<Rightarrow> 's \<Rightarrow> (io_error + fd) \<times> 's" where
  "connect_tcp p6 net a = with_endpoint (net_connect net) (net_try_from net) (parse_tcp_addr p6 a)"

definition connect_vsock :: "(string \<Rightarrow> string) \<Rightarrow> ('v6, 's) net \<Rightarrow> string \<Rightarrow> 's \<Rightarrow> (io_error + fd) \<times> 's" where
  "connect_vsock dbg net a = with_endpoint (net_connect net) (\<lambda>fd0 s. (Ok fd0, s)) (parse_vsock_addr dbg a)"

definition listener_bind ::
  "(string \<Rightarrow> string) \<Rightarrow> (string \<Rightarrow> 'v6 option) \<Rightarrow> ('v6, 's) net \<Rightarrow> string \<Rightarrow> 's \<Rightarrow> (io_error + fd) \<times> 's" where
  "listener_bind dbg p6 net addr s =
     (case strip_prefix ''unix://'' addr of
        Some a \<Rightarrow> bind_unix net a s
      | None \<Rightarrow>
     (case strip_prefix ''tcp://'' addr of
        Some a \<Rightarrow> bind_tcp p6 net a s
      | None \<Rightarrow>
     (case strip_prefix ''vsock://'' addr of
        Some a \<Rightarrow> bind_vsock dbg net a s
      | None \<Rightarrow> (Err (OtherError (''Scheme of '' @ dbg addr @ '' is not supported'')), s))))"

definition socket_connect ::
  "(string \<Rightarrow> string) \<Rightarrow> (string \<Rightarrow> 'v6 option) \<Rightarrow> ('v6, 's) net \<Rightarrow> string \<Rightarrow> 's \<Rightarrow> (io_error + fd) \<times> 's" where
  "socket_connect dbg p6 net addr s =
     (case strip_prefix ''unix://'' addr of
        Some a \<Rightarrow> connect_unix net a s
      | None \<Rightarrow>
     (case strip_prefix ''tcp://'' addr of
        Some a \<Rightarrow> connect_tcp p6 net a s
      | None \<Rightarrow>
     (case strip_prefix ''vsock://'' addr of
        Some a \<Rightarrow> connect_vsock dbg net a s
      | None \<Rightarrow> (Err (OtherError (''Scheme of '' @ dbg addr @ '' is not supported'')), s))))"

text \<open>
  A \<open>Socket\<close> is its descriptor, if known: \<open>from_fd_aware\<close> keeps it for the built-in transports, \<open>Socket::new\<close>
  has none for a transport of the application's own. A listener yields one item per accept.
\<close>

record socket =
  raw_fd :: "fd option"

definition socket_new :: socket where
  "socket_new = \<lparr>raw_fd = None\<rparr>"

definition from_fd_aware :: "fd \<Rightarrow> socket" where
  "from_fd_aware fd0 = \<lparr>raw_fd = Some fd0\<rparr>"

definition listener_item :: "io_error + fd \<Rightarrow> io_error + socket" where
  "listener_item accepted = rbind accepted (\<lambda>fd0. Ok (from_fd_aware fd0))"

definition custom_listener_item :: "io_error + unit \<Rightarrow> io_error + socket" where
  "custom_listener_item accepted = rbind accepted (\<lambda>_. Ok socket_new)"

subsection \<open>Numbers\<close>

lemma foldl_digits_le: "a \<le> foldl (\<lambda>acc c. 10 * acc + digit_val c) a cs"
proof (induction cs arbitrary: a)
  case (Cons c cs)
  have "a \<le> 10 * a + digit_val c" by simp
  also have "\<dots> \<le> foldl (\<lambda>acc c. 10 * acc + digit_val c) (10 * a + digit_val c) cs" by (rule Cons)
  finally show ?case by simp
qed simp

lemma parse_digits_Ok:
  "acc < 2 ^ 32 \<Longrightarrow> parse_digits acc cs = Ok n \<longleftrightarrow>
     (\<forall>c \<in> set cs. is_digit c) \<and> n < 2 ^ 32 \<and> n = foldl (\<lambda>acc c. 10 * acc + digit_val c) acc cs"
proof (induction acc cs rule: parse_digits.induct)
  case (2 acc c cs)
  have "\<not> foldl (\<lambda>acc c. 10 * acc + digit_val c) (10 * acc + digit_val c) cs < 2 ^ 32"
    if "\<not> 10 * acc + digit_val c < 2 ^ 32"
    using foldl_digits_le [of "10 * acc + digit_val c" cs] that by linarith
  with 2 show ?case by (auto simp: not_le)
qed auto

text \<open>What \<open>u32::from_str\<close> accepts: decimal digits after an optional plus sign, with a value that fits.\<close>

definition decimal_u32 :: "string \<Rightarrow> u32 \<Rightarrow> bool" where
  "decimal_u32 s w \<longleftrightarrow>
     (\<exists>ds. (s = ds \<or> s = CHR ''+'' # ds) \<and> ds \<noteq> [] \<and> (\<forall>c \<in> set ds. is_digit c) \<and> read_digits ds < 2 ^ 32
        \<and> w = of_nat (read_digits ds))"

lemma not_digit_sign [simp]: "\<not> is_digit CHR ''+''" "\<not> is_digit CHR ''-''" "\<not> is_digit CHR '':''" "\<not> is_digit CHR ''.''"
  by (simp_all add: is_digit_def)

lemma decimal_u32_plus:
  "decimal_u32 (CHR ''+'' # cs) w \<longleftrightarrow> cs \<noteq> [] \<and> (\<forall>c \<in> set cs. is_digit c) \<and> read_digits cs < 2 ^ 32
     \<and> w = of_nat (read_digits cs)"
  by (auto simp: decimal_u32_def)

lemma decimal_u32_plain:
  "c \<noteq> CHR ''+'' \<Longrightarrow> decimal_u32 (c # cs) w \<longleftrightarrow> (\<forall>x \<in> set (c # cs). is_digit x) \<and> read_digits (c # cs) < 2 ^ 32
     \<and> w = of_nat (read_digits (c # cs))"
  by (auto simp: decimal_u32_def)

lemma parse_u32_iff: "parse_u32 s = Ok w \<longleftrightarrow> decimal_u32 s w"
proof (cases s)
  case Nil
  then show ?thesis by (simp add: parse_u32_def decimal_u32_def)
next
  case (Cons c cs)
  have start: "parse_digits 0 xs = Ok n \<longleftrightarrow> (\<forall>x \<in> set xs. is_digit x) \<and> n < 2 ^ 32 \<and> n = read_digits xs" for xs n
    by (simp add: parse_digits_Ok read_digits_def)
  have "parse_u32 s = Ok w \<longleftrightarrow> (\<exists>n. (if c = CHR ''+'' then cs \<noteq> [] \<and> parse_digits 0 cs = Ok n else parse_digits 0 s = Ok n) \<and> w = of_nat n)"
    using Cons by (auto simp: parse_u32_def rbind_Ok_iff start simp del: parse_digits.simps split: list.splits)
  also have "\<dots> \<longleftrightarrow> decimal_u32 s w"
    unfolding start Cons by (cases "c = CHR ''+''") (auto simp: decimal_u32_plus decimal_u32_plain)
  finally show ?thesis .
qed

lemma parse_show_u32: "parse_u32 (show_nat (unat w)) = Ok (w :: u32)"
proof -
  have "unat w < 2 ^ 32" using unsigned_less [of w] by simp
  then show ?thesis
    unfolding parse_u32_iff decimal_u32_def
    by (intro exI [of _ "show_nat (unat w)"]) (simp add: show_nat_nonempty show_nat_digits read_show_nat)
qed

lemma show_nat_no_sep: "CHR '':'' \<notin> set (show_nat n)"
  using show_nat_digits [of n] not_digit_sign(3) by blast

lemma trim_start_kept: "s = [] \<or> (\<forall>w \<in> set ws. w \<noteq> [] \<longrightarrow> hd w \<noteq> hd s) \<Longrightarrow> trim_prefixes ws s = s"
proof -
  assume "s = [] \<or> (\<forall>w \<in> set ws. w \<noteq> [] \<longrightarrow> hd w \<noteq> hd s)"
  then have "find (\<lambda>w. w \<noteq> [] \<and> strip_prefix w s \<noteq> None) ws = None"
    by (auto simp: find_None_iff strip_prefix_Some)
  then show ?thesis by (simp add: trim_prefixes.simps [of ws s])
qed

lemma white_space_chars: "w \<in> set white_space \<Longrightarrow> c \<in> set w \<Longrightarrow> of_char c \<le> (32 :: nat) \<or> 128 \<le> (of_char c :: nat)"
  by (auto simp: white_space_def)

text \<open>\<open>trim\<close> leaves a text of visible ASCII characters alone.\<close>

lemma trim_visible:
  assumes "\<forall>c \<in> set s. 32 < (of_char c :: nat) \<and> (of_char c :: nat) < 128"
  shows "trim s = s"
proof -
  have other: "w \<in> set white_space \<Longrightarrow> c \<in> set w \<Longrightarrow> c \<notin> set s" for w c
    using white_space_chars [of w c] assms by force
  have "trim_prefixes white_space s = s"
    by (rule trim_start_kept) (metis hd_in_set other)
  moreover have "trim_prefixes (map rev white_space) (rev s) = rev s"
  proof (rule trim_start_kept)
    show "rev s = [] \<or> (\<forall>w \<in> set (map rev white_space). w \<noteq> [] \<longrightarrow> hd w \<noteq> hd (rev s))"
    proof (cases "s = []")
      case False
      have "hd (rev w) \<noteq> hd (rev s)" if "w \<in> set white_space" "w \<noteq> []" for w
        using other [OF that(1), of "hd (rev w)"] False that(2) by (metis hd_in_set rev_is_Nil_conv set_rev)
      then show ?thesis by auto
    qed simp
  qed
  ultimately show ?thesis by (simp add: trim_def)
qed

lemma trim_show_nat: "trim (show_nat n) = show_nat n"
  by (rule trim_visible) (use show_nat_digits [of n] in \<open>force simp: is_digit_def\<close>)

lemma show_nat_not_dash: "show_nat n \<noteq> CHR ''-'' # s"
  using show_nat_digits [of n] not_digit_sign(2) by (metis list.set_intros(1))

subsection \<open>Both transports read an address alike\<close>

text \<open>The crate's description of vsock addresses, \<open>CID:PORT\<close> with the CID \<open>-1\<close> for any.\<close>

definition vsock_text :: "string \<Rightarrow> u32 \<Rightarrow> u32 \<Rightarrow> bool" where
  "vsock_text a cid port \<longleftrightarrow>
     (\<exists>c p. a = c @ CHR '':'' # p \<and> CHR '':'' \<notin> set c \<and> CHR '':'' \<notin> set p
        \<and> (if trim c = ''-1'' then cid = VMADDR_CID_ANY else decimal_u32 c cid) \<and> decimal_u32 p port)"

lemma split_two: "split_on x s = [c, p] \<longleftrightarrow> s = c @ x # p \<and> x \<notin> set c \<and> x \<notin> set p"
proof
  assume split: "split_on x s = [c, p]"
  have "x \<in> set s" using split split_on_no_sep [of x s] by auto
  then obtain u v where s: "s = u @ x # v" "x \<notin> set u" using split_list_first by fastforce
  then have "split_on x s = u # split_on x v" by (simp add: split_on_append)
  with split have uv: "u = c" "split_on x v = [p]" by auto
  have "count_list v x = 0" using uv(2) length_split_on [of x v] by simp
  then have "x \<notin> set v" by (simp add: count_list_0_iff)
  then show "s = c @ x # p \<and> x \<notin> set c \<and> x \<notin> set p"
    using s uv split_on_no_sep by fastforce
qed (auto simp: split_on_append split_on_no_sep)

lemma parse_vscok_iff: "parse_vscok dbg a = Ok (cid, port) \<longleftrightarrow> vsock_text a cid port"
proof -
  have "parse_vscok dbg a = Ok (cid, port) \<longleftrightarrow> (\<exists>c p. split_on CHR '':'' a = [c, p]
      \<and> (if trim c = ''-1'' then cid = VMADDR_CID_ANY else parse_u32 c = Ok cid) \<and> parse_u32 p = Ok port)"
    by (auto simp: parse_vscok_def rbind_Ok_iff split: list.splits if_splits)
  then show ?thesis by (simp add: split_two parse_u32_iff vsock_text_def)
qed

lemma parse_vsock_addr_iff: "parse_vsock_addr dbg a = Ok ep \<longleftrightarrow> (\<exists>cid port. ep = Vsock cid port \<and> vsock_text a cid port)"
proof -
  have "parse_vsock_addr dbg a = Ok ep \<longleftrightarrow> (\<exists>c p cid port. split_on CHR '':'' a = [c, p] \<and> ep = Vsock cid port
      \<and> (if trim c = ''-1'' then cid = VMADDR_CID_ANY else parse_u32 c = Ok cid) \<and> parse_u32 p = Ok port)"
    by (auto simp: parse_vsock_addr_def rbind_Ok_iff split: list.splits if_splits)
  also have "\<dots> \<longleftrightarrow> (\<exists>cid port. ep = Vsock cid port \<and> vsock_text a cid port)"
    unfolding split_two parse_u32_iff vsock_text_def by blast
  finally show ?thesis .
qed

lemma vsock_text_show:
  "vsock_text (show_nat (unat cid) @ CHR '':'' # show_nat (unat port)) cid port"
  unfolding vsock_text_def
proof (intro exI conjI)
  show "CHR '':'' \<notin> set (show_nat (unat cid))" "CHR '':'' \<notin> set (show_nat (unat port))"
    by (rule show_nat_no_sep)+
qed (simp_all flip: parse_u32_iff add: parse_show_u32 trim_show_nat show_nat_not_dash)

text \<open>The endpoint an address means to the asynchronous transport.\<close>

definition async_endpoint :: "(string \<Rightarrow> string) \<Rightarrow> (string \<Rightarrow> 'v6 option) \<Rightarrow> string \<Rightarrow> io_error + 'v6 endpoint" where
  "async_endpoint dbg p6 addr =
     (case (strip_prefix ''unix://'' addr, strip_prefix ''tcp://'' addr, strip_prefix ''vsock://'' addr) of
        (Some a, _, _) \<Rightarrow> parse_unix_addr a
      | (None, Some a, _) \<Rightarrow> parse_tcp_addr p6 a
      | (None, None, Some a) \<Rightarrow> parse_vsock_addr dbg a
      | (None, None, None) \<Rightarrow> Err (OtherError (''Scheme of '' @ dbg addr @ '' is not supported'')))"

definition async_conv :: "('v6, 's) net \<Rightarrow> string \<Rightarrow> fd \<Rightarrow> 's \<Rightarrow> (io_error + fd) \<times> 's" where
  "async_conv net addr =
     (if strip_prefix ''vsock://'' addr = None then net_try_from net else (\<lambda>fd0 s. (Ok fd0, s)))"

text \<open>A text has at most one of the three schemes.\<close>

lemma schemes_disjoint:
  "strip_prefix ''unix://'' a = Some r \<Longrightarrow> strip_prefix ''tcp://'' a = None \<and> strip_prefix ''vsock://'' a = None"
  "strip_prefix ''tcp://'' a = Some r \<Longrightarrow> strip_prefix ''unix://'' a = None \<and> strip_prefix ''vsock://'' a = None"
  by (auto simp: strip_prefix_Some strip_prefix_None)

lemma async_uses_endpoint:
  "listener_bind dbg p6 net a s = with_endpoint (net_bind net) (async_conv net a) (async_endpoint dbg p6 a) s"
  "socket_connect dbg p6 net a s = with_endpoint (net_connect net) (async_conv net a) (async_endpoint dbg p6 a) s"
  by (auto simp: listener_bind_def socket_connect_def bind_unix_def bind_tcp_def bind_vsock_def connect_unix_def
      connect_tcp_def connect_vsock_def async_endpoint_def async_conv_def with_endpoint_def
      dest: schemes_disjoint split: option.splits)

text \<open>
  What the nix crate documents of its address constructors: the limits of \<open>sockaddr_un\<close>, and IPv4 as \<open>SocketAddrV4\<close> reads it. It counts
  the terminating zero byte into the length of a path, so that of the empty path only this byte is left, the empty abstract name.
\<close>

definition nix_names :: "'v6 nix \<Rightarrow> bool" where
  "nix_names nx \<longleftrightarrow>
     (\<forall>p ep. nx_unix nx p = Ok ep \<longleftrightarrow> CHR 0x00 \<notin> set p \<and> length p < SUN_PATH_LEN
        \<and> ep = (if p = [] then UnixAbstract [] else UnixPath p))
     \<and> (\<forall>n ep. nx_abstract nx n = Ok ep \<longleftrightarrow> length n < SUN_PATH_LEN \<and> ep = UnixAbstract n)
     \<and> (\<forall>a ep. nx_sockaddr_in nx a = Ok ep \<longleftrightarrow> (\<exists>ip port. parse_v4 a = Some (ip, port) \<and> ep = Inet4 ip port))"

text \<open>The endpoint an address means to the blocking transport.\<close>

definition sync_endpoint :: "display \<Rightarrow> (string \<Rightarrow> string) \<Rightarrow> 'v6 nix \<Rightarrow> string \<Rightarrow> error + domain \<times> 'v6 endpoint" where
  "sync_endpoint d dbg nx addr =
     rbind (parse_sockaddr dbg addr) (\<lambda>(dm, a). rbind
       (case dm of
          DomainUnix \<Rightarrow> make_addr d nx dm a
        | DomainTcp \<Rightarrow> map_err (err_to_others []) (nx_sockaddr_in nx a)
        | DomainVsock \<Rightarrow> rbind (parse_vscok dbg a) (\<lambda>(cid, port). Ok (Vsock cid port)))
       (\<lambda>ep. Ok (dm, ep)))"

lemma make_socket_endpoint:
  assumes "\<And>dm s. os_socket os dm s = (Ok fd0, s)"
  shows "fst (make_socket d dbg nx os a s) = rbind (sync_endpoint d dbg nx a) (\<lambda>(dm, ep). Ok (fd0, dm, ep))"
  by (auto simp: make_socket_def sync_endpoint_def rbind_assoc assms Let_def split: sum.splits domain.splits)

lemma parse_unix_agrees:
  assumes "nix_names nx"
  shows "a \<noteq> [] \<Longrightarrow> make_addr d nx DomainUnix a = Ok ep \<longleftrightarrow> parse_unix_addr a = Ok ep"
    and "make_addr d nx DomainUnix [] = Ok (UnixAbstract [])" and "parse_unix_addr [] = Ok UnixUnnamed"
proof -
  have nx: "nx_unix nx p = Ok ep \<longleftrightarrow> CHR 0x00 \<notin> set p \<and> length p < SUN_PATH_LEN \<and> ep = (if p = [] then UnixAbstract [] else UnixPath p)"
      "nx_abstract nx n = Ok ep \<longleftrightarrow> length n < SUN_PATH_LEN \<and> ep = UnixAbstract n" for p n ep
    using assms by (simp_all add: nix_names_def)
  show "make_addr d nx DomainUnix a = Ok ep \<longleftrightarrow> parse_unix_addr a = Ok ep" if "a \<noteq> []"
    using that nx
    by (cases "strip_prefix ''@'' a") (auto simp: make_addr_def parse_unix_addr_def from_pathname_def from_abstract_name_def SUN_PATH_LEN_def)
  have "nx_unix nx [] = Ok (UnixAbstract [])" using nx(1) [of "[]"] by (simp add: SUN_PATH_LEN_def)
  then show "make_addr d nx DomainUnix [] = Ok (UnixAbstract [])" by (simp add: make_addr_def)
  show "parse_unix_addr [] = Ok UnixUnnamed" by (simp add: parse_unix_addr_def from_pathname_def SUN_PATH_LEN_def)
qed

lemma parse_sockaddr_Ok:
  "parse_sockaddr dbg a = Ok (dm, r) \<longleftrightarrow>
     (dm = DomainUnix \<and> strip_prefix ''unix://'' a = Some r) \<or> (dm = DomainTcp \<and> strip_prefix ''tcp://'' a = Some r)
     \<or> (dm = DomainVsock \<and> strip_prefix ''vsock://'' a = Some r)"
  using schemes_disjoint [of a] by (auto simp: parse_sockaddr_def split: option.splits)

lemma async_endpoint_Ok:
  "async_endpoint dbg p6 a = Ok ep \<longleftrightarrow>
     (\<exists>dm r. parse_sockaddr dbg a = Ok (dm, r) \<and>
        (case dm of DomainUnix \<Rightarrow> parse_unix_addr r | DomainTcp \<Rightarrow> parse_tcp_addr p6 r
                  | DomainVsock \<Rightarrow> parse_vsock_addr dbg r) = Ok ep)"
  using schemes_disjoint [of a]
  by (auto simp: parse_sockaddr_Ok async_endpoint_def split: option.splits)

lemma parse_tcp_agrees:
  assumes "nix_names nx"
  shows "nx_sockaddr_in nx r = Ok ep \<longleftrightarrow> parse_tcp_addr p6 r = Ok ep \<and> (\<forall>v. ep \<noteq> Inet6 v)"
  using assms by (auto simp: nix_names_def parse_tcp_addr_def split: option.splits)

lemma endpoint_agrees:
  assumes "nix_names nx" and "parse_sockaddr dbg a = Ok (dm, r)" and "a \<noteq> ''unix://''"
  shows "(\<exists>dm'. sync_endpoint d dbg nx a = Ok (dm', ep)) \<longleftrightarrow> async_endpoint dbg p6 a = Ok ep \<and> (\<forall>v. ep \<noteq> Inet6 v)"
proof (cases dm)
  case DomainUnix
  have "parse_unix_addr r = Ok ep \<Longrightarrow> ep \<noteq> Inet6 v" for v
    by (auto simp: parse_unix_addr_def from_pathname_def from_abstract_name_def split: option.splits if_splits)
  moreover have "r \<noteq> []" using DomainUnix assms(2,3) by (auto simp: parse_sockaddr_Ok strip_prefix_Some)
  ultimately show ?thesis
    using DomainUnix assms(1,2) by (auto simp: sync_endpoint_def rbind_Ok_iff async_endpoint_Ok parse_unix_agrees(1))
next
  case DomainTcp
  with assms show ?thesis
    by (auto simp: sync_endpoint_def rbind_Ok_iff async_endpoint_Ok parse_tcp_agrees [of nx, where ?p6.0 = p6])
next
  case DomainVsock
  with assms show ?thesis
    by (auto simp: sync_endpoint_def rbind_Ok_iff async_endpoint_Ok parse_vscok_iff parse_vsock_addr_iff)
qed

text \<open>
  C28: The blocking and the asynchronous transport, with parsers of their own, agree on what an
  address means: over an nix crate that keeps its documented limits and a system that has a descriptor left,
  the blocking transport gets an endpoint from an address exactly when the asynchronous one does
  and it is not an IPv6 one, and then both get the same. The one exception is the empty socket path, which is the empty abstract name to
  the blocking transport and no name to the asynchronous one. That endpoint is what the asynchronous
  listener binds and the asynchronous socket connects to. In particular both read every pair of
  32-bit numbers written as a vsock address back.
\<close>

theorem addresses_agree:
  assumes "nix_names nx" and "\<And>dm s. os_socket os dm s = (Ok fd0, s)"
  shows "(a \<noteq> ''unix://'' \<longrightarrow> ((\<exists>dm. fst (make_socket d dbg nx os a s) = Ok (fd0, dm, ep)) \<longleftrightarrow>
        async_endpoint dbg p6 a = Ok ep \<and> (\<forall>v. ep \<noteq> Inet6 v)))
    \<and> fst (make_socket d dbg nx os ''unix://'' s) = Ok (fd0, DomainUnix, UnixAbstract [])
    \<and> async_endpoint dbg p6 ''unix://'' = Ok UnixUnnamed
    \<and> listener_bind dbg p6 net a t = with_endpoint (net_bind net) (async_conv net a) (async_endpoint dbg p6 a) t
    \<and> socket_connect dbg p6 net a t = with_endpoint (net_connect net) (async_conv net a) (async_endpoint dbg p6 a) t
    \<and> async_endpoint dbg p6 (''vsock://'' @ show_nat (unat cid) @ CHR '':'' # show_nat (unat port)) = Ok (Vsock cid port)"
proof -
  have "(\<exists>dm. fst (make_socket d dbg nx os a s) = Ok (fd0, dm, ep)) \<longleftrightarrow> (\<exists>dm. sync_endpoint d dbg nx a = Ok (dm, ep))"
    unfolding make_socket_endpoint [of os, OF assms(2)] by (auto simp: rbind_Ok_iff)
  moreover have "sync_endpoint d dbg nx ''unix://'' = Ok (DomainUnix, UnixAbstract [])" "async_endpoint dbg p6 ''unix://'' = Ok UnixUnnamed"
    using parse_unix_agrees(2,3) [OF assms(1)] by (simp_all add: sync_endpoint_def parse_sockaddr_def async_endpoint_def)
  moreover have "(\<exists>dm. sync_endpoint d dbg nx a = Ok (dm, ep)) \<longleftrightarrow> async_endpoint dbg p6 a = Ok ep \<and> (\<forall>v. ep \<noteq> Inet6 v)" if "a \<noteq> ''unix://''"
  proof (cases "parse_sockaddr dbg a")
    case (Inl e)
    then show ?thesis by (simp add: sync_endpoint_def async_endpoint_Ok)
  next
    case (Inr x)
    with endpoint_agrees [OF assms(1) _ that] show ?thesis by (cases x) blast
  qed
  moreover have "async_endpoint dbg p6 (''vsock://'' @ show_nat (unat cid) @ CHR '':'' # show_nat (unat port)) = Ok (Vsock cid port)"
    unfolding async_endpoint_Ok parse_sockaddr_Ok
    by (intro exI [of _ DomainVsock] exI [of _ "show_nat (unat cid) @ CHR '':'' # show_nat (unat port)"])
      (simp add: parse_vsock_addr_iff vsock_text_show)
  ultimately show ?thesis by (simp add: async_uses_endpoint make_socket_endpoint [of os, OF assms(2)])
qed

definition linux_nix :: "unit nix" where
  "linux_nix =
     \<lparr>nx_unix = (\<lambda>p. if CHR 0x00 \<in> set p then Err 22 else if length p \<ge> 108 then Err 36
        else Ok (if p = [] then UnixAbstract [] else UnixPath p)),
      nx_abstract = (\<lambda>n. if length n \<ge> 108 then Err 36 else Ok (UnixAbstract n)),
      nx_sockaddr_in = (\<lambda>a. case parse_v4 a of
         Some (ip, port) \<Rightarrow> Ok (Inet4 ip port) | None \<Rightarrow> Err ''invalid IPv4 socket address syntax'')\<rparr>"

lemma linux_nix_names: "nix_names linux_nix"
  by (auto simp: nix_names_def linux_nix_def SUN_PATH_LEN_def split: option.splits)

text \<open>A system whose state is the list of open descriptors: a new one is one more than any open one, and nothing can be reached.\<close>

definition lone_os :: "(unit, fd list) os" where
  "lone_os =
     \<lparr>os_socket = (\<lambda>dm s. (Ok (foldr max s 2 + 1), (foldr max s 2 + 1) # s)), os_setsockopt = (\<lambda>fd0 opt s. (Ok (), s)),
      os_bind = (\<lambda>fd0 ep s. (Ok (), s)), os_connect = (\<lambda>fd0 ep s. (Err 111, s)),
      os_set_nonblock = (\<lambda>fd0 s. (Ok (), s)), os_listen = (\<lambda>fd0 n s. (Ok (), s))\<rparr>"

definition lone_net :: "(unit, fd list) net" where
  "lone_net =
     \<lparr>net_bind = (\<lambda>ep s. (Err (OsError 98), s)), net_connect = (\<lambda>ep s. (Err (OsError 111), s)),
      net_set_nonblocking = (\<lambda>fd0 s. (Ok (), s)), net_from_std = (\<lambda>fd0 s. (Ok (), s)),
      net_drop = (\<lambda>fd0 s. removeAll fd0 s)\<rparr>"

theorem addresses_agree_witness:
  "\<exists>dm. fst (make_socket plain_display id linux_nix (lone_os\<lparr>os_socket := \<lambda>dm s. (Ok 3, s)\<rparr>)
     ''tcp://127.0.0.1:65500'' []) = Ok (3, dm, Inet4 [127, 0, 0, 1] 65500)"
proof -
  have four: "read_octets 4 = read_octets (Suc (Suc (Suc (Suc 0))))" by (simp add: eval_nat_numeral)
  have "parse_v4 ''127.0.0.1:65500'' = Some ([127, 0, 0, 1], 65500)"
    by (simp add: parse_v4_def four read_octet_def read_port_def is_digit_def digit_val_def read_digits_def)
  then have "async_endpoint id (\<lambda>_. None) ''tcp://127.0.0.1:65500'' = Ok (Inet4 [127, 0, 0, 1] 65500 :: unit endpoint)"
    by (simp add: async_endpoint_def parse_tcp_addr_def)
  with addresses_agree [OF linux_nix_names, where os = "lone_os\<lparr>os_socket := \<lambda>dm s. (Ok 3, s)\<rparr>"
      and a = "''tcp://127.0.0.1:65500''" and dbg = id and ?p6.0 = "\<lambda>_. None" and d = plain_display and s = "[]"
      and ep = "Inet4 [127, 0, 0, 1] 65500" and ?fd0.0 = 3 and net = lone_net and t = "[]" and cid = 0 and port = 0]
  show ?thesis by simp
qed

subsection \<open>Descriptors of failed calls\<close>

text \<open>
  The contract of the calls on the table of open descriptors: a successful constructor adds a fresh
  descriptor and a failed one nothing, dropping an owner closes its descriptor, and no other call changes the table.
\<close>

definition fresh_fd :: "('s \<Rightarrow> fd set) \<Rightarrow> ('s \<Rightarrow> ('e + fd) \<times> 's) \<Rightarrow> bool" where
  "fresh_fd opn f \<longleftrightarrow>
     (\<forall>s. (\<forall>e s'. f s = (Err e, s') \<longrightarrow> opn s' = opn s)
        \<and> (\<forall>fd0 s'. f s = (Ok fd0, s') \<longrightarrow> fd0 \<notin> opn s \<and> opn s' = insert fd0 (opn s)))"

definition same_fds :: "('s \<Rightarrow> fd set) \<Rightarrow> ('s \<Rightarrow> 'r \<times> 's) \<Rightarrow> bool" where
  "same_fds opn f \<longleftrightarrow> (\<forall>s. opn (snd (f s)) = opn s)"

definition os_table :: "('s \<Rightarrow> fd set) \<Rightarrow> ('v6, 's) os \<Rightarrow> bool" where
  "os_table opn os \<longleftrightarrow>
     (\<forall>dm. fresh_fd opn (os_socket os dm)) \<and> (\<forall>fd0 opt. same_fds opn (os_setsockopt os fd0 opt))
     \<and> (\<forall>fd0 ep. same_fds opn (os_bind os fd0 ep)) \<and> (\<forall>fd0 ep. same_fds opn (os_connect os fd0 ep))"

definition net_table :: "('s \<Rightarrow> fd set) \<Rightarrow> ('v6, 's) net \<Rightarrow> bool" where
  "net_table opn net \<longleftrightarrow>
     (\<forall>ep. fresh_fd opn (net_bind net ep)) \<and> (\<forall>ep. fresh_fd opn (net_connect net ep))
     \<and> (\<forall>fd0. same_fds opn (net_set_nonblocking net fd0)) \<and> (\<forall>fd0. same_fds opn (net_from_std net fd0))
     \<and> (\<forall>fd0 s. opn (net_drop net fd0 s) = opn s - {fd0})"

lemma same_fdsD: "same_fds opn f \<Longrightarrow> f s = (r, s') \<Longrightarrow> opn s' = opn s"
  unfolding same_fds_def by (metis snd_conv)

lemma os_tableD:
  assumes "os_table opn os"
  shows "os_setsockopt os fd0 opt s = (r, s') \<Longrightarrow> opn s' = opn s" "os_bind os fd0 ep s = (r, s') \<Longrightarrow> opn s' = opn s"
    "os_connect os fd0 ep s = (r, s') \<Longrightarrow> opn s' = opn s"
  using assms same_fdsD [of opn] unfolding os_table_def by metis+

lemma net_tableD:
  assumes "net_table opn net"
  shows "net_set_nonblocking net fd0 s = (r, s') \<Longrightarrow> opn s' = opn s" "net_from_std net fd0 s = (r, s') \<Longrightarrow> opn s' = opn s"
    "opn (net_drop net fd0 s) = opn s - {fd0}"
  using assms same_fdsD [of opn] unfolding net_table_def by metis+

lemma set_socket_opts_table:
  assumes "os_table opn os" and "set_socket_opts os var fd0 dm b s = (r, s')"
  shows "opn s' = opn s"
proof -
  have opt: "set_opt os w fd0 opt s = (r, s') \<Longrightarrow> opn s' = opn s" for w opt s r s'
    using os_tableD(1) [OF assms(1)] by (fastforce simp: set_opt_def split: if_splits prod.splits)
  from assms(2) show ?thesis
    by (auto simp: set_socket_opts_def dest!: opt split: if_splits prod.splits sum.splits)
qed

lemma make_socket_table:
  assumes "os_table opn os" and "parse_sockaddr dbg a = Ok (dm, r)" and "dm = DomainVsock \<longrightarrow> is_ok (parse_vscok dbg r)"
    and "os_socket os dm s = (Ok fd0, s0)" and "make_socket d dbg nx os a s = (res, s1)"
  shows "fd0 \<notin> opn s \<and> opn s1 = insert fd0 (opn s) \<and> (\<forall>fd' dm' ep. res = Ok (fd', dm', ep) \<longrightarrow> fd' = fd0)"
proof -
  have "fd0 \<notin> opn s \<and> opn s0 = insert fd0 (opn s)"
    using assms(1,4) by (auto simp: os_table_def fresh_fd_def)
  with assms(2-5) show ?thesis
    by (auto simp: make_socket_def Let_def is_ok_iff rbind_Ok_iff split: domain.splits sum.splits)
qed

lemma with_endpoint_table:
  assumes "\<forall>ep. fresh_fd opn (ctor ep)" and "net_table opn net" and "with_endpoint ctor (async_conv net a) p s = (Err e, s')"
  shows "opn s' = opn s"
proof -
  have "net_try_from net fd0 s1 = (Err e, s2) \<Longrightarrow> opn s2 = opn s1 - {fd0}" for fd0 s1 s2
    using net_tableD [OF assms(2)] by (fastforce simp: net_try_from_def split: prod.splits sum.splits)
  with assms(1,3) show ?thesis
    by (auto simp: with_endpoint_def async_conv_def fresh_fd_def split: sum.splits prod.splits if_splits)
qed

text \<open>
  C39: Descriptors of failed calls. An asynchronous \<open>bind\<close> or \<open>connect\<close> that fails leaves the table of
  open descriptors as it was. The blocking \<open>do_bind\<close> and \<open>client_connect\<close> do not: once their call of
  \<open>socket\<close> has succeeded, its descriptor is open afterwards whether they succeed or not, so after an
  error nobody owns it.
\<close>

theorem failed_calls_descriptors:
  assumes "os_table opn os" and "net_table opn net"
  shows "(\<forall>e s'. listener_bind dbg p6 net a s = (Err e, s') \<longrightarrow> opn s' = opn s)
    \<and> (\<forall>e s'. socket_connect dbg p6 net a s = (Err e, s') \<longrightarrow> opn s' = opn s)
    \<and> (\<forall>dm r fd0 s0. parse_sockaddr dbg a = Ok (dm, r) \<and> (dm = DomainVsock \<longrightarrow> is_ok (parse_vscok dbg r))
         \<and> os_socket os dm s = (Ok fd0, s0) \<longrightarrow>
         fd0 \<notin> opn s \<and> opn (snd (do_bind d dbg nx os var a s)) = insert fd0 (opn s)
         \<and> opn (snd (client_connect d dbg nx os var a s)) = insert fd0 (opn s))"
proof (intro conjI allI impI)
  have fresh: "\<forall>ep. fresh_fd opn (net_bind net ep)" "\<forall>ep. fresh_fd opn (net_connect net ep)"
    using assms(2) by (simp_all add: net_table_def)
  show "opn s' = opn s" if "listener_bind dbg p6 net a s = (Err e, s')" for e s'
    using that with_endpoint_table [OF fresh(1) assms(2)] by (simp add: async_uses_endpoint)
  show "opn s' = opn s" if "socket_connect dbg p6 net a s = (Err e, s')" for e s'
    using that with_endpoint_table [OF fresh(2) assms(2)] by (simp add: async_uses_endpoint)
  fix dm r fd0 s0
  assume h: "parse_sockaddr dbg a = Ok (dm, r) \<and> (dm = DomainVsock \<longrightarrow> is_ok (parse_vscok dbg r)) \<and> os_socket os dm s = (Ok fd0, s0)"
  obtain res s1 where ms: "make_socket d dbg nx os a s = (res, s1)" by fastforce
  have t1: "fd0 \<notin> opn s" "opn s1 = insert fd0 (opn s)" using make_socket_table [OF assms(1) _ _ _ ms] h by blast+
  then show "fd0 \<notin> opn s" by simp
  show "opn (snd (do_bind d dbg nx os var a s)) = insert fd0 (opn s)"
    using t1 by (auto simp: do_bind_def ms dest!: os_tableD(2,3) [OF assms(1)] set_socket_opts_table [OF assms(1)] split: sum.splits prod.splits)
  show "opn (snd (client_connect d dbg nx os var a s)) = insert fd0 (opn s)"
    using t1 by (auto simp: client_connect_def ms dest!: os_tableD(2,3) [OF assms(1)] set_socket_opts_table [OF assms(1)] split: sum.splits prod.splits)
qed

lemma foldr_max_ge: "x \<in> set s \<Longrightarrow> x \<le> foldr max s (b :: fd)"
  by (induction s) auto

lemma lone_tables: "os_table set lone_os" "net_table set lone_net"
proof -
  have "foldr max s 2 + 1 \<notin> set s" for s :: "fd list"
    using foldr_max_ge [of "foldr max s 2 + 1" s 2] by auto
  then show "os_table set lone_os" by (simp add: os_table_def lone_os_def fresh_fd_def same_fds_def)
  show "net_table set lone_net" by (auto simp: net_table_def lone_net_def fresh_fd_def same_fds_def)
qed

text \<open>A refused connection through the blocking transport: the descriptor stays open.\<close>

theorem failed_calls_descriptors_witness:
  "fst (client_connect plain_display id linux_nix lone_os None ''unix:///run/a.sock'' [2, 1, 0]) = Err (Nix 111)
   \<and> set (snd (client_connect plain_display id linux_nix lone_os None ''unix:///run/a.sock'' [2, 1, 0])) = {0, 1, 2, 3}"
proof
  let ?a = "''unix:///run/a.sock''"
  have parsed: "parse_sockaddr id ?a = Ok (DomainUnix, ''/run/a.sock'')" by (simp add: parse_sockaddr_def)
  have opened: "os_socket lone_os DomainUnix [2, 1, 0] = (Ok 3, [3, 2, 1, 0])" by (simp add: lone_os_def)
  show "fst (client_connect plain_display id linux_nix lone_os None ?a [2, 1, 0]) = Err (Nix 111)"
    by (simp add: client_connect_def make_socket_def parsed opened make_addr_def linux_nix_def set_socket_opts_def)
      (simp add: lone_os_def)
  show "set (snd (client_connect plain_display id linux_nix lone_os None ?a [2, 1, 0])) = {0, 1, 2, 3}"
    using failed_calls_descriptors [OF lone_tables, where a = ?a and dbg = id and s = "[2, 1, 0]" and d = plain_display
        and nx = linux_nix and var = None] parsed opened by auto
qed

end
