(* ===== verification/GenNames.thy ===== *)
theory GenNames
  imports Prelude
begin

text \<open>
  Names in generated code: the splitting of a protobuf identifier into words and its snake and camel
  case, in the compiler (\<open>src/compiler/src/util/mod.rs\<close>) and in the Prost generator, which has its own copy
  (\<open>src/ttrpc-codegen-prost/src/util.rs\<close>). A panic is \<open>None\<close>.

  Protobuf identifiers are ASCII, so \<open>to_lowercase\<close> and \<open>to_uppercase\<close> are the ASCII maps.
\<close>

subsection \<open>Letters\<close>

abbreviation underscore :: char where "underscore \<equiv> CHR ''_''"

lemma lower_char_underscore [simp]: "lower_char c = underscore \<longleftrightarrow> c = underscore"
proof -
  have "char_of ((of_char c :: nat) + 32) \<noteq> underscore" if "is_upper c"
  proof
    assume "char_of ((of_char c :: nat) + 32) = underscore"
    then have "of_char (char_of ((of_char c :: nat) + 32)) = (of_char underscore :: nat)" by simp
    with that show False by (simp add: is_upper_def)
  qed
  then show ?thesis by (auto simp: lower_char_def is_upper_def)
qed

subsection \<open>Splitting\<close>

text \<open>\<open>while\<close> of \<open>NameSpliter::next\<close>: the position after the underscores at \<open>pos\<close>.\<close>

definition skip_underscores :: "string \<Rightarrow> nat \<Rightarrow> nat" where
  "skip_underscores name pos = pos + length (takeWhile (\<lambda>c. c = underscore) (drop pos name))"

text \<open>Its \<open>for\<close> loop: where the part that starts before \<open>i\<close> ends.\<close>

function part_end :: "string \<Rightarrow> nat \<Rightarrow> nat \<Rightarrow> bool \<Rightarrow> nat" where
  "part_end name i upper_len meet_lower =
     (if i \<ge> length name then length name
      else if is_upper (name ! i) then
        (if meet_lower then i else part_end name (i + 1) (upper_len + 1) meet_lower)
      else if name ! i = underscore then i
      else if upper_len > 1 then i - 1
      else part_end name (i + 1) upper_len True)"
  by pat_completeness auto
termination
  by (relation "measure (\<lambda>(name, i, u, m). length name - i)") auto

declare part_end.simps [simp del]

definition spliter_next :: "string \<Rightarrow> nat \<Rightarrow> (string \<times> nat) option" where
  "spliter_next name pos =
     (if pos = length name then None
      else let start = skip_underscores name pos; stop = part_end name start 0 False
           in Some (take (stop - start) (drop start name), stop))"

definition prost_spliter_next :: "string \<Rightarrow> nat \<Rightarrow> (string \<times> nat) option" where
  "prost_spliter_next name pos =
     (let start = skip_underscores name pos
      in if start = length name then None
         else let stop = part_end name start 0 False
              in Some (take (stop - start) (drop start name), stop))"

lemma skip_le: "pos \<le> skip_underscores name pos"
  by (simp add: skip_underscores_def)

lemma skip_le_length: "pos \<le> length name \<Longrightarrow> skip_underscores name pos \<le> length name"
  by (simp add: skip_underscores_def) (metis length_drop length_takeWhile_le le_diff_conv2 add.commute)

lemma part_end_le: "part_end name i u m \<le> length name"
proof (induction name i u m rule: part_end.induct)
  case (1 name i u m)
  then show ?case by (subst part_end.simps) auto
qed

text \<open>A part ends after its first character: \<open>k\<close> is how far the loop has come.\<close>

lemma part_end_progress:
  "start < length name \<Longrightarrow> start + k = i \<Longrightarrow> u \<le> k \<Longrightarrow> (k = 0 \<longrightarrow> \<not> m \<and> name ! start \<noteq> underscore)
     \<Longrightarrow> start < part_end name i u m"
proof (induction name i u m arbitrary: k rule: part_end.induct)
  case (1 name i u m)
  show ?case
  proof (cases "i \<ge> length name")
    case True
    with 1 show ?thesis by (subst part_end.simps) simp
  next
    case False
    show ?thesis
    proof (cases "is_upper (name ! i)")
      case True
      with False 1 show ?thesis
        by (subst part_end.simps) (auto intro: "1.IH"(1) [of "Suc k"])
    next
      case not_up: False
      with False 1 show ?thesis
        by (subst part_end.simps) (cases "k = 0"; auto intro: "1.IH"(2) [of "Suc k"])
    qed
  qed
qed

lemma takeWhile_end: "n = length (takeWhile P xs) \<Longrightarrow> n < length xs \<Longrightarrow> \<not> P (xs ! n)"
  by (simp add: nth_length_takeWhile)

lemma skip_stops:
  assumes "pos \<le> length name" and "skip_underscores name pos < length name"
  shows "name ! skip_underscores name pos \<noteq> underscore"
  using assms takeWhile_end [of _ "\<lambda>c. c = underscore" "drop pos name"]
  by (auto simp: skip_underscores_def)

lemma spliter_next_progress:
  assumes "spliter_next name pos = Some (s, p)" and "pos \<le> length name"
  shows "pos < p \<and> p \<le> length name"
proof -
  let ?start = "skip_underscores name pos"
  from assms have pos: "pos < length name" and p: "p = part_end name ?start 0 False"
    by (auto simp: spliter_next_def Let_def split: if_splits)
  have "?start \<le> length name" using skip_le_length assms(2) .
  then consider "?start = length name" | "?start < length name" by linarith
  then have "pos < p"
  proof cases
    case 1
    then have "p = length name" by (simp add: p part_end.simps)
    with pos show ?thesis by simp
  next
    case 2
    then have "?start < p" using part_end_progress [of ?start name 0] skip_stops [OF assms(2) 2] by (simp add: p)
    with skip_le [of pos name] show ?thesis by linarith
  qed
  then show ?thesis by (simp add: p part_end_le)
qed

text \<open>The iterator run to its end; it ends because every part ends behind the position before it.\<close>

function name_parts_from :: "string \<Rightarrow> nat \<Rightarrow> string list" where
  "name_parts_from name pos =
     (if pos > length name then []
      else case spliter_next name pos of
             None \<Rightarrow> []
           | Some (s, p) \<Rightarrow> s # name_parts_from name p)"
  by pat_completeness auto
termination
proof (relation "measure (\<lambda>(name, pos). length name - pos)")
  fix name pos x s p
  assume "\<not> length name < pos" "spliter_next name pos = Some x" "(s, p) = x"
  then show "((name, p), name, pos) \<in> measure (\<lambda>(name, pos). length name - pos)"
    using spliter_next_progress [of name pos s p] by auto
qed simp

declare name_parts_from.simps [simp del]

lemma prost_spliter_next_alt:
  "pos \<le> length name \<Longrightarrow> prost_spliter_next name pos =
     (if skip_underscores name pos = length name then None else spliter_next name pos)"
  by (cases "pos = length name") (auto simp: prost_spliter_next_def spliter_next_def skip_underscores_def Let_def)

function prost_name_parts_from :: "string \<Rightarrow> nat \<Rightarrow> string list" where
  "prost_name_parts_from name pos =
     (if pos > length name then []
      else case prost_spliter_next name pos of
             None \<Rightarrow> []
           | Some (s, p) \<Rightarrow> s # prost_name_parts_from name p)"
  by pat_completeness auto
termination
proof (relation "measure (\<lambda>(name, pos). length name - pos)")
  fix name pos x s p
  assume "\<not> length name < pos" "prost_spliter_next name pos = Some x" "(s, p) = x"
  then show "((name, p), name, pos) \<in> measure (\<lambda>(name, pos). length name - pos)"
    using spliter_next_progress [of name pos s p] by (auto simp: prost_spliter_next_alt split: if_splits)
qed simp

declare prost_name_parts_from.simps [simp del]

definition name_parts :: "string \<Rightarrow> string list" where
  "name_parts name = name_parts_from name 0"

definition prost_name_parts :: "string \<Rightarrow> string list" where
  "prost_name_parts name = prost_name_parts_from name 0"

subsection \<open>Snake and camel case\<close>

definition to_snake_case :: "string \<Rightarrow> string" where
  "to_snake_case name = butlast (concat (map (\<lambda>s. to_lowercase s @ [underscore]) (name_parts name)))"

definition camel_part :: "string \<Rightarrow> string option" where
  "camel_part s = (case s of [] \<Rightarrow> None | c # cs \<Rightarrow> Some (upper_char c # to_lowercase cs))"

fun camel_parts :: "string list \<Rightarrow> string option" where
  "camel_parts [] = Some []"
| "camel_parts (s # ss) =
     Option.bind (camel_part s) (\<lambda>p. Option.bind (camel_parts ss) (\<lambda>ps. Some (p @ ps)))"

definition to_camel_case :: "string \<Rightarrow> string option" where
  "to_camel_case name = camel_parts (name_parts name)"

definition prost_to_snake_case :: "string \<Rightarrow> string" where
  "prost_to_snake_case name =
     butlast (concat (map (\<lambda>s. if s = [] then [] else to_lowercase s @ [underscore]) (prost_name_parts name)))"

definition prost_to_camel_case :: "string \<Rightarrow> string" where
  "prost_to_camel_case name =
     concat (map (\<lambda>s. case s of [] \<Rightarrow> [] | c # cs \<Rightarrow> upper_char c # to_lowercase cs) (prost_name_parts name))"

subsection \<open>What the parts are\<close>

lemma part_no_underscore:
  "i \<le> j \<Longrightarrow> j < part_end name i u m \<Longrightarrow> name ! j \<noteq> underscore"
proof (induction name i u m rule: part_end.induct)
  case (1 name i u m)
  show ?case
  proof (cases "j = i")
    case True
    with 1(4) show ?thesis by (subst (asm) part_end.simps) (auto simp: is_upper_def split: if_splits)
  next
    case False
    with 1 part_end.simps [of name i u m] show ?thesis by (auto split: if_splits)
  qed
qed

lemma spliter_next_split:
  assumes "spliter_next name pos = Some (s, p)" and "pos \<le> length name"
  shows "\<exists>us. drop pos name = us @ s @ drop p name \<and> set us \<subseteq> {underscore} \<and> underscore \<notin> set s
    \<and> (s = [] \<longleftrightarrow> skip_underscores name pos = length name)"
proof (intro exI conjI)
  let ?start = "skip_underscores name pos" and ?us = "takeWhile (\<lambda>c. c = underscore) (drop pos name)"
  from assms have p: "p = part_end name ?start 0 False" and s: "s = take (p - ?start) (drop ?start name)"
    by (auto simp: spliter_next_def Let_def split: if_splits)
  have "drop ?start name = dropWhile (\<lambda>c. c = underscore) (drop pos name)"
    by (simp add: skip_underscores_def dropWhile_eq_drop add.commute)
  then have start: "?start \<le> length name" "drop pos name = ?us @ drop ?start name"
    using skip_le_length [OF assms(2)] by simp_all
  have grows: "?start < length name \<Longrightarrow> ?start < p"
    using part_end_progress [of ?start name 0] skip_stops [OF assms(2)] by (simp add: p)
  then have le: "?start \<le> p" using start(1) by (cases "?start = length name") (auto simp: p part_end.simps)
  then have "drop ?start name = s @ drop p name"
    by (simp add: s) (metis append_take_drop_id drop_drop le_add_diff_inverse2)
  with start(2) show "drop pos name = ?us @ s @ drop p name" by simp
  show "set ?us \<subseteq> {underscore}" by (auto dest: set_takeWhileD)
  show "underscore \<notin> set s"
  proof
    assume "underscore \<in> set s"
    then obtain k where k: "k < length s" "s ! k = underscore" by (metis in_set_conv_nth)
    then have "?start + k < part_end name ?start 0 False" "name ! (?start + k) = underscore"
      by (auto simp: s p start less_diff_conv add.commute)
    then show False using part_no_underscore [of ?start "?start + k" name 0 False] by simp
  qed
  show "s = [] \<longleftrightarrow> ?start = length name"
    using grows start(1) by (cases "?start = length name") (auto simp: s)
qed

lemma filter_underscores: "set us \<subseteq> {underscore} \<Longrightarrow> filter (\<lambda>c. c \<noteq> underscore) us = []"
  by (induction us) auto

text \<open>No letter is lost, and no part contains an underscore.\<close>

lemma name_parts_letters:
  "pos \<le> length name \<Longrightarrow> concat (name_parts_from name pos) = filter (\<lambda>c. c \<noteq> underscore) (drop pos name)"
proof (induction name pos rule: name_parts_from.induct)
  case (1 name pos)
  show ?case
  proof (cases "spliter_next name pos")
    case None
    with 1 show ?thesis by (simp add: name_parts_from.simps [of name pos] spliter_next_def Let_def split: if_splits)
  next
    case (Some x)
    then obtain s p where sp: "spliter_next name pos = Some (s, p)" by (cases x) simp
    obtain us where us: "drop pos name = us @ s @ drop p name" "set us \<subseteq> {underscore}" "underscore \<notin> set s"
      using spliter_next_split [OF sp "1.prems"] by blast
    have "filter (\<lambda>c. c \<noteq> underscore) s = s" using us(3) by (auto simp: filter_id_conv)
    with 1 sp us spliter_next_progress [OF sp "1.prems"] show ?thesis
      by (simp add: name_parts_from.simps [of name pos] filter_underscores)
  qed
qed

lemma parts_step:
  assumes "spliter_next name pos = Some (s, p)" and "pos \<le> length name"
  shows "name_parts_from name pos = s # name_parts_from name p"
    and "prost_name_parts_from name pos = (if s = [] then [] else s # prost_name_parts_from name p)"
  using assms spliter_next_split [OF assms]
  by (auto simp: name_parts_from.simps [of name pos] prost_name_parts_from.simps [of name pos] prost_spliter_next_alt)

lemma parts_end [simp]:
  "name_parts_from name (length name) = []" "prost_name_parts_from name (length name) = []"
  by (simp_all add: name_parts_from.simps prost_name_parts_from.simps spliter_next_def prost_spliter_next_alt)

lemma parts_induct [consumes 1, case_names finish part]:
  assumes "pos \<le> length name" and "P (length name)"
    and "\<And>pos s p us. \<lbrakk>pos < length name; spliter_next name pos = Some (s, p); drop pos name = us @ s @ drop p name;
      set us \<subseteq> {underscore}; underscore \<notin> set s; s = [] \<longleftrightarrow> p = length name \<and> set (drop pos name) \<subseteq> {underscore}; p \<le> length name;
      P p\<rbrakk> \<Longrightarrow> P pos"
  shows "P pos"
  using assms(1)
proof (induction "length name - pos" arbitrary: pos rule: less_induct)
  case less
  show ?case
  proof (cases "pos = length name")
    case False
    then have lt: "pos < length name" using less.prems by simp
    then obtain s p where sp: "spliter_next name pos = Some (s, p)" by (auto simp: spliter_next_def Let_def)
    obtain us where us: "drop pos name = us @ s @ drop p name" "set us \<subseteq> {underscore}" "underscore \<notin> set s"
        "s = [] \<longleftrightarrow> skip_underscores name pos = length name"
      using spliter_next_split [OF sp less.prems] by blast
    have p: "pos < p" "p \<le> length name" using spliter_next_progress [OF sp less.prems] by auto
    have "s = [] \<longleftrightarrow> p = length name \<and> set (drop pos name) \<subseteq> {underscore}"
    proof
      assume "s = []"
      with us(4) sp lt have "p = length name" by (auto simp: spliter_next_def Let_def part_end.simps [of name "length name" 0 False])
      with us \<open>s = []\<close> show "p = length name \<and> set (drop pos name) \<subseteq> {underscore}" by simp
    next
      assume "p = length name \<and> set (drop pos name) \<subseteq> {underscore}"
      with us(1,3) show "s = []" by (cases s) auto
    qed
    with less.hyps [of p] p lt show ?thesis by (intro assms(3) [OF lt sp us(1-3)]) auto
  qed (simp add: assms(2))
qed

lemma empty_part: "pos \<le> length name \<Longrightarrow> [] \<in> set (name_parts_from name pos) \<longleftrightarrow> pos < length name \<and> last name = underscore"
proof (induction pos rule: parts_induct)
  case (part pos s p us)
  have last: "last name = last (us @ s @ drop p name)" using part(1,3) by (metis last_drop length_drop)
  show ?case
  proof (cases "p = length name")
    case True
    have "s = [] \<longleftrightarrow> last (us @ s) = underscore"
    proof (cases "s = []")
      case empty: True
      with True part(1,3) have "us \<noteq> []" by auto
      then have "last us = underscore" using part(4) last_in_set by blast
      with empty show ?thesis by simp
    next
      case False
      then have "last s \<noteq> underscore" using part(5) last_in_set by metis
      with False show ?thesis by simp
    qed
    moreover have "name_parts_from name pos = [s]" using parts_step(1) [OF part(2)] part(1) True by simp
    moreover have "last name = last (us @ s)" using last unfolding True by (metis append_Nil2 drop_all order_refl)
    ultimately have "([] \<in> set (name_parts_from name pos)) = (last name = underscore)" by (metis empty_iff empty_set set_ConsD list.set_intros(1))
    with part(1) show ?thesis by blast
  next
    case False
    then have "s \<noteq> []" "p < length name" using part(6,7) by auto
    then show ?thesis using parts_step(1) [OF part(2)] part(1,8) by simp
  qed
qed simp

lemma prost_parts: "pos \<le> length name \<Longrightarrow> prost_name_parts_from name pos = filter (\<lambda>s. s \<noteq> []) (name_parts_from name pos)"
proof (induction pos rule: parts_induct)
  case (part pos s p us)
  then show ?case by (cases "s = []") (auto simp: parts_step [OF part(2)])
qed simp

lemma camel_parts_None: "camel_parts ss = None \<longleftrightarrow> [] \<in> set ss"
  by (induction ss) (auto simp: camel_part_def bind_eq_None_conv split: list.splits)

lemma camel_parts_Some: "camel_parts ss = Some c \<Longrightarrow>
    concat (map (\<lambda>s. case s of [] \<Rightarrow> [] | c # cs \<Rightarrow> upper_char c # to_lowercase cs) (filter (\<lambda>s. s \<noteq> []) ss)) = c"
  by (induction ss arbitrary: c) (auto simp: camel_part_def bind_eq_Some_conv split: list.splits)

text \<open>
  C37: Case conversion of names. The words of a name are its letters in order, with no underscore
  left in them, so snake case is the lower-case name with underscores inserted; the compiler's camel
  case panics exactly on the names that end with an underscore, the Prost copy never does, and on
  every other name the two copies agree, in both cases.
\<close>

theorem name_casing:
  "concat (name_parts n) = filter (\<lambda>c. c \<noteq> underscore) n
   \<and> filter (\<lambda>c. c \<noteq> underscore) (to_snake_case n) = map lower_char (filter (\<lambda>c. c \<noteq> underscore) n)
   \<and> (to_camel_case n = None \<longleftrightarrow> n \<noteq> [] \<and> last n = underscore)
   \<and> (n = [] \<or> last n \<noteq> underscore \<longrightarrow>
        to_camel_case n = Some (prost_to_camel_case n) \<and> to_snake_case n = prost_to_snake_case n)"
proof (intro conjI impI)
  show letters: "concat (name_parts n) = filter (\<lambda>c. c \<noteq> underscore) n"
    using name_parts_letters [of 0 n] by (simp add: name_parts_def)
  have ends: "[] \<in> set (name_parts n) \<longleftrightarrow> n \<noteq> [] \<and> last n = underscore"
    using empty_part [of 0 n] by (simp add: name_parts_def)
  have plain: "filter (\<lambda>c. c \<noteq> underscore) (concat (map (\<lambda>s. to_lowercase s @ [underscore]) ss))
      = map lower_char (filter (\<lambda>c. c \<noteq> underscore) (concat ss))" for ss
    by (induction ss) (simp_all add: filter_map comp_def)
  have butlast_us: "filter (\<lambda>c. c \<noteq> underscore) (butlast xs) = filter (\<lambda>c. c \<noteq> underscore) xs"
    if "xs = [] \<or> last xs = underscore" for xs
    using that by (cases xs rule: rev_cases) auto
  have "last (concat (map (\<lambda>s. to_lowercase s @ [underscore]) ss)) = underscore" if "ss \<noteq> []" for ss
    using that by (induction ss rule: rev_induct) simp_all
  then have "filter (\<lambda>c. c \<noteq> underscore) (to_snake_case n)
      = filter (\<lambda>c. c \<noteq> underscore) (concat (map (\<lambda>s. to_lowercase s @ [underscore]) (name_parts n)))"
    unfolding to_snake_case_def by (intro butlast_us) (cases "name_parts n", auto)
  then show "filter (\<lambda>c. c \<noteq> underscore) (to_snake_case n) = map lower_char (filter (\<lambda>c. c \<noteq> underscore) n)"
    using letters by (simp add: plain)
  show "to_camel_case n = None \<longleftrightarrow> n \<noteq> [] \<and> last n = underscore"
    by (simp add: to_camel_case_def camel_parts_None ends)
  assume "n = [] \<or> last n \<noteq> underscore"
  with ends have whole: "[] \<notin> set (name_parts n)" by blast
  then have parts: "prost_name_parts n = name_parts n"
    using prost_parts [of 0 n] by (simp add: name_parts_def prost_name_parts_def filter_id_conv) metis
  from whole camel_parts_None obtain c where c: "camel_parts (name_parts n) = Some c" by fastforce
  show "to_camel_case n = Some (prost_to_camel_case n)"
    using camel_parts_Some [OF c] prost_parts [of 0 n] c
    by (simp add: to_camel_case_def prost_to_camel_case_def name_parts_def prost_name_parts_def)
  show "to_snake_case n = prost_to_snake_case n"
    unfolding to_snake_case_def prost_to_snake_case_def parts using whole
    by (intro arg_cong [where f = "\<lambda>x. butlast (concat x)"] map_cong) auto
qed

text \<open>The test vectors of the compiler and of the Prost copy.\<close>

theorem name_casing_witness:
  "to_camel_case ''CreateIDForReq'' = Some ''CreateIdForReq'' \<and> to_snake_case ''Create_ID_For__Req'' = ''create_id_for_req''
   \<and> to_camel_case ''foo_'' = None \<and> prost_to_camel_case ''__init__'' = ''Init''"
proof -
  have "to_camel_case ''CreateIDForReq'' = Some (prost_to_camel_case ''CreateIDForReq'')"
       "to_snake_case ''Create_ID_For__Req'' = prost_to_snake_case ''Create_ID_For__Req''"
       "to_camel_case ''foo_'' = None"
    using name_casing [of "''CreateIDForReq''"] name_casing [of "''Create_ID_For__Req''"] name_casing [of "''foo_''"] by simp_all
  moreover have "prost_to_camel_case ''CreateIDForReq'' = ''CreateIdForReq''" by code_simp
  moreover have "prost_to_snake_case ''Create_ID_For__Req'' = ''create_id_for_req''" by code_simp
  moreover have "prost_to_camel_case ''__init__'' = ''Init''" by code_simp
  ultimately show ?thesis by simp
qed

end
