(* ===== verification/GenScope.thy ===== *)
theory GenScope
  imports GenNames
begin

text \<open>
  Message types in generated code, \<open>src/compiler/src/util/scope.rs\<close>: looking a fully qualified protobuf name
  up in the file descriptors, and the Rust path of what was found. A panic is \<open>None\<close>. The naming of
  modules by the protobuf-codegen crate (\<open>proto_name_to_rs\<close>) is an argument.
\<close>

subsection \<open>Descriptors\<close>

datatype msg = Msg (msg_name: string) (nested_type: "msg list")

record method_desc =
  md_name :: string
  input_type :: string
  output_type :: string
  client_streaming :: bool
  server_streaming :: bool

record service_desc =
  sd_name :: string
  sd_method :: "method_desc list"

record file_desc =
  fd_name :: string
  fd_package :: string
  message_type :: "msg list"
  fd_service :: "service_desc list"

record scoped_message =
  sm_fd :: file_desc
  sm_path :: "msg list"
  sm_msg :: msg

datatype rust_type = Generated string string | ProtobufRuntime string

definition DESCRIPTOR_PROTO_FILE :: string where
  "DESCRIPTOR_PROTO_FILE = ''google/protobuf/descriptor.proto''"

definition WELL_KNOWN_TYPE_PROTO_FILES :: "string list" where
  "WELL_KNOWN_TYPE_PROTO_FILES = map (\<lambda>f. ''google/protobuf/'' @ f @ ''.proto'')
     [''any'', ''api'', ''duration'', ''empty'', ''field_mask'', ''source_context'', ''struct'', ''timestamp'', ''type'', ''wrappers'']"

definition RUST_KEYWORDS :: "string list" where
  "RUST_KEYWORDS =
     [''_'', ''as'', ''async'', ''await'', ''break'', ''crate'', ''dyn'', ''else'', ''enum'', ''extern'', ''false'', ''fn'',
      ''for'', ''if'', ''impl'', ''in'', ''let'', ''loop'', ''match'', ''mod'', ''move'', ''mut'', ''pub'', ''ref'', ''return'',
      ''static'', ''self'', ''Self'', ''struct'', ''super'', ''true'', ''trait'', ''type'', ''unsafe'', ''use'', ''while'',
      ''continue'', ''box'', ''const'', ''where'', ''virtual'', ''proc'', ''alignof'', ''become'', ''offsetof'', ''priv'',
      ''pure'', ''sizeof'', ''typeof'', ''unsized'', ''yield'', ''do'', ''abstract'', ''final'', ''override'', ''macro'']"

definition is_rust_keyword :: "string \<Rightarrow> bool" where
  "is_rust_keyword ident \<longleftrightarrow> ident \<in> set RUST_KEYWORDS"

subsection \<open>Names of a message\<close>

definition sm_prefix :: "scoped_message \<Rightarrow> string" where
  "sm_prefix m = concat (map (\<lambda>x. msg_name x @ ''.'') (sm_path m))"

definition rust_prefix :: "scoped_message \<Rightarrow> string" where
  "rust_prefix m = map (\<lambda>c. if c = CHR ''.'' then underscore else c) (sm_prefix m)"

definition rust_name :: "scoped_message \<Rightarrow> string" where
  "rust_name m =
     (let r = rust_prefix m
      in (if r = [] \<and> is_rust_keyword (msg_name (sm_msg m)) then ''message_'' else r) @ msg_name (sm_msg m))"

definition protobuf_runtime_path :: "scoped_message \<Rightarrow> string" where
  "protobuf_runtime_path m = concat (map (\<lambda>x. to_snake_case (msg_name x) @ ''::'') (sm_path m)) @ msg_name (sm_msg m)"

definition display_rust_type :: "rust_type \<Rightarrow> string" where
  "display_rust_type t =
     (case t of Generated m n \<Rightarrow> ''super::'' @ m @ ''::'' @ n | ProtobufRuntime p \<Rightarrow> p)"

subsection \<open>Lookup\<close>

text \<open>
  The loops of \<open>find_message\<close> in one file: the first message whose name starts the rest of the text
  decides; a name that is not followed by a dot or the end is passed over.
\<close>

fun find_in :: "msg list \<Rightarrow> string \<Rightarrow> msg list \<Rightarrow> (msg list \<times> msg) option" where
  "find_in [] fqn path = None"
| "find_in (Msg n nested # ms) fqn path =
     (case strip_prefix n fqn of
        Some [] \<Rightarrow> Some (path, Msg n nested)
      | Some (c # rest) \<Rightarrow> if c = CHR ''.'' then find_in nested rest (path @ [Msg n nested]) else find_in ms fqn path
      | None \<Rightarrow> find_in ms fqn path)"

definition strip_package :: "string \<Rightarrow> string \<Rightarrow> string option" where
  "strip_package pkg fqn =
     (case strip_prefix pkg fqn of
        Some rest \<Rightarrow>
          if pkg = [] then Some rest
          else (case rest of c # r \<Rightarrow> if c = CHR ''.'' then Some r else None | [] \<Rightarrow> None)
      | None \<Rightarrow> None)"

fun find_in_files :: "file_desc list \<Rightarrow> string \<Rightarrow> scoped_message option" where
  "find_in_files [] fqn = None"
| "find_in_files (fd # fds) fqn =
     (case strip_package (fd_package fd) fqn of
        None \<Rightarrow> find_in_files fds fqn
      | Some fqn2 \<Rightarrow>
          if strip_prefix ''.'' fqn2 \<noteq> None then None
          else (case find_in (message_type fd) fqn2 [] of
                  Some (path, m) \<Rightarrow> Some \<lparr>sm_fd = fd, sm_path = path, sm_msg = m\<rparr>
                | None \<Rightarrow> find_in_files fds fqn))"

definition find_message :: "file_desc list \<Rightarrow> string \<Rightarrow> scoped_message option" where
  "find_message fds fqn = Option.bind (strip_prefix ''.'' fqn) (find_in_files fds)"

text \<open>\<open>strip_suffix(".rs").unwrap()\<close> of the file name the protobuf crate gives.\<close>

definition proto_path_to_rust_mod :: "(string \<Rightarrow> string) \<Rightarrow> string \<Rightarrow> string option" where
  "proto_path_to_rust_mod proto_name_to_rs path = map_option rev (strip_prefix (rev ''.rs'') (rev (proto_name_to_rs path)))"

definition find_rust_type :: "(string \<Rightarrow> string) \<Rightarrow> file_desc list \<Rightarrow> string list \<Rightarrow> string \<Rightarrow> rust_type option" where
  "find_rust_type to_rs fds to_generate fqn =
     Option.bind (find_message fds fqn) (\<lambda>m.
     Option.bind (proto_path_to_rust_mod to_rs (fd_name (sm_fd m))) (\<lambda>module.
       let file_name = fd_name (sm_fd m)
       in if file_name \<notin> set to_generate \<and> file_name = DESCRIPTOR_PROTO_FILE then
            Some (ProtobufRuntime (''::protobuf::descriptor::'' @ protobuf_runtime_path m))
          else if file_name \<notin> set to_generate \<and> file_name \<in> set WELL_KNOWN_TYPE_PROTO_FILES then
            Some (ProtobufRuntime (''::protobuf::well_known_types::'' @ module @ ''::'' @ protobuf_runtime_path m))
          else Some (Generated module (rust_name m))))"

subsection \<open>The lookup finds what the name means\<close>

text \<open>\<open>m\<close> is the message reached from a list of messages along \<open>path\<close>.\<close>

fun nested_at :: "msg list \<Rightarrow> msg list \<Rightarrow> msg \<Rightarrow> bool" where
  "nested_at ms [] m \<longleftrightarrow> m \<in> set ms"
| "nested_at ms (p # path) m \<longleftrightarrow> p \<in> set ms \<and> nested_at (nested_type p) path m"

fun dotted :: "string list \<Rightarrow> string" where
  "dotted [] = []"
| "dotted [x] = x"
| "dotted (x # y # zs) = x @ CHR ''.'' # dotted (y # zs)"

definition full_name :: "scoped_message \<Rightarrow> string" where
  "full_name m =
     CHR ''.'' # (if fd_package (sm_fd m) = [] then [] else fd_package (sm_fd m) @ ''.'')
       @ dotted (map msg_name (sm_path m @ [sm_msg m]))"

text \<open>Protobuf's rules: names are not empty and have no dot, and differ within a scope.\<close>

fun msgs_ok :: "msg list \<Rightarrow> bool" where
  "msgs_ok [] \<longleftrightarrow> True"
| "msgs_ok (Msg n nested # ms) \<longleftrightarrow> n \<noteq> [] \<and> CHR ''.'' \<notin> set n \<and> n \<notin> msg_name ` set ms \<and> msgs_ok nested \<and> msgs_ok ms"

definition package_ok :: "string \<Rightarrow> bool" where
  "package_ok pkg \<longleftrightarrow> pkg = [] \<or> [] \<notin> set (split_on CHR ''.'' pkg)"

lemma dotted_Cons: "ns \<noteq> [] \<Longrightarrow> dotted (x # ns) = x @ CHR ''.'' # dotted ns"
  by (cases ns) simp_all

lemma find_in_step:
  "strip_prefix n fqn = Some [] \<Longrightarrow> find_in (Msg n nested # ms) fqn path = Some (path, Msg n nested)"
  "strip_prefix n fqn = Some (CHR ''.'' # rest) \<Longrightarrow>
     find_in (Msg n nested # ms) fqn path = find_in nested rest (path @ [Msg n nested])"
  "\<lbrakk>strip_prefix n fqn \<noteq> Some []; \<And>rest. strip_prefix n fqn \<noteq> Some (CHR ''.'' # rest)\<rbrakk> \<Longrightarrow>
     find_in (Msg n nested # ms) fqn path = find_in ms fqn path"
  by (auto split: option.splits list.splits)

lemma find_in_induct [case_names none hit down passed]:
  assumes "\<And>fqn path. P [] fqn path"
    and "\<And>n nested ms fqn path. strip_prefix n fqn = Some [] \<Longrightarrow> P (Msg n nested # ms) fqn path"
    and "\<And>n nested ms fqn path rest. strip_prefix n fqn = Some (CHR ''.'' # rest) \<Longrightarrow> P nested rest (path @ [Msg n nested])
      \<Longrightarrow> P (Msg n nested # ms) fqn path"
    and "\<And>n nested ms fqn path. \<lbrakk>strip_prefix n fqn \<noteq> Some []; \<And>rest. strip_prefix n fqn \<noteq> Some (CHR ''.'' # rest); P ms fqn path\<rbrakk>
      \<Longrightarrow> P (Msg n nested # ms) fqn path"
  shows "P ms fqn path"
proof (induction ms fqn path rule: find_in.induct)
  case (2 n nested ms fqn path)
  show ?case
  proof (cases "strip_prefix n fqn")
    case None
    with 2 assms(4) show ?thesis by simp
  next
    case (Some r)
    show ?thesis
    proof (cases r)
      case Nil
      with Some assms(2) show ?thesis by simp
    next
      case (Cons c rest)
      with Some 2 assms(3,4) show ?thesis by (cases "c = CHR ''.''") auto
    qed
  qed
qed (rule assms(1))

lemma find_in_sound:
  "find_in ms fqn path = Some (path', m) \<Longrightarrow>
     \<exists>q. path' = path @ q \<and> nested_at ms q m \<and> fqn = dotted (map msg_name (q @ [m]))"
proof (induction ms fqn path rule: find_in_induct)
  case (hit n nested ms fqn path)
  then show ?case by (auto simp: find_in_step strip_prefix_Some simp del: find_in.simps)
next
  case (down n nested ms fqn path rest)
  then obtain q where q: "path' = (path @ [Msg n nested]) @ q" "nested_at nested q m" "rest = dotted (map msg_name (q @ [m]))"
    by (auto simp: find_in_step(2) simp del: find_in.simps)
  with down(1) show ?case by (intro exI [of _ "Msg n nested # q"]) (simp add: strip_prefix_Some dotted_Cons)
next
  case (passed n nested ms fqn path)
  then obtain q where q: "path' = path @ q" "nested_at ms q m" "fqn = dotted (map msg_name (q @ [m]))"
    by (auto simp: find_in_step(3) simp del: find_in.simps)
  then show ?case by (intro exI [of _ q]) (cases q; auto)
qed simp

text \<open>A first component without a dot is recognised exactly.\<close>

lemma strip_component:
  assumes "CHR ''.'' \<notin> set n" and "CHR ''.'' \<notin> set x"
  shows "strip_prefix n x = Some [] \<longleftrightarrow> n = x" "strip_prefix n x \<noteq> Some (CHR ''.'' # r')"
    and "strip_prefix n (x @ CHR ''.'' # r) = Some (CHR ''.'' # r') \<longleftrightarrow> n = x \<and> r' = r"
    and "strip_prefix n (x @ CHR ''.'' # r) \<noteq> Some []"
proof -
  show "strip_prefix n x = Some [] \<longleftrightarrow> n = x" "strip_prefix n x \<noteq> Some (CHR ''.'' # r')"
    "strip_prefix n (x @ CHR ''.'' # r) \<noteq> Some []"
    using assms by (auto simp: strip_prefix_Some)
  have "x @ CHR ''.'' # r = n @ CHR ''.'' # r' \<longleftrightarrow> n = x \<and> r' = r"
    using split_on_append [OF assms(1), of r'] split_on_append [OF assms(2), of r] by (metis list.inject same_append_eq)
  then show "strip_prefix n (x @ CHR ''.'' # r) = Some (CHR ''.'' # r') \<longleftrightarrow> n = x \<and> r' = r"
    by (simp add: strip_prefix_Some)
qed

lemma msgs_ok_mem: "msgs_ok ms \<Longrightarrow> m \<in> set ms \<Longrightarrow> CHR ''.'' \<notin> set (msg_name m) \<and> msg_name m \<noteq> [] \<and> msgs_ok (nested_type m)"
  by (induction ms rule: msgs_ok.induct) auto

lemma nested_head:
  assumes "nested_at ms q m"
  shows "hd (q @ [m]) \<in> set ms" and "q = p # r \<Longrightarrow> nested_at (nested_type p) r m"
  using assms by (cases q; auto)+

lemma find_in_complete:
  "\<lbrakk>msgs_ok ms; nested_at ms q m; fqn = dotted (map msg_name (q @ [m]))\<rbrakk> \<Longrightarrow> find_in ms fqn path \<noteq> None"
proof (induction ms fqn path arbitrary: q rule: find_in_induct)
  case (none fqn path)
  then show ?case by (cases q) auto
next
  case (down n nested ms fqn path rest)
  let ?x = "hd (q @ [m])"
  have x: "?x \<in> set (Msg n nested # ms)" "CHR ''.'' \<notin> set (msg_name ?x)" "CHR ''.'' \<notin> set n"
    using nested_head(1) [OF down(4)] msgs_ok_mem [OF down(3)] down(3) by auto
  obtain p r where q: "q = p # r"
    using down(1,5) x strip_component(2) [of n "msg_name m"] by (cases q) auto
  then have "fqn = msg_name p @ CHR ''.'' # dotted (map msg_name (r @ [m]))" using down(5) by (simp add: dotted_Cons)
  with down(1) x q have n: "msg_name p = n" "rest = dotted (map msg_name (r @ [m]))"
    using strip_component(3) [of n "msg_name p"] by auto
  then have "p = Msg n nested" using x(1) q down(3) by auto
  then have "nested_at nested r m" using down(4) q by simp
  with down n show ?case by (simp add: find_in_step(2) del: find_in.simps)
next
  case (passed n nested ms fqn path)
  let ?x = "hd (q @ [m])"
  have x: "?x \<in> set (Msg n nested # ms)" "CHR ''.'' \<notin> set (msg_name ?x)" "CHR ''.'' \<notin> set n"
    using nested_head(1) [OF passed(5)] msgs_ok_mem [OF passed(4)] passed(4) by auto
  have "msg_name ?x \<noteq> n"
  proof
    assume "msg_name ?x = n"
    with passed(1,2,6) x show False
      using strip_component(1) [of n n] strip_component(3) [of n n] by (cases q) (auto simp: dotted_Cons)
  qed
  then have "nested_at ms q m" using passed(5) by (cases q) auto
  with passed show ?case by (simp add: find_in_step(3) del: find_in.simps)
qed simp

lemma split_dotted: "ns \<noteq> [] \<Longrightarrow> \<forall>n \<in> set ns. CHR ''.'' \<notin> set n \<Longrightarrow> split_on CHR ''.'' (dotted ns) = ns"
  by (induction ns rule: dotted.induct) (simp_all add: split_on_no_sep split_on_append)

lemma path_names_ok:
  "msgs_ok ms \<Longrightarrow> nested_at ms q m \<Longrightarrow> n \<in> set (map msg_name (q @ [m])) \<Longrightarrow> CHR ''.'' \<notin> set n \<and> n \<noteq> []"
proof (induction q arbitrary: ms)
  case Nil
  then show ?case using msgs_ok_mem by auto
next
  case (Cons p q)
  then show ?case using msgs_ok_mem [of ms p] by auto
qed

text \<open>The assertion of \<open>find_message\<close> holds for the name of a message.\<close>

lemma no_empty_component:
  assumes "msgs_ok (message_type fd)" and "package_ok (fd_package fd)" and "nested_at (message_type fd) q m"
    and "fqn = (if fd_package fd = [] then [] else fd_package fd @ ''.'') @ dotted (map msg_name (q @ [m]))"
  shows "[] \<notin> set (split_on CHR ''.'' fqn)"
proof -
  have "[] \<notin> set (split_on CHR ''.'' (dotted (map msg_name (q @ [m]))))"
    using path_names_ok [OF assms(1,3)] by (subst split_dotted) auto
  with assms(2,4) show ?thesis
    by (auto simp: package_ok_def split_on_append_sep [where s = "fd_package fd", simplified])
qed

lemma assertion_holds:
  assumes "[] \<notin> set (split_on CHR ''.'' fqn)" and "strip_package pkg fqn = Some fqn2"
  shows "strip_prefix ''.'' fqn2 = None"
proof (rule ccontr)
  assume "strip_prefix ''.'' fqn2 \<noteq> None"
  then obtain r where "fqn2 = CHR ''.'' # r" by (auto simp: strip_prefix_Some)
  with assms(2) have "fqn = CHR ''.'' # r \<or> fqn = pkg @ CHR ''.'' # CHR ''.'' # r"
    by (auto simp: strip_package_def strip_prefix_Some split: option.splits if_splits list.splits)
  then show False using assms(1) by (auto simp: split_on_append_sep)
qed

lemma find_in_files_sound:
  "find_in_files fds fqn = Some m \<Longrightarrow>
     sm_fd m \<in> set fds \<and> nested_at (message_type (sm_fd m)) (sm_path m) (sm_msg m) \<and> full_name m = CHR ''.'' # fqn"
proof (induction fds)
  case (Cons fd fds)
  then consider "find_in_files fds fqn = Some m"
    | fqn2 path x where "strip_package (fd_package fd) fqn = Some fqn2"
        "find_in (message_type fd) fqn2 [] = Some (path, x)" "m = \<lparr>sm_fd = fd, sm_path = path, sm_msg = x\<rparr>"
    by (auto split: option.splits if_splits)
  then show ?case
  proof cases
    case 1
    with Cons show ?thesis by simp
  next
    case (2 fqn2 path x)
    from find_in_sound [OF 2(2)] have "nested_at (message_type fd) path x" "fqn2 = dotted (map msg_name (path @ [x]))" by auto
    with 2(1,3) show ?thesis
      by (auto simp: full_name_def strip_package_def strip_prefix_Some split: option.splits if_splits list.splits)
  qed
qed simp

lemma find_in_files_complete:
  assumes "[] \<notin> set (split_on CHR ''.'' fqn)"
  shows "\<lbrakk>\<forall>fd \<in> set fds. msgs_ok (message_type fd); fd \<in> set fds; nested_at (message_type fd) q m;
      fqn = (if fd_package fd = [] then [] else fd_package fd @ ''.'') @ dotted (map msg_name (q @ [m]))\<rbrakk>
    \<Longrightarrow> find_in_files fds fqn \<noteq> None"
proof (induction fds)
  case (Cons f fds)
  show ?case
  proof (cases "f = fd")
    case True
    have pkg: "strip_package (fd_package fd) fqn = Some (dotted (map msg_name (q @ [m])))"
      using Cons.prems(4) by (auto simp: strip_package_def)
    have "find_in (message_type fd) (dotted (map msg_name (q @ [m]))) [] \<noteq> None"
      using find_in_complete [OF _ Cons.prems(3) refl] Cons.prems(1,2) by blast
    then show ?thesis using pkg assertion_holds [OF assms pkg] True by auto
  next
    case False
    with Cons have "find_in_files fds fqn \<noteq> None" by auto
    then show ?thesis using assertion_holds [OF assms] by (auto split: option.splits)
  qed
qed simp

text \<open>
  C34: The lookup of message types is exact. Over descriptors that keep protobuf's rules for names,
  \<open>find_message\<close> returns, for every text, a message of one of the files, nested as its path says, whose
  full name is that text; and it panics only when no message of any file has that name.
\<close>

theorem find_message_exact:
  assumes "\<forall>fd \<in> set fds. msgs_ok (message_type fd) \<and> package_ok (fd_package fd)"
  shows "(\<forall>m. find_message fds fqn = Some m \<longrightarrow>
        sm_fd m \<in> set fds \<and> nested_at (message_type (sm_fd m)) (sm_path m) (sm_msg m) \<and> full_name m = fqn)
    \<and> (find_message fds fqn = None \<longrightarrow>
        (\<forall>m. sm_fd m \<in> set fds \<and> nested_at (message_type (sm_fd m)) (sm_path m) (sm_msg m) \<longrightarrow> full_name m \<noteq> fqn))"
proof (intro conjI allI impI)
  fix m
  assume found: "find_message fds fqn = Some m"
  then obtain r where "fqn = CHR ''.'' # r" "find_in_files fds r = Some m"
    by (auto simp: find_message_def bind_eq_Some_conv strip_prefix_Some)
  then show "sm_fd m \<in> set fds" "nested_at (message_type (sm_fd m)) (sm_path m) (sm_msg m)" "full_name m = fqn"
    using find_in_files_sound by auto
next
  fix m :: scoped_message
  assume none: "find_message fds fqn = None"
    and m: "sm_fd m \<in> set fds \<and> nested_at (message_type (sm_fd m)) (sm_path m) (sm_msg m)"
  show "full_name m \<noteq> fqn"
  proof
    assume name: "full_name m = fqn"
    define r where "r = (if fd_package (sm_fd m) = [] then [] else fd_package (sm_fd m) @ ''.'')
      @ dotted (map msg_name (sm_path m @ [sm_msg m]))"
    have "[] \<notin> set (split_on CHR ''.'' r)"
      using no_empty_component [OF _ _ _ r_def] assms m by blast
    then have "find_in_files fds r \<noteq> None"
      using find_in_files_complete [of r fds "sm_fd m" "sm_path m" "sm_msg m"] assms m r_def by blast
    moreover have "fqn = CHR ''.'' # r" using name by (simp add: full_name_def r_def)
    ultimately show False using none by (simp add: find_message_def)
  qed
qed

definition nested_file :: file_desc where
  "nested_file = \<lparr>fd_name = DESCRIPTOR_PROTO_FILE, fd_package = ''google.protobuf'',
     message_type = [Msg ''DescriptorProto'' [Msg ''ExtensionRange'' []]], fd_service = []\<rparr>"

text \<open>The compiler's test of a nested type.\<close>

theorem find_message_exact_witness:
  "\<exists>m. find_message [nested_file] ''.google.protobuf.DescriptorProto.ExtensionRange'' = Some m
     \<and> full_name m = ''.google.protobuf.DescriptorProto.ExtensionRange''
     \<and> protobuf_runtime_path m = ''descriptor_proto::ExtensionRange''"
proof -
  have ok: "\<forall>fd \<in> set [nested_file]. msgs_ok (message_type fd) \<and> package_ok (fd_package fd)"
    by (simp add: nested_file_def package_ok_def)
  obtain m where m: "find_message [nested_file] ''.google.protobuf.DescriptorProto.ExtensionRange'' = Some m"
      "m = \<lparr>sm_fd = nested_file, sm_path = [Msg ''DescriptorProto'' [Msg ''ExtensionRange'' []]], sm_msg = Msg ''ExtensionRange'' []\<rparr>"
    by (simp add: find_message_def nested_file_def strip_package_def)
  have "to_snake_case ''DescriptorProto'' = ''descriptor_proto''" by code_simp
  then have "protobuf_runtime_path m = ''descriptor_proto::ExtensionRange''" by (simp add: protobuf_runtime_path_def m(2))
  with find_message_exact [OF ok] m(1) show ?thesis by blast
qed

end
