(* ===== verification/Codegen.thy ===== *)
theory Codegen
  imports GenScope "HOL-Library.Char_ord" "HOL-Library.List_Lexorder"
begin

text \<open>
  The service generator: the writer of \<open>src/compiler/src/util/writer.rs\<close>, the methods and services of
  \<open>src/compiler/src/codegen.rs\<close> and the files it writes, with the index \<open>mod.rs\<close>.
  A panic is \<open>None\<close>; a text built by
  \<open>format!\<close> from parts that may panic is \<open>fmt\<close> of their list.
\<close>

subsection \<open>The writer (writer.rs)\<close>

record code_writer =
  cw_writer :: string
  cw_indent :: string

type_synonym wop = "code_writer \<Rightarrow> code_writer option"

definition code_writer_new :: code_writer where
  "code_writer_new = \<lparr>cw_writer = [], cw_indent = []\<rparr>"

definition write_line :: "string \<Rightarrow> code_writer \<Rightarrow> code_writer" where
  "write_line l w =
     (if l = [] then w\<lparr>cw_writer := cw_writer w @ [CHR 0x0A]\<rparr>
      else w\<lparr>cw_writer := cw_writer w @ cw_indent w @ l @ [CHR 0x0A]\<rparr>)"

fun fmt :: "'a list option list \<Rightarrow> 'a list option" where
  "fmt [] = Some []"
| "fmt (p # ps) = Option.bind p (\<lambda>s. map_option (\<lambda>t. s @ t) (fmt ps))"

definition line :: "string option \<Rightarrow> wop" where
  "line l w = map_option (\<lambda>x. write_line x w) l"

fun wseq :: "wop list \<Rightarrow> wop" where
  "wseq [] w = Some w"
| "wseq (f # fs) w = Option.bind (f w) (wseq fs)"

definition indented :: "wop \<Rightarrow> wop" where
  "indented cb w =
     map_option (\<lambda>w'. w'\<lparr>cw_indent := take (length (cw_indent w') - 4) (cw_indent w')\<rparr>)
       (cb (w\<lparr>cw_indent := cw_indent w @ ''    ''\<rparr>))"

definition code_block :: "string option \<Rightarrow> string option \<Rightarrow> wop \<Rightarrow> wop" where
  "code_block first_line last_line cb = wseq [line first_line, indented cb, line last_line]"

definition expr_block :: "string option \<Rightarrow> wop \<Rightarrow> wop" where
  "expr_block head cb = code_block (fmt [head, Some '' {'']) (Some ''}'') cb"

definition pub_fn :: "string option \<Rightarrow> wop \<Rightarrow> wop" where
  "pub_fn sig cb = expr_block (fmt [Some ''pub fn '', sig]) cb"

definition def_fn :: "string option \<Rightarrow> wop \<Rightarrow> wop" where
  "def_fn sig cb = expr_block (fmt [Some ''fn '', sig]) cb"

definition pub_struct :: "string option \<Rightarrow> wop \<Rightarrow> wop" where
  "pub_struct name cb = expr_block (fmt [Some ''pub struct '', name]) cb"

definition field_decl :: "string \<Rightarrow> string \<Rightarrow> wop" where
  "field_decl name type = line (Some (name @ '': '' @ type @ '',''))"

definition impl_self_block :: "string option \<Rightarrow> wop \<Rightarrow> wop" where
  "impl_self_block name cb = expr_block (fmt [Some ''impl '', name]) cb"

definition pub_trait :: "string option \<Rightarrow> wop \<Rightarrow> wop" where
  "pub_trait name cb = expr_block (fmt [Some ''pub trait '', name]) cb"

definition async_fn_block :: "bool \<Rightarrow> string option \<Rightarrow> wop \<Rightarrow> wop" where
  "async_fn_block public sig cb =
     expr_block (fmt [Some (if public then ''pub async fn '' else ''async fn ''), sig]) cb"

abbreviation pub_async_fn :: "string option \<Rightarrow> wop \<Rightarrow> wop" where "pub_async_fn \<equiv> async_fn_block True"
abbreviation def_async_fn :: "string option \<Rightarrow> wop \<Rightarrow> wop" where "def_async_fn \<equiv> async_fn_block False"

subsection \<open>Methods (codegen.rs, MethodGen)\<close>

record customize =
  async_all :: bool
  async_client :: bool
  async_server :: bool
  gen_mod :: bool

datatype side = ClientSide | ServerSide

definition async_on :: "customize \<Rightarrow> side \<Rightarrow> bool" where
  "async_on c s = (case s of ServerSide \<Rightarrow> async_all c \<or> async_server c | ClientSide \<Rightarrow> async_all c \<or> async_client c)"

datatype method_type = Unary | ClientStreaming | ServerStreaming | Duplex

record root_scope =
  rs_proto_name_to_rs :: "string \<Rightarrow> string"
  file_descriptors :: "file_desc list"
  files_to_generate :: "string list"

record method_gen =
  mg_proto :: method_desc
  mg_package :: string
  mg_service :: string
  mg_scope :: root_scope
  mg_customize :: customize

abbreviation quot :: string where "quot \<equiv> [CHR 0x22]"

definition fq_grpc :: "string \<Rightarrow> string" where
  "fq_grpc item = ''::ttrpc::'' @ item"

definition mg_rust_type :: "method_gen \<Rightarrow> string \<Rightarrow> rust_type option" where
  "mg_rust_type g t =
     find_rust_type (rs_proto_name_to_rs (mg_scope g)) (file_descriptors (mg_scope g)) (files_to_generate (mg_scope g)) t"

definition mg_input :: "method_gen \<Rightarrow> string option" where
  "mg_input g = map_option display_rust_type (mg_rust_type g (input_type (mg_proto g)))"

definition mg_output :: "method_gen \<Rightarrow> string option" where
  "mg_output g = map_option display_rust_type (mg_rust_type g (output_type (mg_proto g)))"

definition mg_name :: "method_gen \<Rightarrow> string" where
  "mg_name g = to_snake_case (md_name (mg_proto g))"

definition struct_name :: "method_gen \<Rightarrow> string option" where
  "struct_name g = to_camel_case (md_name (mg_proto g))"

definition const_method_name :: "method_gen \<Rightarrow> string" where
  "const_method_name g =
     ''METHOD_'' @ to_uppercase (to_snake_case (mg_service g)) @ ''_'' @ to_uppercase (mg_name g)"

definition method_type_of :: "method_desc \<Rightarrow> method_type" where
  "method_type_of m =
     (case (client_streaming m, server_streaming m) of
        (False, False) \<Rightarrow> Unary
      | (True, False) \<Rightarrow> ClientStreaming
      | (False, True) \<Rightarrow> ServerStreaming
      | (True, True) \<Rightarrow> Duplex)"

abbreviation mg_method_type :: "method_gen \<Rightarrow> method_type" where
  "mg_method_type g \<equiv> method_type_of (mg_proto g)"

definition request_handler_call :: "method_gen \<Rightarrow> string \<Rightarrow> string \<Rightarrow> string option" where
  "request_handler_call g macro request =
     map_option (\<lambda>t. case t of
         Generated module name \<Rightarrow>
           ''::ttrpc::'' @ macro @ ''!(self, ctx, '' @ request @ '', '' @ module @ '', '' @ name @ '', '' @ mg_name g @ '');''
       | ProtobufRuntime path \<Rightarrow>
           ''::ttrpc::'' @ macro @ ''!(self, ctx, '' @ request @ '', '' @ path @ '', '' @ mg_name g @ '');'')
       (mg_rust_type g (input_type (mg_proto g)))"

definition write_handler_impl :: "method_gen \<Rightarrow> wop" where
  "write_handler_impl g =
     code_block (fmt [Some ''impl ::ttrpc::MethodHandler for '', struct_name g, Some ''Method {'']) (Some ''}'')
       (code_block (Some ''fn handler(&self, ctx: ::ttrpc::TtrpcContext, req: ::ttrpc::Request) -> ::ttrpc::Result<()> {'') (Some ''}'')
         (wseq [line (request_handler_call g ''request_handler'' ''req''), line (Some ''Ok(())'')]))"

definition write_async_handler :: "method_gen \<Rightarrow> string \<Rightarrow> string \<Rightarrow> string \<Rightarrow> string option \<Rightarrow> wop" where
  "write_async_handler g trait arg result call =
     code_block (fmt [Some (''impl ::ttrpc::r#async::'' @ trait @ '' for ''), struct_name g, Some ''Method {'']) (Some ''}'')
       (code_block (Some (''async fn handler(&self, ctx: ::ttrpc::r#async::TtrpcContext, '' @ arg @ '') -> ::ttrpc::Result<'' @ result @ ''> {'')) (Some ''}'')
         (line call))"

definition write_handler_impl_async :: "method_gen \<Rightarrow> wop" where
  "write_handler_impl_async g = wseq [line (Some ''#[async_trait]''),
     (case mg_method_type g of
        Unary \<Rightarrow> write_async_handler g ''MethodHandler'' ''req: ::ttrpc::Request'' ''::ttrpc::Response''
          (request_handler_call g ''async_request_handler'' ''req'')
      | ClientStreaming \<Rightarrow> write_async_handler g ''StreamHandler'' ''inner: ::ttrpc::r#async::StreamInner'' ''Option<::ttrpc::Response>''
          (Some (''::ttrpc::async_client_streamimg_handler!(self, ctx, inner, '' @ mg_name g @ '');''))
      | ServerStreaming \<Rightarrow> write_async_handler g ''StreamHandler'' ''mut inner: ::ttrpc::r#async::StreamInner'' ''Option<::ttrpc::Response>''
          (request_handler_call g ''async_server_streamimg_handler'' ''inner'')
      | Duplex \<Rightarrow> write_async_handler g ''StreamHandler'' ''inner: ::ttrpc::r#async::StreamInner'' ''Option<::ttrpc::Response>''
          (Some (''::ttrpc::async_duplex_streamimg_handler!(self, ctx, inner, '' @ mg_name g @ '');'')))]"

definition write_handler :: "method_gen \<Rightarrow> wop" where
  "write_handler g = wseq
     [code_block (fmt [Some ''struct '', struct_name g, Some ''Method {'']) (Some ''}'')
        (line (Some (''service: Arc<dyn '' @ mg_service g @ '' + Send + Sync>,''))),
      line (Some []),
      (if async_on (mg_customize g) ServerSide then write_handler_impl_async g else write_handler_impl g)]"

text \<open>Signatures of the client's functions.\<close>

definition sig_unary :: "method_gen \<Rightarrow> string \<Rightarrow> string option" where
  "sig_unary g name = fmt [Some (name @ ''(&self, ctx: ttrpc::context::Context, req: &''), mg_input g,
     Some ('') -> '' @ fq_grpc ''Result'' @ ''<''), mg_output g, Some ''>'']"

definition sig_client_streaming :: "method_gen \<Rightarrow> string \<Rightarrow> string option" where
  "sig_client_streaming g name = fmt [Some (name @ ''(&self, ctx: ttrpc::context::Context) -> '' @ fq_grpc ''Result'' @ ''<''
     @ fq_grpc ''r#async::ClientStreamSender'' @ ''<''), mg_input g, Some '', '', mg_output g, Some ''>>'']"

definition sig_server_streaming :: "method_gen \<Rightarrow> string \<Rightarrow> string option" where
  "sig_server_streaming g name = fmt [Some (name @ ''(&self, ctx: ttrpc::context::Context, req: &''), mg_input g,
     Some ('') -> '' @ fq_grpc ''Result'' @ ''<'' @ fq_grpc ''r#async::ClientStreamReceiver'' @ ''<''), mg_output g, Some ''>>'']"

definition sig_duplex_streaming :: "method_gen \<Rightarrow> string \<Rightarrow> string option" where
  "sig_duplex_streaming g name = fmt [Some (name @ ''(&self, ctx: ttrpc::context::Context) -> '' @ fq_grpc ''Result'' @ ''<''
     @ fq_grpc ''r#async::ClientStream'' @ ''<''), mg_input g, Some '', '', mg_output g, Some ''>>'']"

text \<open>The two literals by which a generated client names the method it calls.\<close>

definition wire_service :: "method_gen \<Rightarrow> string" where
  "wire_service g = mg_package g @ ''.'' @ mg_service g"

definition wire_names :: "method_gen \<Rightarrow> string" where
  "wire_names g = quot @ wire_service g @ quot @ '', '' @ quot @ md_name (mg_proto g) @ quot"

definition write_client :: "method_gen \<Rightarrow> wop" where
  "write_client g =
     (if mg_method_type g = Unary then
        pub_fn (sig_unary g (mg_name g)) (wseq
          [line (fmt [Some ''let mut cres = '', mg_output g, Some ''::new();'']),
           line (Some (''::ttrpc::client_request!(self, ctx, req, '' @ wire_names g @ '', cres);'')),
           line (Some ''Ok(cres)'')])
      else wseq [])"

definition write_async_client :: "method_gen \<Rightarrow> wop" where
  "write_async_client g =
     (case mg_method_type g of
        Unary \<Rightarrow> pub_async_fn (sig_unary g (mg_name g)) (wseq
          [line (fmt [Some ''let mut cres = '', mg_output g, Some ''::new();'']),
           line (Some (''::ttrpc::async_client_request!(self, ctx, req, '' @ wire_names g @ '', cres);''))])
      | ClientStreaming \<Rightarrow> pub_async_fn (sig_client_streaming g (mg_name g))
          (line (Some (''::ttrpc::async_client_stream_send!(self, ctx, '' @ wire_names g @ '');'')))
      | ServerStreaming \<Rightarrow> pub_async_fn (sig_server_streaming g (mg_name g))
          (line (Some (''::ttrpc::async_client_stream_receive!(self, ctx, req, '' @ wire_names g @ '');'')))
      | Duplex \<Rightarrow> pub_async_fn (sig_duplex_streaming g (mg_name g))
          (line (Some (''::ttrpc::async_client_stream!(self, ctx, '' @ wire_names g @ '');''))))"

definition service_types :: "method_gen \<Rightarrow> string option \<times> string option" where
  "service_types g =
     (case mg_method_type g of
        Unary \<Rightarrow> (mg_input g, mg_output g)
      | ClientStreaming \<Rightarrow> (fmt [Some ''::ttrpc::r#async::ServerStreamReceiver<'', mg_input g, Some ''>''], mg_output g)
      | ServerStreaming \<Rightarrow>
          (fmt [mg_input g, Some '', _: ::ttrpc::r#async::ServerStreamSender<'', mg_output g, Some ''>''], Some ''()'')
      | Duplex \<Rightarrow>
          (fmt [Some ''::ttrpc::r#async::ServerStream<'', mg_output g, Some '', '', mg_input g, Some ''>''], Some ''()''))"

definition write_service :: "method_gen \<Rightarrow> wop" where
  "write_service g =
     (case service_types g of (req_type, resp_type) \<Rightarrow>
        let sig = (\<lambda>context. fmt [Some (mg_name g @ ''(&self, _ctx: &'' @ fq_grpc context @ '', _: ''), req_type,
              Some '') -> ::ttrpc::Result<'', resp_type, Some ''>'']);
            cb = line (Some (''Err(::ttrpc::Error::RpcStatus(::ttrpc::get_status(::ttrpc::Code::NOT_FOUND, '' @ quot @ ''/''
              @ wire_service g @ ''/'' @ md_name (mg_proto g) @ '' is not supported'' @ quot @ ''.to_string())))''))
        in if async_on (mg_customize g) ServerSide then def_async_fn (sig ''r#async::TtrpcContext'') cb
           else def_fn (sig ''TtrpcContext'') cb)"

definition bind_entry :: "string \<Rightarrow> string \<Rightarrow> method_gen \<Rightarrow> string \<Rightarrow> string \<Rightarrow> string option" where
  "bind_entry table key g ptr type =
     fmt [Some (table @ ''.insert('' @ quot @ key @ quot @ ''.to_string(),'' @ [CHR 0x0A] @ replicate 20 CHR '' '' @ ptr @ ''::new(''),
          struct_name g, Some (''Method{service: service.clone()}) as '' @ type @ '');'')]"

definition write_bind :: "method_gen \<Rightarrow> wop" where
  "write_bind g = line (bind_entry ''methods'' (''/'' @ wire_service g @ ''/'' @ md_name (mg_proto g)) g
     ''Box'' ''Box<dyn ::ttrpc::MethodHandler + Send + Sync>'')"

definition write_async_bind :: "method_gen \<Rightarrow> wop" where
  "write_async_bind g = line
     (if mg_method_type g = Unary then
        bind_entry ''methods'' (md_name (mg_proto g)) g ''Box'' ''Box<dyn ::ttrpc::r#async::MethodHandler + Send + Sync>''
      else bind_entry ''streams'' (md_name (mg_proto g)) g ''Arc'' ''Arc<dyn ::ttrpc::r#async::StreamHandler + Send + Sync>'')"

subsection \<open>Services (codegen.rs, ServiceGen)\<close>

text \<open>
  \<open>sg_service\<close> is \<open>service_name()\<close>, the camel case of the service's name, computed once: every service is
  written with a client, whose name needs it, so a panic in it is a panic of the service either way.
\<close>

record service_gen =
  sg_service :: string
  sg_methods :: "method_gen list"
  sg_customize :: customize
  sg_package :: string

definition service_gen_new :: "root_scope \<Rightarrow> customize \<Rightarrow> file_desc \<Rightarrow> service_desc \<Rightarrow> service_gen option" where
  "service_gen_new sc c file svc =
     map_option (\<lambda>s. \<lparr>sg_service = s,
         sg_methods = map (\<lambda>m. \<lparr>mg_proto = m, mg_package = fd_package file, mg_service = s, mg_scope = sc, mg_customize = c\<rparr>)
           (sd_method svc),
         sg_customize = c, sg_package = fd_package file\<rparr>)
       (to_camel_case (sd_name svc))"

definition service_path :: "service_gen \<Rightarrow> string" where
  "service_path s = sg_package s @ ''.'' @ sg_service s"

definition client_name :: "service_gen \<Rightarrow> string" where
  "client_name s = sg_service s @ ''Client''"

definition has_stream_method :: "service_gen \<Rightarrow> bool" where
  "has_stream_method s \<longleftrightarrow> (\<exists>m \<in> set (sg_methods s). mg_method_type m \<noteq> Unary)"

definition has_normal_method :: "service_gen \<Rightarrow> bool" where
  "has_normal_method s \<longleftrightarrow> (\<exists>m \<in> set (sg_methods s). mg_method_type m = Unary)"

definition write_client_type :: "service_gen \<Rightarrow> string \<Rightarrow> (method_gen \<Rightarrow> wop) \<Rightarrow> wop" where
  "write_client_type s type wm = wseq
     [line (Some ''#[derive(Clone)]''),
      pub_struct (Some (client_name s)) (field_decl ''client'' type),
      line (Some []),
      impl_self_block (Some (client_name s)) (wseq
        (pub_fn (Some (''new(client: '' @ type @ '') -> Self'')) (expr_block (Some (client_name s)) (line (Some ''client,'')))
         # concat (map (\<lambda>m. [line (Some []), wm m]) (sg_methods s))))]"

definition write_sync_client :: "service_gen \<Rightarrow> wop" where
  "write_sync_client s = write_client_type s ''::ttrpc::Client'' write_client"

definition write_async_client_type :: "service_gen \<Rightarrow> wop" where
  "write_async_client_type s = write_client_type s ''::ttrpc::r#async::Client'' write_async_client"

definition sg_write_client :: "service_gen \<Rightarrow> wop" where
  "sg_write_client s =
     (if async_on (sg_customize s) ClientSide then write_async_client_type s else write_sync_client s)"

definition table_decl :: "string \<Rightarrow> bool \<Rightarrow> wop" where
  "table_decl name used = line (Some ((if used then ''let mut '' else ''let '') @ name @ '' = HashMap::new();''))"

definition write_sync_server_create :: "service_gen \<Rightarrow> wop" where
  "write_sync_server_create s =
     pub_fn (Some (''create_'' @ to_snake_case (sg_service s) @ ''(service: Arc<dyn '' @ sg_service s
         @ '' + Send + Sync>) -> HashMap<String, Box<dyn ::ttrpc::MethodHandler + Send + Sync>>''))
       (wseq (table_decl ''methods'' (has_normal_method s)
          # concat (map (\<lambda>m. [line (Some []), write_bind m]) (sg_methods s))
          @ [line (Some []), line (Some ''methods'')]))"

definition write_async_server_create :: "service_gen \<Rightarrow> wop" where
  "write_async_server_create s =
     pub_fn (Some (''create_'' @ to_snake_case (sg_service s) @ ''(service: Arc<dyn '' @ sg_service s
         @ '' + Send + Sync>) -> HashMap<String, ::ttrpc::r#async::Service>''))
       (wseq ([line (Some ''let mut ret = HashMap::new();''), table_decl ''methods'' (has_normal_method s),
               table_decl ''streams'' (has_stream_method s)]
          @ concat (map (\<lambda>m. [line (Some []), write_async_bind m]) (sg_methods s))
          @ [line (Some []),
             line (Some (''ret.insert('' @ quot @ service_path s @ quot @ ''.to_string(), ::ttrpc::r#async::Service{ methods, streams });'')),
             line (Some ''ret'')]))"

definition sg_write_server :: "service_gen \<Rightarrow> wop" where
  "sg_write_server s =
     (let is_async = async_on (sg_customize s) ServerSide
      in wseq ((if is_async then [line (Some ''#[async_trait]'')] else [])
           @ [pub_trait (Some (sg_service s @ (if is_async then '': Sync'' else []))) (wseq (map write_service (sg_methods s))),
              line (Some []),
              (if is_async then write_async_server_create s else write_sync_server_create s)]))"

fun write_method_handlers :: "method_gen list \<Rightarrow> wop" where
  "write_method_handlers [] = wseq []"
| "write_method_handlers [m] = write_handler m"
| "write_method_handlers (m # ms) = wseq [write_handler m, line (Some []), write_method_handlers ms]"

definition sg_write :: "service_gen \<Rightarrow> wop" where
  "sg_write s = wseq [sg_write_client s, line (Some []), write_method_handlers (sg_methods s), line (Some []), sg_write_server s]"

subsection \<open>Files\<close>

definition write_generated_common :: wop where
  "write_generated_common = wseq (map (\<lambda>l. line (Some l))
     [''// @generated'', [], ''#![cfg_attr(rustfmt, rustfmt_skip)]'', ''#![allow(unknown_lints)]'', ''#![allow(clipto_camel_casepy)]'',
      ''#![allow(dead_code)]'', ''#![allow(missing_docs)]'', ''#![allow(non_camel_case_types)]'', ''#![allow(non_snake_case)]'',
      ''#![allow(non_upper_case_globals)]'', ''#![allow(trivial_casts)]'', ''#![allow(unsafe_code)]'', ''#![allow(unused_imports)]'',
      ''#![allow(unused_results)]'', ''#![allow(clippy::all)]''])"

definition write_generated_by :: "string \<Rightarrow> string \<Rightarrow> wop" where
  "write_generated_by pkg version = wseq
     [line (Some (''// This file is generated by '' @ pkg @ '' '' @ version @ ''. Do not edit'')), write_generated_common]"

record gen_file_out =
  gf_name :: string
  gf_content :: string

text \<open>\<open>version\<close> is the package version the compiler was built with; the outer \<open>None\<close> is a panic.\<close>

definition gen_file :: "string \<Rightarrow> root_scope \<Rightarrow> customize \<Rightarrow> file_desc \<Rightarrow> gen_file_out option option" where
  "gen_file version sc c file =
     (if fd_service file = [] then Some None
      else Option.bind (proto_path_to_rust_mod (rs_proto_name_to_rs sc) (fd_name file)) (\<lambda>base.
           map_option (\<lambda>w. Some \<lparr>gf_name = base @ ''_ttrpc.rs'', gf_content = cw_writer w\<rparr>)
             (wseq ([write_generated_by ''ttrpc-compiler'' version,
                 line (Some ''use protobuf::{CodedInputStream, CodedOutputStream, Message};''),
                 line (Some ''use std::collections::HashMap;''), line (Some ''use std::sync::Arc;'')]
               @ (if async_all c \<or> async_client c \<or> async_server c then [line (Some ''use async_trait::async_trait;'')] else [])
               @ concat (map (\<lambda>svc. [line (Some []), \<lambda>w. Option.bind (service_gen_new sc c file svc) (\<lambda>s. sg_write s w)])
                   (fd_service file)))
              code_writer_new)))"

text \<open>The files in the order asked for; the map of files by name keeps the last of two with one name.\<close>

fun gen_files :: "string \<Rightarrow> root_scope \<Rightarrow> customize \<Rightarrow> string list \<Rightarrow> gen_file_out list option" where
  "gen_files version sc c [] = Some []"
| "gen_files version sc c (f # fs) =
     Option.bind (map_of (rev (map (\<lambda>fd. (fd_name fd, fd)) (file_descriptors sc))) f) (\<lambda>file.
     Option.bind (gen_file version sc c file) (\<lambda>out.
     map_option (\<lambda>rest. (case out of None \<Rightarrow> [] | Some o1 \<Rightarrow> [o1]) @ rest) (gen_files version sc c fs)))"

definition gen :: "string \<Rightarrow> (string \<Rightarrow> string) \<Rightarrow> file_desc list \<Rightarrow> string list \<Rightarrow> customize \<Rightarrow> gen_file_out list option" where
  "gen version to_rs fds to_generate c =
     gen_files version \<lparr>rs_proto_name_to_rs = to_rs, file_descriptors = fds, files_to_generate = to_generate\<rparr> c to_generate"

subsection \<open>The index of modules\<close>

definition GENERATED_LINE :: string where "GENERATED_LINE = ''// @generated''"
definition RUSTFMT_SKIP :: string where "RUSTFMT_SKIP = ''#![cfg_attr(rustfmt, rustfmt::skip)]''"

text \<open>\<open>BufRead::lines\<close>: a line ends at a newline, which is dropped with a carriage return before it.\<close>

definition drop_cr :: "string \<Rightarrow> string" where
  "drop_cr l = (if l \<noteq> [] \<and> last l = CHR 0x0D then butlast l else l)"

definition buf_lines :: "string \<Rightarrow> string list" where
  "buf_lines t =
     (let ps = split_on CHR 0x0A t
      in map drop_cr (butlast ps) @ (if last ps = [] then [] else [last ps]))"

definition module_line :: "gen_file_out \<Rightarrow> string" where
  "module_line r = ''pub mod '' @ hd (split_on CHR ''.'' (gf_name r)) @ '';''"

text \<open>The modules that are not in the set yet, each once.\<close>

fun add_new :: "string set \<Rightarrow> string list \<Rightarrow> string list" where
  "add_new seen [] = []"
| "add_new seen (m # ms) = (if m \<in> seen then add_new seen ms else m # add_new (insert m seen) ms)"

definition index_lines :: "string list \<Rightarrow> gen_file_out list \<Rightarrow> string list" where
  "index_lines existing results =
     (let kept = filter (\<lambda>l. l \<noteq> GENERATED_LINE \<and> l \<noteq> RUSTFMT_SKIP) existing
      in [GENERATED_LINE, RUSTFMT_SKIP] @ kept
         @ add_new (set ([GENERATED_LINE, RUSTFMT_SKIP] @ kept)) (sort (map module_line results)))"

definition unlines :: "string list \<Rightarrow> string" where
  "unlines ls = concat (map (\<lambda>l. l @ [CHR 0x0A]) ls)"

text \<open>
  The directory is a map from names to contents; \<open>read_err\<close> is an error in reading the old index, and
  \<open>open_err\<close> tells which files cannot be opened for writing.
\<close>

fun write_files :: "(string \<Rightarrow> 'e option) \<Rightarrow> (string \<times> string) list \<Rightarrow> (string \<rightharpoonup> string) \<Rightarrow> ('e + unit) \<times> (string \<rightharpoonup> string)" where
  "write_files open_err [] dir = (Ok (), dir)"
| "write_files open_err ((n, t) # fs) dir =
     (case open_err n of Some e \<Rightarrow> (Err e, dir) | None \<Rightarrow> write_files open_err fs (dir(n \<mapsto> t)))"

definition index_file :: "'e option \<Rightarrow> (string \<rightharpoonup> string) \<Rightarrow> gen_file_out list \<Rightarrow> 'e + (string \<times> string) list" where
  "index_file read_err dir results =
     (case (dir ''mod.rs'', read_err) of
        (Some old, Some e) \<Rightarrow> Err e
      | (Some old, None) \<Rightarrow> Ok [(''mod.rs'', unlines (index_lines (buf_lines old) results))]
      | (None, _) \<Rightarrow> Ok [(''mod.rs'', unlines (index_lines [] results))])"

definition gen_and_write ::
  "string \<Rightarrow> (string \<Rightarrow> string) \<Rightarrow> file_desc list \<Rightarrow> string list \<Rightarrow> customize \<Rightarrow> 'e option \<Rightarrow> (string \<Rightarrow> 'e option)
    \<Rightarrow> (string \<rightharpoonup> string) \<Rightarrow> (('e + unit) \<times> (string \<rightharpoonup> string)) option" where
  "gen_and_write version to_rs fds to_generate c read_err open_err dir =
     map_option (\<lambda>results.
       case (if gen_mod c then index_file read_err dir results else Ok []) of
         Inl e \<Rightarrow> (Err e, dir)
       | Inr index \<Rightarrow> write_files open_err (index @ map (\<lambda>r. (gf_name r, gf_content r)) results) dir)
     (gen version to_rs fds to_generate c)"

subsection \<open>Merging the index\<close>

lemma add_new_props:
  "set (add_new seen ms) = set ms - seen" "distinct (add_new seen ms)" "sorted ms \<Longrightarrow> sorted (add_new seen ms)"
proof (induction ms arbitrary: seen)
  case (Cons m ms)
  {
    case 1
    show ?case using Cons(1) by auto
  next
    case 2
    show ?case using Cons(1,2) by auto
  next
    case 3
    then show ?case using Cons(1,3) by auto
  }
qed simp_all

lemma split_unlines:
  "\<forall>l \<in> set ls. CHR 0x0A \<notin> set l \<Longrightarrow> split_on CHR 0x0A (unlines ls) = ls @ [[]]"
  by (induction ls) (simp_all add: unlines_def split_on_append)

lemma buf_lines_unlines:
  assumes "\<forall>l \<in> set ls. CHR 0x0A \<notin> set l \<and> CHR 0x0D \<notin> set l"
  shows "buf_lines (unlines ls) = ls"
proof -
  have "map drop_cr ls = ls"
    using assms by (intro map_idI) (metis drop_cr_def last_in_set)
  then show ?thesis using assms by (simp add: buf_lines_def split_unlines)
qed

lemma split_on_chars: "p \<in> set (split_on x t) \<Longrightarrow> set p \<subseteq> set t"
proof (induction x t arbitrary: p rule: split_on.induct)
  case (2 x c cs)
  then show ?case by (cases "c = x") (force split: list.splits)+
qed simp

lemma buf_lines_clean:
  assumes "CHR 0x0D \<notin> set t" and "l \<in> set (buf_lines t)"
  shows "CHR 0x0A \<notin> set l \<and> CHR 0x0D \<notin> set l"
proof -
  have "drop_cr p = p" if "p \<in> set (split_on CHR 0x0A t)" for p
  proof -
    have "set p \<subseteq> set t" using split_on_chars [OF that] .
    then have "CHR 0x0D \<notin> set p" using assms(1) by blast
    then have "p = [] \<or> last p \<noteq> CHR 0x0D" by (metis last_in_set)
    then show ?thesis by (auto simp: drop_cr_def)
  qed
  then have "map drop_cr (butlast (split_on CHR 0x0A t)) = butlast (split_on CHR 0x0A t)"
    by (intro map_idI) (auto dest: in_set_butlastD)
  then have "l \<in> set (split_on CHR 0x0A t)"
    using assms(2) split_on_nonempty [of "CHR 0x0A" t]
    by (auto simp: buf_lines_def Let_def dest: in_set_butlastD split: if_splits)
  from split_on_pieces [OF this] split_on_chars [OF this] assms(1) show ?thesis by blast
qed

lemma add_new_present: "set ms \<subseteq> seen \<Longrightarrow> add_new seen ms = []"
  by (induction ms) auto

lemma index_lines_idem:
  assumes "set (map module_line results') = set (map module_line results)"
  shows "index_lines (index_lines ls results) results' = index_lines ls results"
proof -
  have "GENERATED_LINE \<noteq> module_line r" "RUSTFMT_SKIP \<noteq> module_line r" for r
    by (simp_all add: GENERATED_LINE_def RUSTFMT_SKIP_def module_line_def)
  then have "filter (\<lambda>l. l \<noteq> GENERATED_LINE \<and> l \<noteq> RUSTFMT_SKIP) (index_lines ls results) = drop 2 (index_lines ls results)"
    by (auto simp: index_lines_def Let_def filter_id_conv add_new_props RUSTFMT_SKIP_def GENERATED_LINE_def)
  moreover have "set (sort (map module_line results')) \<subseteq> set (index_lines ls results)"
    using assms by (auto simp: index_lines_def Let_def add_new_props)
  moreover have "[GENERATED_LINE, RUSTFMT_SKIP] @ drop 2 (index_lines ls results) = index_lines ls results"
    by (simp add: index_lines_def Let_def)
  ultimately show ?thesis
    unfolding index_lines_def [of "index_lines ls results"] Let_def by (simp add: add_new_present)
qed

lemma write_files_ok:
  "write_files (\<lambda>_. None) fs dir = (Ok (), dir') \<Longrightarrow> n \<notin> fst ` set fs \<Longrightarrow> dir' n = dir n"
  by (induction fs arbitrary: dir) auto

lemma gen_files_names:
  "gen_files version sc c fs = Some results \<Longrightarrow> r \<in> set results \<Longrightarrow> \<exists>b. gf_name r = b @ ''_ttrpc.rs''"
proof (induction fs arbitrary: results)
  case (Cons f fs)
  then obtain x out rest where f: "gen_file version sc c x = Some out" "gen_files version sc c fs = Some rest"
      "results = (case out of None \<Rightarrow> [] | Some o1 \<Rightarrow> [o1]) @ rest"
    by (auto simp: bind_eq_Some_conv)
  have "\<exists>b. gf_name o1 = b @ ''_ttrpc.rs''" if "out = Some o1" for o1
    using f(1) that by (auto simp: gen_file_def bind_eq_Some_conv split: if_splits)
  with f(2,3) Cons show ?case by (auto split: option.splits)
qed simp

lemma gen_and_write_index:
  assumes "gen_mod c" and "gen version to_rs fds fs c = Some results"
    and "gen_and_write version to_rs fds fs c (None :: 'e option) (\<lambda>_. None) dir = Some (Ok (), dir')"
  shows "dir' ''mod.rs'' = Some (unlines (index_lines (case dir ''mod.rs'' of None \<Rightarrow> [] | Some t \<Rightarrow> buf_lines t) results))"
proof -
  let ?t = "unlines (index_lines (case dir ''mod.rs'' of None \<Rightarrow> [] | Some t \<Rightarrow> buf_lines t) results)"
  have "write_files (\<lambda>_. None :: 'e option) (map (\<lambda>r. (gf_name r, gf_content r)) results) (dir(''mod.rs'' \<mapsto> ?t)) = (Ok (), dir')"
    using assms by (auto simp: gen_and_write_def index_file_def split: option.splits)
  moreover have "''mod.rs'' \<notin> fst ` set (map (\<lambda>r. (gf_name r, gf_content r)) results)"
  proof
    assume "''mod.rs'' \<in> fst ` set (map (\<lambda>r. (gf_name r, gf_content r)) results)"
    then obtain r b where "r \<in> set results" "gf_name r = ''mod.rs''" "gf_name r = b @ ''_ttrpc.rs''"
      using gen_files_names [OF assms(2) [unfolded gen_def]] by fastforce
    then have "length ''mod.rs'' = length (b @ ''_ttrpc.rs'')" by metis
    then show False by simp
  qed
  ultimately show ?thesis using write_files_ok by fastforce
qed

text \<open>
  The index of modules is merged, not rewritten. After a successful run \<open>mod.rs\<close> has its two header
  lines, then every other line it had before, in order, then a declaration of each generated module
  that was not declared yet, once and in order; and a second run that generates the same modules, in
  whatever order, leaves the file as it is.
\<close>

theorem index_merged:
  assumes "gen_mod c" and "gen version to_rs fds fs c = Some results"
    and "gen_and_write version to_rs fds fs c None (\<lambda>_. None) dir = Some (Ok (), dir')"
    and "gen version to_rs fds fs' c = Some results'" and "set (map module_line results') = set (map module_line results)"
    and "gen_and_write version to_rs fds fs' c None (\<lambda>_. None) dir' = Some (Ok (), dir'')"
    and "old = (case dir ''mod.rs'' of None \<Rightarrow> [] | Some t \<Rightarrow> t)" and "CHR 0x0D \<notin> set old"
    and "\<forall>r \<in> set results. CHR 0x0A \<notin> set (gf_name r) \<and> CHR 0x0D \<notin> set (gf_name r)"
  shows "\<exists>added. buf_lines (the (dir' ''mod.rs'')) =
        [GENERATED_LINE, RUSTFMT_SKIP] @ filter (\<lambda>l. l \<noteq> GENERATED_LINE \<and> l \<noteq> RUSTFMT_SKIP) (buf_lines old) @ added
      \<and> distinct added \<and> sorted added \<and> set added = set (map module_line results) - set (buf_lines old)
      \<and> dir'' ''mod.rs'' = dir' ''mod.rs''"
proof -
  have old: "(case dir ''mod.rs'' of None \<Rightarrow> [] | Some t \<Rightarrow> buf_lines t) = buf_lines old"
    using assms(7) by (simp add: buf_lines_def split: option.splits)
  let ?new = "index_lines (buf_lines old) results"
  have d': "dir' ''mod.rs'' = Some (unlines ?new)"
    using gen_and_write_index [OF assms(1-3)] old by simp
  have pieces: "set (hd (split_on CHR ''.'' n)) \<subseteq> set n" for n
    using split_on_chars [of _ "CHR ''.''" n] split_on_nonempty [of "CHR ''.''" n] by (meson hd_in_set)
  have "CHR 0x0A \<notin> set (module_line r) \<and> CHR 0x0D \<notin> set (module_line r)" if "r \<in> set results" for r
    using assms(9) that pieces [of "gf_name r"] by (auto simp: module_line_def)
  then have "\<forall>l \<in> set ?new. CHR 0x0A \<notin> set l \<and> CHR 0x0D \<notin> set l"
    using buf_lines_clean [OF assms(8)]
    by (auto simp: index_lines_def Let_def add_new_props GENERATED_LINE_def RUSTFMT_SKIP_def)
  then have lines: "buf_lines (unlines ?new) = ?new" by (rule buf_lines_unlines)
  have "dir'' ''mod.rs'' = dir' ''mod.rs''"
    using gen_and_write_index [OF assms(1,4,6)] d' lines index_lines_idem [OF assms(5)] by simp
  moreover have "module_line r \<noteq> GENERATED_LINE" "module_line r \<noteq> RUSTFMT_SKIP" for r
    by (simp_all add: GENERATED_LINE_def RUSTFMT_SKIP_def module_line_def)
  ultimately show ?thesis
    using d' lines by (intro exI [of _ "drop (length (filter (\<lambda>l. l \<noteq> GENERATED_LINE \<and> l \<noteq> RUSTFMT_SKIP) (buf_lines old)) + 2) ?new"])
      (auto simp: index_lines_def Let_def add_new_props)
qed

text \<open>The compiler's test: two runs with the inputs in either order, over an index that has one of the modules.\<close>

definition plain_files :: "file_desc list" where
  "plain_files = map (\<lambda>n. \<lparr>fd_name = n, fd_package = [], message_type = [], fd_service = [\<lparr>sd_name = ''Example'', sd_method = []\<rparr>]\<rparr>)
     [''zeta.proto'', ''alpha.proto'']"

definition plain_to_rs :: "string \<Rightarrow> string" where
  "plain_to_rs n = hd (split_on CHR ''.'' n) @ ''.rs''"

definition index_conf :: customize where
  "index_conf = \<lparr>async_all = False, async_client = False, async_server = False, gen_mod = True\<rparr>"

text \<open>Writing without a panic.\<close>

definition writes :: "wop \<Rightarrow> bool" where
  "writes f \<longleftrightarrow> (\<forall>w. f w \<noteq> None)"

lemma writes_line [simp]: "writes (line l) \<longleftrightarrow> l \<noteq> None"
  by (auto simp: writes_def line_def)

lemma writes_wseq: "\<forall>f \<in> set fs. writes f \<Longrightarrow> writes (wseq fs)"
proof (induction fs)
  case (Cons f fs)
  then have "writes f" "writes (wseq fs)" by auto
  then show ?case by (auto simp: writes_def bind_eq_Some_conv) (metis option.exhaust)
qed (simp add: writes_def)

lemma writes_block [simp]: "a \<noteq> None \<Longrightarrow> b \<noteq> None \<Longrightarrow> writes cb \<Longrightarrow> writes (code_block a b cb)"
proof -
  assume "a \<noteq> None" "b \<noteq> None" "writes cb"
  moreover from this have "writes (indented cb)" by (auto simp: writes_def indented_def)
  ultimately show ?thesis unfolding code_block_def by (intro writes_wseq) auto
qed

lemmas block_defs = expr_block_def pub_fn_def def_fn_def pub_struct_def impl_self_block_def pub_trait_def
  async_fn_block_def field_decl_def table_decl_def

text \<open>A method is generated without a panic if its handler's name and both its types are found.\<close>

definition resolved :: "method_gen \<Rightarrow> bool" where
  "resolved g \<longleftrightarrow> struct_name g \<noteq> None \<and> mg_input g \<noteq> None \<and> mg_output g \<noteq> None"

lemma resolved_call: "resolved g \<Longrightarrow> request_handler_call g a b \<noteq> None"
  by (auto simp: resolved_def mg_input_def request_handler_call_def)

lemma writes_method:
  assumes "resolved g"
  shows "writes (write_client g)" "writes (write_async_client g)" "writes (write_bind g)" "writes (write_async_bind g)"
    "writes (write_service g)" "writes (write_handler g)"
proof -
  obtain st inp outp where r: "struct_name g = Some st" "mg_input g = Some inp" "mg_output g = Some outp"
    using assms by (auto simp: resolved_def)
  show "writes (write_client g)" "writes (write_async_client g)"
    by (auto simp: write_client_def write_async_client_def block_defs sig_unary_def sig_client_streaming_def
        sig_server_streaming_def sig_duplex_streaming_def r intro!: writes_wseq writes_block split: method_type.splits)
  show "writes (write_bind g)" "writes (write_async_bind g)"
    by (auto simp: write_bind_def write_async_bind_def bind_entry_def r)
  show "writes (write_service g)"
    by (auto simp: write_service_def service_types_def block_defs Let_def r intro!: writes_wseq writes_block
        split: method_type.splits)
  show "writes (write_handler g)"
    using resolved_call [OF assms]
    by (auto simp: write_handler_def write_handler_impl_def write_handler_impl_async_def write_async_handler_def r
        intro!: writes_wseq writes_block split: method_type.splits)
qed

lemma writes_handlers: "\<forall>m \<in> set ms. resolved m \<Longrightarrow> writes (write_method_handlers ms)"
proof (induction ms rule: write_method_handlers.induct)
  case 1
  show ?case by (simp add: writes_def)
next
  case (2 m)
  then show ?case using writes_method(6) by simp
next
  case (3 m n ms)
  then have "writes (wseq [write_handler m, line (Some []), write_method_handlers (n # ms)])"
    by (intro writes_wseq) (auto simp: writes_method)
  then show ?case by (simp add: writes_def)
qed

lemma writes_service_gen:
  assumes "\<forall>m \<in> set (sg_methods s). resolved m"
  shows "writes (sg_write s)"
proof -
  have "writes (sg_write_client s)"
    using assms
    by (auto simp: sg_write_client_def write_async_client_type_def write_sync_client_def write_client_type_def block_defs
        writes_method intro!: writes_wseq writes_block split: if_splits)
  moreover have "writes (sg_write_server s)"
    using assms
    by (auto simp: sg_write_server_def Let_def write_async_server_create_def write_sync_server_create_def block_defs
        writes_method intro!: writes_wseq writes_block split: if_splits)
  ultimately show ?thesis
    unfolding sg_write_def using writes_handlers [OF assms] by (auto intro!: writes_wseq)
qed

lemma gen_file_total:
  assumes "fd_service x \<noteq> []" and "proto_path_to_rust_mod (rs_proto_name_to_rs sc) (fd_name x) = Some base"
    and "\<forall>svc \<in> set (fd_service x). \<exists>s. service_gen_new sc c x svc = Some s \<and> (\<forall>m \<in> set (sg_methods s). resolved m)"
  shows "\<exists>out. gen_file version sc c x = Some (Some out) \<and> gf_name out = base @ ''_ttrpc.rs''"
proof -
  let ?emit = "\<lambda>svc w. Option.bind (service_gen_new sc c x svc) (\<lambda>s. sg_write s w)"
  have "writes (write_generated_by p v)" for p v
    by (auto simp: write_generated_by_def write_generated_common_def intro!: writes_wseq)
  moreover have "writes (?emit svc)" if svc: "svc \<in> set (fd_service x)" for svc
  proof -
    obtain s where "service_gen_new sc c x svc = Some s" "\<forall>m \<in> set (sg_methods s). resolved m" using assms(3) svc by blast
    with writes_service_gen [of s] show ?thesis by (simp add: writes_def)
  qed
  ultimately have "writes (wseq ([write_generated_by ''ttrpc-compiler'' version,
                 line (Some ''use protobuf::{CodedInputStream, CodedOutputStream, Message};''),
                 line (Some ''use std::collections::HashMap;''), line (Some ''use std::sync::Arc;'')]
               @ (if async_all c \<or> async_client c \<or> async_server c then [line (Some ''use async_trait::async_trait;'')] else [])
               @ concat (map (\<lambda>svc. [line (Some []), ?emit svc]) (fd_service x))))"
    by (intro writes_wseq) (auto split: if_splits)
  then show ?thesis unfolding gen_file_def assms(2) using assms(1) by (fastforce simp: writes_def)
qed

lemma plain_mod: "proto_path_to_rust_mod plain_to_rs n = Some (hd (split_on CHR ''.'' n))"
  by (simp add: proto_path_to_rust_mod_def plain_to_rs_def)

lemma plain_gen_file:
  assumes "rs_proto_name_to_rs sc = plain_to_rs" and "f \<in> set plain_files"
  shows "\<exists>r. gen_file v sc index_conf f = Some (Some r) \<and> gf_name r = hd (split_on CHR ''.'' (fd_name f)) @ ''_ttrpc.rs''"
proof (rule gen_file_total)
  have camel: "to_camel_case ''Example'' = Some ''Example''" by code_simp
  have svc: "fd_service f = [\<lparr>sd_name = ''Example'', sd_method = []\<rparr>]" using assms(2) by (auto simp: plain_files_def)
  then show "fd_service f \<noteq> []" by simp
  show "proto_path_to_rust_mod (rs_proto_name_to_rs sc) (fd_name f) = Some (hd (split_on CHR ''.'' (fd_name f)))"
    by (simp add: assms(1) plain_mod)
  show "\<forall>svc \<in> set (fd_service f). \<exists>s. service_gen_new sc index_conf f svc = Some s \<and> (\<forall>m \<in> set (sg_methods s). resolved m)"
    by (simp add: svc service_gen_new_def camel)
qed

lemma plain_gen:
  "\<exists>a z. gen v plain_to_rs plain_files [''zeta.proto'', ''zeta.proto'', ''alpha.proto''] index_conf = Some [z, z, a]
     \<and> gf_name a = ''alpha_ttrpc.rs'' \<and> gf_name z = ''zeta_ttrpc.rs''"
  "\<exists>a z. gen v plain_to_rs plain_files [''alpha.proto'', ''zeta.proto'', ''zeta.proto''] index_conf = Some [a, z, z]
     \<and> gf_name a = ''alpha_ttrpc.rs'' \<and> gf_name z = ''zeta_ttrpc.rs''"
proof -
  let ?z = "plain_files ! 0" and ?a = "plain_files ! 1"
  have mem: "?z \<in> set plain_files" "?a \<in> set plain_files" "fd_name ?z = ''zeta.proto''" "fd_name ?a = ''alpha.proto''"
    by (simp_all add: plain_files_def)
  have look: "map_of (rev (map (\<lambda>fd. (fd_name fd, fd)) plain_files)) ''zeta.proto'' = Some ?z"
      "map_of (rev (map (\<lambda>fd. (fd_name fd, fd)) plain_files)) ''alpha.proto'' = Some ?a"
    by (simp_all add: plain_files_def)
  {
    fix fs
    let ?sc = "\<lparr>rs_proto_name_to_rs = plain_to_rs, file_descriptors = plain_files, files_to_generate = fs\<rparr>"
    obtain z a where r: "gen_file v ?sc index_conf ?z = Some (Some z)" "gf_name z = ''zeta_ttrpc.rs''"
        "gen_file v ?sc index_conf ?a = Some (Some a)" "gf_name a = ''alpha_ttrpc.rs''"
      using plain_gen_file [of ?sc ?z v] plain_gen_file [of ?sc ?a v] mem by auto
    then have "\<exists>a z. gen_files v ?sc index_conf [''zeta.proto'', ''zeta.proto'', ''alpha.proto''] = Some [z, z, a]
        \<and> gen_files v ?sc index_conf [''alpha.proto'', ''zeta.proto'', ''zeta.proto''] = Some [a, z, z]
        \<and> gf_name a = ''alpha_ttrpc.rs'' \<and> gf_name z = ''zeta_ttrpc.rs''"
      by (simp add: look del: map_of.simps)
  }
  then show "\<exists>a z. gen v plain_to_rs plain_files [''zeta.proto'', ''zeta.proto'', ''alpha.proto''] index_conf = Some [z, z, a]
     \<and> gf_name a = ''alpha_ttrpc.rs'' \<and> gf_name z = ''zeta_ttrpc.rs''"
    "\<exists>a z. gen v plain_to_rs plain_files [''alpha.proto'', ''zeta.proto'', ''zeta.proto''] index_conf = Some [a, z, z]
     \<and> gf_name a = ''alpha_ttrpc.rs'' \<and> gf_name z = ''zeta_ttrpc.rs''"
    unfolding gen_def by blast+
qed

definition old_index :: string where
  "old_index = unlines [GENERATED_LINE, ''#[cfg(unix)]'', ''pub mod custom;'', ''pub mod alpha_ttrpc;'']"

lemma write_files_never_fails: "\<exists>dir'. write_files (\<lambda>_. None) fs dir = (Ok (), dir')"
  by (induction fs arbitrary: dir) auto

theorem index_merged_witness:
  "\<exists>dir' dir''. gen_and_write [] plain_to_rs plain_files [''zeta.proto'', ''zeta.proto'', ''alpha.proto''] index_conf
      (None :: unit option) (\<lambda>_. None) [''mod.rs'' \<mapsto> old_index] = Some (Ok (), dir')
   \<and> gen_and_write [] plain_to_rs plain_files [''alpha.proto'', ''zeta.proto'', ''zeta.proto''] index_conf
      (None :: unit option) (\<lambda>_. None) dir' = Some (Ok (), dir'')
   \<and> buf_lines (the (dir' ''mod.rs'')) =
      [GENERATED_LINE, RUSTFMT_SKIP, ''#[cfg(unix)]'', ''pub mod custom;'', ''pub mod alpha_ttrpc;'', ''pub mod zeta_ttrpc;'']
   \<and> dir'' ''mod.rs'' = dir' ''mod.rs''"
proof -
  obtain a z where r: "gen [] plain_to_rs plain_files [''zeta.proto'', ''zeta.proto'', ''alpha.proto''] index_conf = Some [z, z, a]"
      "gf_name a = ''alpha_ttrpc.rs''" "gf_name z = ''zeta_ttrpc.rs''" using plain_gen(1) by blast
  obtain a' z' where r': "gen [] plain_to_rs plain_files [''alpha.proto'', ''zeta.proto'', ''zeta.proto''] index_conf = Some [a', z', z']"
      "gf_name a' = ''alpha_ttrpc.rs''" "gf_name z' = ''zeta_ttrpc.rs''" using plain_gen(2) by blast
  have conf: "gen_mod index_conf" by (simp add: index_conf_def)
  have run: "\<exists>d'. gen_and_write [] plain_to_rs plain_files fs index_conf (None :: unit option) (\<lambda>_. None) d = Some (Ok (), d')"
    if "gen [] plain_to_rs plain_files fs index_conf = Some rs" for fs rs d
    using that write_files_never_fails [where 'a = unit]
    by (cases "d ''mod.rs''") (simp_all add: gen_and_write_def index_file_def conf)
  obtain d' where d': "gen_and_write [] plain_to_rs plain_files [''zeta.proto'', ''zeta.proto'', ''alpha.proto''] index_conf
      (None :: unit option) (\<lambda>_. None) [''mod.rs'' \<mapsto> old_index] = Some (Ok (), d')" using run [OF r(1)] by blast
  obtain d'' where d'': "gen_and_write [] plain_to_rs plain_files [''alpha.proto'', ''zeta.proto'', ''zeta.proto''] index_conf
      (None :: unit option) (\<lambda>_. None) d' = Some (Ok (), d'')" using run [OF r'(1)] by blast
  have mods: "set (map module_line [a', z', z']) = set (map module_line [z, z, a])"
      "set (map module_line [z, z, a]) = {''pub mod alpha_ttrpc;'', ''pub mod zeta_ttrpc;''}"
    using r r' by (auto simp: module_line_def)
  have old: "buf_lines old_index = [GENERATED_LINE, ''#[cfg(unix)]'', ''pub mod custom;'', ''pub mod alpha_ttrpc;'']"
    unfolding old_index_def by (rule buf_lines_unlines) (auto simp: GENERATED_LINE_def)
  have cr: "CHR 0x0D \<notin> set old_index" by (auto simp: old_index_def unlines_def GENERATED_LINE_def)
  have names: "\<forall>r \<in> set [z, z, a]. CHR 0x0A \<notin> set (gf_name r) \<and> CHR 0x0D \<notin> set (gf_name r)" using r by simp
  from index_merged [OF conf r(1) d' r'(1) mods(1) d'' _ cr names]
  obtain added where added: "buf_lines (the (d' ''mod.rs'')) = [GENERATED_LINE, RUSTFMT_SKIP]
        @ filter (\<lambda>l. l \<noteq> GENERATED_LINE \<and> l \<noteq> RUSTFMT_SKIP) (buf_lines old_index) @ added"
      "distinct added" "set added = {''pub mod alpha_ttrpc;'', ''pub mod zeta_ttrpc;''} - set (buf_lines old_index)"
      "d'' ''mod.rs'' = d' ''mod.rs''"
    unfolding mods(2) by auto
  have "set added = {''pub mod zeta_ttrpc;''}" using added(3) by (simp add: old GENERATED_LINE_def)
  with added(2) have "added = [''pub mod zeta_ttrpc;'']" by (cases added; cases "tl added") auto
  with added d' d'' show ?thesis by (auto simp: old GENERATED_LINE_def RUSTFMT_SKIP_def)
qed

subsection \<open>What a generated file contains\<close>

definition occurs :: "'a list \<Rightarrow> 'a list \<Rightarrow> bool" where
  "occurs x t \<longleftrightarrow> (\<exists>u v. t = u @ x @ v)"

text \<open>\<open>emits f x\<close>: whatever was written before stays, and \<open>x\<close> is in what \<open>f\<close> appends; with \<open>x\<close> empty, \<open>f\<close> only appends.\<close>

definition emits :: "wop \<Rightarrow> string \<Rightarrow> bool" where
  "emits f x \<longleftrightarrow> (\<forall>w w'. f w = Some w' \<longrightarrow> (\<exists>u. cw_writer w' = cw_writer w @ u \<and> occurs x u))"

abbreviation appends :: "wop \<Rightarrow> bool" where "appends f \<equiv> emits f []"

lemma occurs_simps [simp]: "occurs [] t" "occurs x x" "occurs x [] \<longleftrightarrow> x = []"
  by (auto simp: occurs_def intro: exI [of _ "[]"])

lemma occurs_append: "occurs x s \<Longrightarrow> occurs x (s @ t)" "occurs x t \<Longrightarrow> occurs x (s @ t)"
  unfolding occurs_def by (metis append.assoc)+

lemma occurs_trans: "occurs x s \<Longrightarrow> occurs s t \<Longrightarrow> occurs x t"
  unfolding occurs_def by (metis append.assoc)

lemma emits_appends: "emits f x \<Longrightarrow> appends f"
  by (auto simp: emits_def)

lemma emits_line: "(\<And>l. l0 = Some l \<Longrightarrow> occurs x l) \<Longrightarrow> emits (line l0) x"
proof -
  assume l0: "\<And>l. l0 = Some l \<Longrightarrow> occurs x l"
  show ?thesis
    unfolding emits_def
  proof (intro allI impI)
    fix w w'
    assume "line l0 w = Some w'"
    then obtain l where l: "l0 = Some l" "w' = write_line l w" by (auto simp: line_def)
    then show "\<exists>u. cw_writer w' = cw_writer w @ u \<and> occurs x u"
      using l0 [OF l(1)]
      by (cases "l = []") (auto simp: write_line_def intro: occurs_append)
  qed
qed

lemma appends_line [simp, intro]: "appends (line l)"
  by (rule emits_line) simp

lemma emits_wseq: "f \<in> set fs \<Longrightarrow> emits f x \<Longrightarrow> \<forall>g \<in> set fs. appends g \<Longrightarrow> emits (wseq fs) x"
proof (induction fs)
  case (Cons g fs)
  have rest: "appends (wseq fs)"
    using Cons.prems(3)
  proof (induction fs)
    case (Cons h hs)
    then show ?case by (fastforce simp: emits_def bind_eq_Some_conv)
  qed (simp add: emits_def)
  consider "f = g" | "f \<in> set fs" using Cons.prems(1) by auto
  then show ?case
  proof cases
    case 1
    with Cons.prems(2) rest show ?thesis by (fastforce simp: emits_def bind_eq_Some_conv intro: occurs_append)
  next
    case 2
    with Cons have "emits (wseq fs) x" "appends g" by auto
    then show ?thesis by (fastforce simp: emits_def bind_eq_Some_conv intro: occurs_append)
  qed
qed simp

lemma appends_wseq: "\<forall>g \<in> set fs. appends g \<Longrightarrow> appends (wseq fs)"
proof (cases fs)
  case (Cons f gs)
  assume "\<forall>g \<in> set fs. appends g"
  with Cons show ?thesis by (intro emits_wseq [of f]) auto
qed (simp add: emits_def)

lemma emits_block: "emits cb x \<Longrightarrow> emits (code_block a b cb) x"
proof -
  assume cb: "emits cb x"
  then have "emits (indented cb) x" by (fastforce simp: emits_def indented_def)
  then show ?thesis unfolding code_block_def by (intro emits_wseq [of "indented cb"]) (auto dest: emits_appends)
qed

lemmas appends_intros = appends_wseq emits_block

lemma fmt_head: "fmt (Some s # ps) = Some t \<Longrightarrow> occurs s t"
  by (auto simp: occurs_def)

lemma appends_methods:
  "appends (write_client g)" "appends (write_async_client g)" "appends (write_bind g)" "appends (write_async_bind g)"
  "appends (write_service g)" "appends (write_handler g)"
  by (auto simp: write_client_def write_async_client_def write_bind_def write_async_bind_def write_service_def write_handler_def
      write_handler_impl_def write_handler_impl_async_def write_async_handler_def block_defs Let_def
      intro!: appends_intros split: method_type.splits prod.splits)

lemma write_method_handlers_wseq:
  "write_method_handlers [] = wseq []"
  "write_method_handlers (m # n # ms) = wseq [write_handler m, line (Some []), write_method_handlers (n # ms)]"
  by (rule ext; simp)+

lemma appends_handlers: "appends (write_method_handlers ms)"
proof (induction ms rule: write_method_handlers.induct)
  case 1
  show ?case unfolding write_method_handlers_wseq by (rule appends_wseq) simp
next
  case (2 m)
  show ?case using appends_methods(6) by simp
next
  case (3 m n ms)
  then show ?case unfolding write_method_handlers_wseq by (intro appends_wseq) (auto simp: appends_methods)
qed

definition quoted :: "string \<Rightarrow> string" where
  "quoted x = quot @ x @ quot"

text \<open>The call of a client macro, up to the names of the service and the method.\<close>

definition call_text :: "bool \<Rightarrow> method_type \<Rightarrow> string \<Rightarrow> string \<Rightarrow> string" where
  "call_text is_async t svc meth =
     (if is_async then
        (case t of
           Unary \<Rightarrow> ''::ttrpc::async_client_request!(self, ctx, req, ''
         | ClientStreaming \<Rightarrow> ''::ttrpc::async_client_stream_send!(self, ctx, ''
         | ServerStreaming \<Rightarrow> ''::ttrpc::async_client_stream_receive!(self, ctx, req, ''
         | Duplex \<Rightarrow> ''::ttrpc::async_client_stream!(self, ctx, '')
      else ''::ttrpc::client_request!(self, ctx, req, '') @ quoted svc @ '', '' @ quoted meth"

definition insert_text :: "string \<Rightarrow> string \<Rightarrow> string" where
  "insert_text table key = table @ ''.insert('' @ quoted key @ ''.to_string(),''"

lemma occurs_prefix: "occurs x (x @ t)"
  by (simp add: occurs_append)

lemma client_emits:
  "mg_method_type g = Unary \<Longrightarrow> emits (write_client g) (call_text False Unary (wire_service g) (md_name (mg_proto g)))"
  "emits (write_async_client g) (call_text True (mg_method_type g) (wire_service g) (md_name (mg_proto g)))"
proof -
  let ?call = "\<lambda>a t. call_text a t (wire_service g) (md_name (mg_proto g))"
  have hit: "emits (line (Some (?call a t @ r))) (?call a t)" for a t r
    by (rule emits_line) (auto intro: occurs_prefix)
  have calls: "\<exists>r. ''::ttrpc::client_request!(self, ctx, req, '' @ wire_names g @ '', cres);'' = ?call False Unary @ r"
    "\<exists>r. ''::ttrpc::async_client_request!(self, ctx, req, '' @ wire_names g @ '', cres);'' = ?call True Unary @ r"
    "\<exists>r. ''::ttrpc::async_client_stream_send!(self, ctx, '' @ wire_names g @ '');'' = ?call True ClientStreaming @ r"
    "\<exists>r. ''::ttrpc::async_client_stream_receive!(self, ctx, req, '' @ wire_names g @ '');'' = ?call True ServerStreaming @ r"
    "\<exists>r. ''::ttrpc::async_client_stream!(self, ctx, '' @ wire_names g @ '');'' = ?call True Duplex @ r"
    by (simp_all add: call_text_def wire_names_def quoted_def)
  show "emits (write_client g) (?call False Unary)" if "mg_method_type g = Unary"
  proof -
    obtain r where r: "''::ttrpc::client_request!(self, ctx, req, '' @ wire_names g @ '', cres);'' = ?call False Unary @ r"
      using calls(1) by blast
    show ?thesis
      unfolding write_client_def block_defs r using that
      by (auto intro!: emits_block emits_wseq [OF _ hit [of False Unary r]])
  qed
  obtain r1 r2 r3 r4 where r:
    "''::ttrpc::async_client_request!(self, ctx, req, '' @ wire_names g @ '', cres);'' = ?call True Unary @ r1"
    "''::ttrpc::async_client_stream_send!(self, ctx, '' @ wire_names g @ '');'' = ?call True ClientStreaming @ r2"
    "''::ttrpc::async_client_stream_receive!(self, ctx, req, '' @ wire_names g @ '');'' = ?call True ServerStreaming @ r3"
    "''::ttrpc::async_client_stream!(self, ctx, '' @ wire_names g @ '');'' = ?call True Duplex @ r4"
    using calls(2-5) by metis
  show "emits (write_async_client g) (?call True (mg_method_type g))"
    unfolding write_async_client_def block_defs r
    by (cases "mg_method_type g") (auto intro!: emits_block hit emits_wseq [OF _ hit [of True Unary r1]])
qed

lemma bind_emits: "emits (line (bind_entry table key g ptr ty)) (insert_text table key)"
  unfolding bind_entry_def
proof (rule emits_line)
  fix l
  assume "fmt [Some (table @ ''.insert('' @ quot @ key @ quot @ ''.to_string(),'' @ [CHR 0x0A] @ replicate 20 CHR '' '' @ ptr @ ''::new(''),
      struct_name g, Some (''Method{service: service.clone()}) as '' @ ty @ '');'')] = Some l"
  from fmt_head [OF this] occurs_prefix [of "insert_text table key"]
  show "occurs (insert_text table key) l"
    by (auto simp: insert_text_def quoted_def elim!: occurs_trans [rotated])
qed

lemma appends_services:
  "appends (sg_write_client s)" "appends (write_sync_server_create s)" "appends (write_async_server_create s)" "appends (sg_write_server s)"
proof -
  show "appends (sg_write_client s)"
    by (auto simp: sg_write_client_def write_async_client_type_def write_sync_client_def write_client_type_def block_defs
        appends_methods intro!: appends_intros split: if_splits)
  show create: "appends (write_sync_server_create s)" "appends (write_async_server_create s)"
    by (auto simp: write_async_server_create_def write_sync_server_create_def block_defs appends_methods intro!: appends_intros
        split: if_splits)
  show "appends (sg_write_server s)"
    by (auto simp: sg_write_server_def Let_def block_defs appends_methods create intro!: appends_intros)
qed

lemma appends_sg_write: "appends (sg_write s)"
  unfolding sg_write_def by (intro appends_wseq) (auto simp: appends_services appends_handlers)

lemma client_type_emits:
  assumes "m \<in> set (sg_methods s)" and "emits (wm m) x" and "\<And>g. appends (wm g)"
  shows "emits (write_client_type s ty wm) x"
proof -
  let ?ms = "pub_fn (Some (''new(client: '' @ ty @ '') -> Self'')) (expr_block (Some (client_name s)) (line (Some ''client,'')))
    # concat (map (\<lambda>m. [line (Some []), wm m]) (sg_methods s))"
  have "appends g" if "g \<in> set ?ms" for g
    using that assms(3) by (auto simp: block_defs intro!: appends_intros split: if_splits)
  then have "emits (wseq ?ms) x" using assms(1,2) by (intro emits_wseq [of "wm m"]) auto
  then have impl: "emits (impl_self_block (Some (client_name s)) (wseq ?ms)) x" unfolding block_defs by (rule emits_block)
  show ?thesis
    unfolding write_client_type_def
    by (rule emits_wseq [OF _ impl]) (use emits_appends [OF impl] in \<open>auto simp: block_defs intro!: appends_intros\<close>)
qed

lemma service_client_emits:
  assumes "m \<in> set (sg_methods s)" and "async_on (sg_customize s) ClientSide \<or> mg_method_type m = Unary"
  shows "emits (sg_write s) (call_text (async_on (sg_customize s) ClientSide) (mg_method_type m) (wire_service m) (md_name (mg_proto m)))"
proof -
  have "emits (sg_write_client s) (call_text (async_on (sg_customize s) ClientSide) (mg_method_type m) (wire_service m) (md_name (mg_proto m)))"
    using assms client_emits [of m] client_type_emits [OF assms(1)] appends_methods(1,2)
    by (cases "async_on (sg_customize s) ClientSide")
      (simp_all add: sg_write_client_def write_async_client_type_def write_sync_client_def)
  then show ?thesis
    unfolding sg_write_def by (intro emits_wseq [of "sg_write_client s"]) (auto simp: appends_services appends_handlers)
qed

lemma service_server_emits:
  assumes "m \<in> set (sg_methods s)"
  shows "\<not> async_on (sg_customize s) ServerSide \<Longrightarrow>
      emits (sg_write s) (insert_text ''methods'' (''/'' @ wire_service m @ ''/'' @ md_name (mg_proto m)))"
    and "async_on (sg_customize s) ServerSide \<Longrightarrow>
      emits (sg_write s) (insert_text (if mg_method_type m = Unary then ''methods'' else ''streams'') (md_name (mg_proto m)))"
    and "async_on (sg_customize s) ServerSide \<Longrightarrow> emits (sg_write s) (insert_text ''ret'' (service_path s))"
proof -
  have up: "emits (sg_write s) x" if "emits (if async_on (sg_customize s) ServerSide then write_async_server_create s else write_sync_server_create s) x" for x
  proof -
    have "emits (sg_write_server s) x"
      unfolding sg_write_server_def Let_def using that
      by (intro emits_wseq [OF _ that]) (auto simp: block_defs appends_methods appends_services intro!: appends_intros)
    then show ?thesis
      unfolding sg_write_def by (intro emits_wseq [of "sg_write_server s"]) (auto simp: appends_services appends_handlers)
  qed
  show "emits (sg_write s) (insert_text ''methods'' (''/'' @ wire_service m @ ''/'' @ md_name (mg_proto m)))"
    if "\<not> async_on (sg_customize s) ServerSide"
  proof -
    have "emits (write_bind m) (insert_text ''methods'' (''/'' @ wire_service m @ ''/'' @ md_name (mg_proto m)))"
      unfolding write_bind_def by (rule bind_emits)
    then have "emits (write_sync_server_create s) (insert_text ''methods'' (''/'' @ wire_service m @ ''/'' @ md_name (mg_proto m)))"
      unfolding write_sync_server_create_def block_defs using assms
      by (intro emits_block emits_wseq [of "write_bind m"]) (auto simp: block_defs appends_methods split: if_splits)
    then show ?thesis using up that by simp
  qed
  assume on: "async_on (sg_customize s) ServerSide"
  have "emits (write_async_bind m) (insert_text (if mg_method_type m = Unary then ''methods'' else ''streams'') (md_name (mg_proto m)))"
    using bind_emits by (simp add: write_async_bind_def)
  then have "emits (write_async_server_create s) (insert_text (if mg_method_type m = Unary then ''methods'' else ''streams'') (md_name (mg_proto m)))"
    unfolding write_async_server_create_def block_defs using assms
    by (intro emits_block emits_wseq [of "write_async_bind m"]) (auto simp: block_defs appends_methods split: if_splits)
  then show "emits (sg_write s) (insert_text (if mg_method_type m = Unary then ''methods'' else ''streams'') (md_name (mg_proto m)))"
    using up on by simp
  let ?ret = "line (Some (''ret.insert('' @ quot @ service_path s @ quot @ ''.to_string(), ::ttrpc::r#async::Service{ methods, streams });''))"
  have "emits ?ret (insert_text ''ret'' (service_path s))"
    by (rule emits_line) (auto simp: insert_text_def quoted_def occurs_def)
  then have "emits (write_async_server_create s) (insert_text ''ret'' (service_path s))"
    unfolding write_async_server_create_def block_defs
    by (intro emits_block emits_wseq [of ?ret]) (auto simp: block_defs appends_methods split: if_splits)
  then show "emits (sg_write s) (insert_text ''ret'' (service_path s))" using up on by simp
qed

lemma gen_file_contains:
  assumes "gen_file version sc c x = Some (Some out)" and "svc \<in> set (fd_service x)"
    and "service_gen_new sc c x svc = Some s" and "emits (sg_write s) t"
  shows "occurs t (gf_content out)"
proof -
  let ?emit = "\<lambda>svc w. Option.bind (service_gen_new sc c x svc) (\<lambda>s. sg_write s w)"
  let ?ops = "[write_generated_by ''ttrpc-compiler'' version,
       line (Some ''use protobuf::{CodedInputStream, CodedOutputStream, Message};''),
       line (Some ''use std::collections::HashMap;''), line (Some ''use std::sync::Arc;'')]
     @ (if async_all c \<or> async_client c \<or> async_server c then [line (Some ''use async_trait::async_trait;'')] else [])
     @ concat (map (\<lambda>svc. [line (Some []), ?emit svc]) (fd_service x))"
  from assms(1,2) obtain w where w: "wseq ?ops code_writer_new = Some w" "gf_content out = cw_writer w"
    by (auto simp: gen_file_def bind_eq_Some_conv split: if_splits)
  have "appends (?emit svc)" for svc
    using appends_sg_write by (cases "service_gen_new sc c x svc") (simp_all add: emits_def)
  moreover have "appends (write_generated_by a b)" for a b
    by (auto simp: write_generated_by_def write_generated_common_def intro!: appends_wseq)
  ultimately have all: "\<forall>g \<in> set ?ops. appends g" by auto
  have "emits (?emit svc) t" using assms(3,4) by (simp add: emits_def)
  then have "emits (wseq ?ops) t" using assms(2) all by (intro emits_wseq [of "?emit svc"]) auto
  with w show ?thesis by (fastforce simp: emits_def code_writer_new_def)
qed

end
