(* ===== verification/ProstGen.thy ===== *)
theory ProstGen
  imports Codegen
begin

text \<open>
  Names and modes of the Prost service generator, \<open>src/ttrpc-codegen-prost/src/svcgen.rs\<close> and \<open>codegen.rs\<close>:
  which sides are asynchronous, the kind of a method, and the names of services, methods and generated
  items. The code it generates is in \<open>ProstSvc\<close>.
\<close>

record prost_method =
  pm_name :: string
  pm_proto_name :: string
  pm_input_type :: string
  pm_output_type :: string
  pm_client_streaming :: bool
  pm_server_streaming :: bool

record prost_service =
  ps_name :: string
  ps_package :: string
  ps_methods :: "prost_method list"

datatype async_mode = AsyncAll | AsyncClientOnly | AsyncServerOnly | AsyncNone

record prost_customize =
  pz_gen_mod :: bool
  pz_async_all :: bool
  pz_async_server :: bool
  pz_async_client :: bool
  pz_serde :: bool

text \<open>\<open>Customize::async_mode\<close>: asking for both sides separately gives the server only.\<close>

definition customize_async_mode :: "prost_customize \<Rightarrow> async_mode" where
  "customize_async_mode c =
     (if pz_async_all c then AsyncAll else if pz_async_server c then AsyncServerOnly
      else if pz_async_client c then AsyncClientOnly else AsyncNone)"

definition prost_async_on :: "async_mode \<Rightarrow> side \<Rightarrow> bool" where
  "prost_async_on mode s \<longleftrightarrow> mode = AsyncAll \<or> (s = ServerSide \<and> mode = AsyncServerOnly)
     \<or> (s = ClientSide \<and> mode = AsyncClientOnly)"

definition from_method :: "prost_method \<Rightarrow> method_type" where
  "from_method m =
     (case (pm_client_streaming m, pm_server_streaming m) of
        (False, False) \<Rightarrow> Unary
      | (True, False) \<Rightarrow> ClientStreaming
      | (False, True) \<Rightarrow> ServerStreaming
      | (True, True) \<Rightarrow> Duplex)"

definition service_full_name :: "prost_service \<Rightarrow> string" where
  "service_full_name s = (if ps_package s = [] then ps_name s else ps_package s @ ''.'' @ ps_name s)"

definition method_path :: "prost_service \<Rightarrow> prost_method \<Rightarrow> string" where
  "method_path s m = ''/'' @ service_full_name s @ ''/'' @ pm_proto_name m"

definition service_module_name :: "prost_service \<Rightarrow> string" where
  "service_module_name s = ''__ttrpc_services_'' @ prost_to_snake_case (ps_name s)"

definition service_name_rust :: "prost_service \<Rightarrow> string" where
  "service_name_rust s = prost_to_snake_case (ps_name s)"

definition method_name_rust :: "prost_method \<Rightarrow> string" where
  "method_name_rust m = prost_to_snake_case (pm_name m)"

definition method_handler_type :: "prost_service \<Rightarrow> prost_method \<Rightarrow> string" where
  "method_handler_type s m = prost_to_camel_case (ps_name s) @ prost_to_camel_case (pm_proto_name m) @ ''Method''"

definition client_type :: "prost_service \<Rightarrow> string" where
  "client_type s = ps_name s @ ''Client''"

definition prost_has_stream_method :: "prost_service \<Rightarrow> bool" where
  "prost_has_stream_method s \<longleftrightarrow> (\<exists>m \<in> set (ps_methods s). from_method m \<noteq> Unary)"

text \<open>
  The two generators name a service alike on the wire exactly when the schema has a package and the
  service's name is in camel case already; without a package the compiler writes a leading dot.
\<close>

lemma wire_service_agrees:
  assumes "CHR ''.'' \<notin> set n"
  shows "service_full_name \<lparr>ps_name = n, ps_package = pkg, ps_methods = ms\<rparr> = pkg @ ''.'' @ s \<longleftrightarrow> pkg \<noteq> [] \<and> s = n"
  using assms by (auto simp: service_full_name_def)

text \<open>With both sides asked for separately the compiler generates both, the Prost generator only the server.\<close>

lemma modes_differ:
  "\<exists>c c'. async_all c = pz_async_all c' \<and> async_client c = pz_async_client c' \<and> async_server c = pz_async_server c'
     \<and> async_on c ClientSide \<and> async_on c ServerSide \<and> \<not> prost_async_on (customize_async_mode c') ClientSide"
  by (intro exI [of _ "\<lparr>async_all = False, async_client = True, async_server = True, gen_mod = False\<rparr>"]
      exI [of _ "\<lparr>pz_gen_mod = False, pz_async_all = False, pz_async_server = True, pz_async_client = True, pz_serde = False\<rparr>"])
    (simp add: async_on_def prost_async_on_def customize_async_mode_def)

end
