(* ===== verification/ProstSvc.thy ===== *)
theory ProstSvc
  imports ProstGen
begin

text \<open>
  The Prost service generator of \<open>src/ttrpc-codegen-prost/src/svcgen.rs\<close>: the trait, the handlers, the
  registration function and the client it builds for a service, as token streams, and the text it pushes to
  the buffer of \<open>prost-build\<close>. A token is a word (identifier or punctuation, where \<open>::\<close> and \<open>->\<close> are one
  token) or a string literal. \<open>quote!\<close> is the concatenation \<open>fmt\<close> of literal tokens, delimited groups and
  interpolated streams. Making an identifier (\<open>mk\<close>, which panics on a name that is none) and printing a
  token stream (\<open>show_ts\<close>) are the \<open>proc_macro2\<close> crate's, and arguments; a panic is \<open>None\<close>.
\<close>

subsection \<open>Token streams\<close>

datatype token = Tok string | Str string

type_synonym tokens = "token list option"

definition qt :: "string \<Rightarrow> tokens" where
  "qt s = Some (map Tok (split_on CHR '' '' s))"

definition delimited :: "string \<Rightarrow> string \<Rightarrow> tokens \<Rightarrow> tokens" where
  "delimited l r ts = fmt [qt l, ts, qt r]"

abbreviation parens :: "tokens \<Rightarrow> tokens" where "parens \<equiv> delimited ''('' '')''"
abbreviation braces :: "tokens \<Rightarrow> tokens" where "braces \<equiv> delimited ''{'' ''}''"
abbreviation brackets :: "tokens \<Rightarrow> tokens" where "brackets \<equiv> delimited ''['' '']''"
abbreviation empty_quote :: tokens where "empty_quote \<equiv> Some []"
abbreviation str_lit :: "string \<Rightarrow> tokens" where "str_lit s \<equiv> Some [Str s]"

definition ident :: "(string \<Rightarrow> string option) \<Rightarrow> string \<Rightarrow> tokens" where
  "ident mk n = map_option (\<lambda>i. [Tok i]) (mk n)"

fun sep_by :: "'a \<Rightarrow> 'a list \<Rightarrow> 'a list" where
  "sep_by x [] = []"
| "sep_by x [a] = [a]"
| "sep_by x (a # b # r) = a # x # sep_by x (b # r)"

subsection \<open>Paths of types (util.rs)\<close>

fun split_colons :: "string \<Rightarrow> string list" where
  "split_colons [] = [[]]"
| "split_colons (c # s) =
     (case s of
        c' # s' \<Rightarrow>
          if c = CHR '':'' \<and> c' = CHR '':'' then [] # split_colons s'
          else (case split_colons s of p # ps \<Rightarrow> (c # p) # ps | [] \<Rightarrow> [[c]])
      | [] \<Rightarrow> [[c]])"

definition ttrpc_mod :: "(string \<Rightarrow> string option) \<Rightarrow> tokens" where
  "ttrpc_mod mk = fmt [qt ''::'', ident mk ''ttrpc'']"

definition type_token :: "(string \<Rightarrow> string option) \<Rightarrow> string \<Rightarrow> tokens" where
  "type_token mk s =
     (if s = ''()'' then parens empty_quote
      else fmt (sep_by (qt ''::'') (map (ident mk) (split_colons s))))"

subsection \<open>The service trait (svcgen.rs)\<close>

definition message_type_token :: "(string \<Rightarrow> string option) \<Rightarrow> string \<Rightarrow> tokens" where
  "message_type_token mk path = fmt [qt ''super ::'', type_token mk path]"

definition ttrpc_context_token :: "(string \<Rightarrow> string option) \<Rightarrow> bool \<Rightarrow> tokens" where
  "ttrpc_context_token mk asyn =
     (if asyn then fmt [ttrpc_mod mk, qt '':: r#async :: TtrpcContext'']
      else fmt [ttrpc_mod mk, qt '':: TtrpcContext''])"

text \<open>The types of a request and of its result in the trait.\<close>

definition signature_types :: "(string \<Rightarrow> string option) \<Rightarrow> prost_method \<Rightarrow> tokens \<times> tokens" where
  "signature_types mk m =
     (let mod_path = ttrpc_mod mk; inp = message_type_token mk (pm_input_type m); outp = message_type_token mk (pm_output_type m)
      in case from_method m of
           Unary \<Rightarrow> (inp, outp)
         | ClientStreaming \<Rightarrow>
             (fmt [mod_path, qt '':: r#async :: ServerStreamReceiver <'', inp, qt ''>''], outp)
         | ServerStreaming \<Rightarrow>
             (fmt [inp, qt '', _ :'', mod_path, qt '':: r#async :: ServerStreamSender <'', outp, qt ''>''], parens empty_quote)
         | Duplex \<Rightarrow>
             (fmt [mod_path, qt '':: r#async :: ServerStream <'', outp, qt '','', inp, qt ''>''], parens empty_quote))"

definition trait_method_signature_token ::
  "(string \<Rightarrow> string option) \<Rightarrow> async_mode \<Rightarrow> prost_service \<Rightarrow> prost_method \<Rightarrow> tokens" where
  "trait_method_signature_token mk mode s m =
     (case signature_types mk m of (req_type, resp_type) \<Rightarrow>
        (let mod_path = ttrpc_mod mk; err_msg = method_path s m @ '' is not supported''
         in fmt [if prost_async_on mode ServerSide then qt ''async'' else empty_quote,
              qt ''fn'', ident mk (method_name_rust m),
              parens (fmt [qt ''& self , _ctx : &'', ttrpc_context_token mk (prost_async_on mode ServerSide), qt '', _ :'', req_type]),
              qt ''->'', mod_path, qt '':: Result <'', resp_type, qt ''>'',
              braces (fmt [qt ''Err'', parens (fmt [mod_path, qt '':: Error :: RpcStatus'',
                parens (fmt [mod_path, qt '':: get_status'',
                  parens (fmt [mod_path, qt '':: Code :: NOT_FOUND ,'', str_lit err_msg, qt '','']) ])])])]))"

definition generate_trait :: "(string \<Rightarrow> string option) \<Rightarrow> async_mode \<Rightarrow> prost_service \<Rightarrow> tokens" where
  "generate_trait mk mode s =
     fmt [if prost_async_on mode ServerSide then fmt [qt ''#'', brackets (qt ''async_trait'')] else empty_quote,
          qt ''pub trait'', ident mk (ps_name s),
          if prost_async_on mode ServerSide then qt '': Sync'' else empty_quote,
          braces (fmt (map (trait_method_signature_token mk mode s) (ps_methods s)))]"

subsection \<open>Method handlers\<close>

definition method_handler_impl_sync_token :: "(string \<Rightarrow> string option) \<Rightarrow> tokens \<Rightarrow> prost_method \<Rightarrow> tokens" where
  "method_handler_impl_sync_token mk struct_nm m =
     (let mod_path = ttrpc_mod mk; inp = message_type_token mk (pm_input_type m); method_name = ident mk (method_name_rust m)
      in fmt [qt ''impl'', mod_path, qt '':: MethodHandler for'', struct_nm,
           braces (fmt [qt ''fn handler'',
             parens (fmt [qt ''& self , ctx :'', ttrpc_context_token mk False, qt '', req :'', mod_path, qt '':: Request'']),
             qt ''->'', mod_path, qt '':: Result <'', parens empty_quote, qt ''>'',
             braces (fmt [mod_path, qt '':: request_handler !'',
               parens (fmt [qt ''self , ctx , req ,'', inp, qt '','', method_name]), qt ''; Ok'', parens (parens empty_quote)])])])"

text \<open>The handler's trait, its last parameter, its result and the macro it calls.\<close>

definition async_handler_parts ::
  "(string \<Rightarrow> string option) \<Rightarrow> prost_method \<Rightarrow> tokens \<times> tokens \<times> tokens \<times> tokens" where
  "async_handler_parts mk m =
     (let mod_path = ttrpc_mod mk; inp = message_type_token mk (pm_input_type m); method_name = ident mk (method_name_rust m)
      in case from_method m of
           Unary \<Rightarrow>
             (qt ''MethodHandler'', fmt [qt ''req :'', mod_path, qt '':: Request''], fmt [mod_path, qt '':: Response''],
              fmt [mod_path, qt '':: async_request_handler !'',
                parens (fmt [qt ''self , ctx , req ,'', inp, qt '','', method_name]), qt '';''])
         | ClientStreaming \<Rightarrow>
             (qt ''StreamHandler'', fmt [qt ''inner :'', mod_path, qt '':: r#async :: StreamInner''],
              fmt [qt ''Option <'', mod_path, qt '':: Response >''],
              fmt [mod_path, qt '':: async_client_streamimg_handler !'',
                parens (fmt [qt ''self , ctx , inner ,'', method_name]), qt '';''])
         | ServerStreaming \<Rightarrow>
             (qt ''StreamHandler'', fmt [qt ''mut inner :'', mod_path, qt '':: r#async :: StreamInner''],
              fmt [qt ''Option <'', mod_path, qt '':: Response >''],
              fmt [mod_path, qt '':: async_server_streamimg_handler !'',
                parens (fmt [qt ''self , ctx , inner ,'', inp, qt '','', method_name]), qt '';''])
         | Duplex \<Rightarrow>
             (qt ''StreamHandler'', fmt [qt ''inner :'', mod_path, qt '':: r#async :: StreamInner''],
              fmt [qt ''Option <'', mod_path, qt '':: Response >''],
              fmt [mod_path, qt '':: async_duplex_streamimg_handler !'',
                parens (fmt [qt ''self , ctx , inner ,'', method_name]), qt '';'']))"

text \<open>The input type is built first in every case, so that a bad path panics even where it is not used.\<close>

definition method_handler_impl_async_token :: "(string \<Rightarrow> string option) \<Rightarrow> tokens \<Rightarrow> prost_method \<Rightarrow> tokens" where
  "method_handler_impl_async_token mk struct_nm m =
     (case async_handler_parts mk m of (handler_trait, inner, result, handler) \<Rightarrow>
        Option.bind (message_type_token mk (pm_input_type m)) (\<lambda>_.
          fmt [qt ''#'', brackets (qt ''async_trait''), qt ''impl :: ttrpc :: r#async ::'', handler_trait, qt ''for'', struct_nm,
            braces (fmt [qt ''async fn handler'',
              parens (fmt [qt ''& self , ctx :'', ttrpc_context_token mk True, qt '','', inner]),
              qt ''->'', ttrpc_mod mk, qt '':: Result <'', result, qt ''>'', braces handler])]))"

definition method_handler_token ::
  "(string \<Rightarrow> string option) \<Rightarrow> async_mode \<Rightarrow> prost_service \<Rightarrow> prost_method \<Rightarrow> tokens" where
  "method_handler_token mk mode s m =
     (let struct_nm = ident mk (method_handler_type s m)
      in fmt [qt ''struct'', struct_nm,
           braces (fmt [qt ''service : :: std :: sync :: Arc < dyn'', ident mk (ps_name s), qt ''+ Send + Sync > ,'']),
           if prost_async_on mode ServerSide then method_handler_impl_async_token mk struct_nm m
           else method_handler_impl_sync_token mk struct_nm m])"

subsection \<open>Registration of a service\<close>

definition handler_box :: "(string \<Rightarrow> string option) \<Rightarrow> string \<Rightarrow> tokens \<Rightarrow> string \<Rightarrow> tokens" where
  "handler_box mk ptr mm trait =
     fmt [qt ptr, qt '':: new'',
       parens (fmt [mm, braces (fmt [qt ''service : :: std :: clone :: Clone :: clone'', parens (qt ''& service'')])]),
       qt ''as'', qt ptr, qt ''< dyn'', ttrpc_mod mk, qt trait, qt ''+ Send + Sync >'']"

definition insert_token :: "string \<Rightarrow> string \<Rightarrow> tokens \<Rightarrow> tokens" where
  "insert_token table key v =
     fmt [qt table, qt ''. insert'', parens (fmt [str_lit key, qt ''. to_string'', parens empty_quote, qt '','', v]), qt '';'']"

definition sync_creating_service_method_token :: "(string \<Rightarrow> string option) \<Rightarrow> prost_service \<Rightarrow> tokens" where
  "sync_creating_service_method_token mk s =
     (let mod_path = ttrpc_mod mk;
          method_inserts = map (\<lambda>m. insert_token ''methods'' (method_path s m)
            (handler_box mk '':: std :: boxed :: Box'' (ident mk (method_handler_type s m)) '':: MethodHandler'')) (ps_methods s)
      in fmt [qt ''pub fn'', ident mk (''create_'' @ service_name_rust s),
           parens (fmt [qt ''service : :: std :: sync :: Arc < dyn'', ident mk (ps_name s), qt ''+ Send + Sync >'']),
           qt ''-> :: std :: collections :: HashMap < String , :: std :: boxed :: Box < dyn'', mod_path,
           qt '':: MethodHandler + Send + Sync >>'',
           braces (fmt [qt ''let mut methods = :: std :: collections :: HashMap :: new'', parens empty_quote, qt '';'',
             fmt method_inserts, qt ''methods''])])"

definition async_method_insert :: "(string \<Rightarrow> string option) \<Rightarrow> prost_service \<Rightarrow> prost_method \<Rightarrow> tokens" where
  "async_method_insert mk s m =
     (let mm = ident mk (method_handler_type s m)
      in if from_method m = Unary then
           insert_token ''methods'' (pm_proto_name m) (handler_box mk '':: std :: boxed :: Box'' mm '':: r#async :: MethodHandler'')
         else
           insert_token ''streams'' (pm_proto_name m) (handler_box mk '':: std :: sync :: Arc'' mm '':: r#async :: StreamHandler''))"

definition async_creating_service_method_token :: "(string \<Rightarrow> string option) \<Rightarrow> prost_service \<Rightarrow> tokens" where
  "async_creating_service_method_token mk s =
     (let mod_path = ttrpc_mod mk
      in fmt [qt ''pub fn'', ident mk (''create_'' @ service_name_rust s),
           parens (fmt [qt ''service : :: std :: sync :: Arc < dyn'', ident mk (ps_name s), qt ''+ Send + Sync >'']),
           qt ''-> :: std :: collections :: HashMap < String ,'', mod_path, qt '':: r#async :: Service >'',
           braces (fmt [qt ''let mut ret = :: std :: collections :: HashMap :: new'', parens empty_quote, qt '';'',
             qt ''let mut methods = :: std :: collections :: HashMap :: new'', parens empty_quote, qt '';'',
             qt (if prost_has_stream_method s then ''let mut streams'' else ''let streams''),
             qt ''= :: std :: collections :: HashMap :: new'', parens empty_quote, qt '';'',
             fmt (map (async_method_insert mk s) (ps_methods s)),
             insert_token ''ret'' (service_full_name s) (fmt [mod_path, qt '':: r#async :: Service'', braces (qt ''methods , streams'')]),
             qt ''ret''])])"

definition creating_service_method ::
  "(string \<Rightarrow> string option) \<Rightarrow> async_mode \<Rightarrow> prost_service \<Rightarrow> tokens" where
  "creating_service_method mk mode s =
     (if prost_async_on mode ServerSide then async_creating_service_method_token mk s
      else sync_creating_service_method_token mk s)"

subsection \<open>The client\<close>

definition client_sturct_token :: "(string \<Rightarrow> string option) \<Rightarrow> async_mode \<Rightarrow> prost_service \<Rightarrow> tokens" where
  "client_sturct_token mk mode s =
     (let ct = ident mk (client_type s);
          field = fmt [ttrpc_mod mk, if prost_async_on mode ClientSide then qt '':: r#async :: Client'' else qt '':: Client'']
      in fmt [qt ''#'', brackets (fmt [qt ''derive'', parens (qt ''Clone'')]), qt ''pub struct'', ct,
           braces (fmt [qt ''client :'', field, qt '','']),
           qt ''impl'', ct, braces (fmt [qt ''pub fn new'', parens (fmt [qt ''client :'', field]), qt ''-> Self'',
             braces (fmt [ct, braces (qt ''client ,'')])])])"

text \<open>A streaming method of a blocking client is a panic of the generator.\<close>

definition sync_client_method_token :: "(string \<Rightarrow> string option) \<Rightarrow> prost_service \<Rightarrow> prost_method \<Rightarrow> tokens" where
  "sync_client_method_token mk s m =
     (let mod_path = ttrpc_mod mk; inp = message_type_token mk (pm_input_type m); outp = message_type_token mk (pm_output_type m)
      in case from_method m of
           Unary \<Rightarrow>
             fmt [qt ''pub fn'', ident mk (pm_name m),
               parens (fmt [qt ''& self , ctx :'', mod_path, qt '':: context :: Context , req : &'', inp]),
               qt ''->'', mod_path, qt '':: Result <'', outp, qt ''>'',
               braces (fmt [qt ''let mut cres ='', outp, qt '':: default'', parens empty_quote, qt '';'',
                 mod_path, qt '':: client_request !'',
                 parens (fmt [qt ''self , ctx , req ,'', str_lit (service_full_name s), qt '','', str_lit (pm_proto_name m), qt '', cres'']),
                 qt ''; Ok'', parens (qt ''cres'')])]
         | _ \<Rightarrow> None)"

text \<open>The further arguments, the result type and the body of an asynchronous client method.\<close>

definition async_client_parts ::
  "(string \<Rightarrow> string option) \<Rightarrow> prost_service \<Rightarrow> prost_method \<Rightarrow> tokens list \<times> tokens \<times> tokens" where
  "async_client_parts mk s m =
     (let mod_path = ttrpc_mod mk; inp = message_type_token mk (pm_input_type m); outp = message_type_token mk (pm_output_type m);
          wire = fmt [str_lit (service_full_name s), qt '','', str_lit (pm_proto_name m)]
      in case from_method m of
           Unary \<Rightarrow>
             ([fmt [qt ''req : &'', inp]], fmt [mod_path, qt '':: Result <'', outp, qt ''>''],
              fmt [qt ''let mut cres ='', outp, qt '':: default'', parens empty_quote, qt '';'',
                mod_path, qt '':: async_client_request !'', parens (fmt [qt ''self , ctx , req ,'', wire, qt '', cres'']), qt '';''])
         | ClientStreaming \<Rightarrow>
             ([], fmt [mod_path, qt '':: Result <'', mod_path, qt '':: r#async :: ClientStreamSender <'', inp, qt '','', outp, qt ''>>''],
              fmt [qt '':: ttrpc :: async_client_stream_send !'', parens (fmt [qt ''self , ctx ,'', wire]), qt '';''])
         | ServerStreaming \<Rightarrow>
             ([fmt [qt ''req : &'', inp]],
              fmt [mod_path, qt '':: Result <'', mod_path, qt '':: r#async :: ClientStreamReceiver <'', outp, qt ''>>''],
              fmt [mod_path, qt '':: async_client_stream_receive !'', parens (fmt [qt ''self , ctx , req ,'', wire]), qt '';''])
         | Duplex \<Rightarrow>
             ([], fmt [mod_path, qt '':: Result <'', mod_path, qt '':: r#async :: ClientStream <'', inp, qt '','', outp, qt ''>>''],
              fmt [qt '':: ttrpc :: async_client_stream !'', parens (fmt [qt ''self , ctx ,'', wire]), qt '';'']))"

definition async_client_method_token :: "(string \<Rightarrow> string option) \<Rightarrow> prost_service \<Rightarrow> prost_method \<Rightarrow> tokens" where
  "async_client_method_token mk s m =
     (case async_client_parts mk s m of (arg_tokens, ret, body) \<Rightarrow>
        fmt [qt ''pub async fn'', ident mk (pm_name m),
          parens (fmt (sep_by (qt '','') ([qt ''& self'', fmt [qt ''ctx :'', ttrpc_mod mk, qt '':: context :: Context'']] @ arg_tokens))),
          qt ''->'', ret, braces body])"

definition client_methods_token :: "(string \<Rightarrow> string option) \<Rightarrow> async_mode \<Rightarrow> prost_service \<Rightarrow> tokens" where
  "client_methods_token mk mode s =
     fmt [qt ''impl'', ident mk (client_type s),
       braces (fmt (map (if prost_async_on mode ClientSide then async_client_method_token mk s
                         else sync_client_method_token mk s) (ps_methods s)))]"

definition generate_client :: "(string \<Rightarrow> string option) \<Rightarrow> async_mode \<Rightarrow> prost_service \<Rightarrow> tokens" where
  "generate_client mk mode s = fmt [client_sturct_token mk mode s, client_methods_token mk mode s]"

subsection \<open>The generated text\<close>

type_synonym text_op = "string \<Rightarrow> string option"

definition push_tokens :: "(token list \<Rightarrow> string) \<Rightarrow> tokens \<Rightarrow> text_op" where
  "push_tokens show_ts ts buf = map_option (\<lambda>t. buf @ show_ts t) ts"

fun generate_method_handlers ::
  "(string \<Rightarrow> string option) \<Rightarrow> (token list \<Rightarrow> string) \<Rightarrow> async_mode \<Rightarrow> prost_service \<Rightarrow> prost_method list \<Rightarrow> text_op" where
  "generate_method_handlers mk show_ts mode s [] buf = Some buf"
| "generate_method_handlers mk show_ts mode s (m # ms) buf =
     Option.bind (push_tokens show_ts (method_handler_token mk mode s m) buf) (generate_method_handlers mk show_ts mode s ms)"

definition async_trait_token :: "async_mode \<Rightarrow> token list" where
  "async_trait_token mode =
     (if mode \<noteq> AsyncNone then map Tok [''use'', ''async_trait'', ''::'', ''async_trait'', '';''] else [])"

text \<open>
  \<open>generate\<close>: the service in a module of its own, and the module's items at the package's level. The
  opening and the closing of the module are pushed as text.
\<close>

definition generate ::
  "(string \<Rightarrow> string option) \<Rightarrow> (token list \<Rightarrow> string) \<Rightarrow> async_mode \<Rightarrow> prost_service \<Rightarrow> text_op" where
  "generate mk show_ts mode s buf =
     (let module_name = service_module_name s;
          buf1 = buf @ ''pub mod '' @ module_name @ '' { #![allow(unused_imports)] '' @ show_ts (async_trait_token mode) @ '' ''
      in Option.bind (push_tokens show_ts (generate_trait mk mode s) buf1) (\<lambda>buf2.
         Option.bind (generate_method_handlers mk show_ts mode s (ps_methods s) buf2) (\<lambda>buf3.
         Option.bind (push_tokens show_ts (creating_service_method mk mode s) buf3) (\<lambda>buf4.
         Option.bind (push_tokens show_ts (generate_client mk mode s) buf4) (\<lambda>buf5.
           Some (buf5 @ ''} pub use self :: '' @ module_name @ '' :: * ;''))))))"

text \<open>\<open>prost-build\<close> calls it once per service, on one buffer per package.\<close>

fun generate_all ::
  "(string \<Rightarrow> string option) \<Rightarrow> (token list \<Rightarrow> string) \<Rightarrow> async_mode \<Rightarrow> prost_service list \<Rightarrow> text_op" where
  "generate_all mk show_ts mode [] buf = Some buf"
| "generate_all mk show_ts mode (s # ss) buf = Option.bind (generate mk show_ts mode s buf) (generate_all mk show_ts mode ss)"

end
