(* ===== verification/ProstText.thy ===== *)
theory ProstText
  imports ProstSvc
begin

text \<open>
  What the Prost service generator produces: when it panics, that its text is lexed and all groups in it are
  closed, and which names are in it. The contracts of the crate that makes identifiers and prints
  token streams, and of the lexer of the language, are \<open>ident_maker\<close> and \<open>token_text\<close>.
\<close>

declare fmt.simps [simp del]

subsection \<open>When the generator panics\<close>

definition made :: "tokens \<Rightarrow> bool" where "made ts \<longleftrightarrow> ts \<noteq> None"

lemma made_fmt [simp]: "made (fmt xs) \<longleftrightarrow> (\<forall>x \<in> set xs. made x)"
  by (induction xs) (auto simp: made_def fmt.simps bind_eq_None_conv)

lemma made_simps [simp]:
  "made (Some t)" "made (qt s)" "made (ident mk n) \<longleftrightarrow> mk n \<noteq> None" "\<not> made None"
  by (auto simp: made_def qt_def ident_def)

lemma made_delimited [simp]: "made (delimited l r ts) \<longleftrightarrow> made ts"
  by (simp add: delimited_def)

lemma made_if [simp]: "made (if b then x else y) \<longleftrightarrow> (if b then made x else made y)"
  by simp

lemma made_bind: "(\<And>t. made (f t) \<longleftrightarrow> p) \<Longrightarrow> made (Option.bind x f) \<longleftrightarrow> made x \<and> p"
  by (cases x) (auto simp: made_def)

lemma made_sep_by [simp]: "made x \<Longrightarrow> (\<forall>y \<in> set (sep_by x ys). made y) \<longleftrightarrow> (\<forall>y \<in> set ys. made y)"
  by (induction x ys rule: sep_by.induct) auto

definition types_made :: "(string \<Rightarrow> string option) \<Rightarrow> prost_method \<Rightarrow> bool" where
  "types_made mk m \<longleftrightarrow> made (type_token mk (pm_input_type m)) \<and> made (type_token mk (pm_output_type m))"

lemma made_paths:
  assumes "mk ''ttrpc'' \<noteq> None"
  shows "made (ttrpc_mod mk)" "\<And>b. made (ttrpc_context_token mk b)" "\<And>p. made (message_type_token mk p) \<longleftrightarrow> made (type_token mk p)"
  using assms by (auto simp: ttrpc_mod_def ttrpc_context_token_def message_type_token_def)

lemma made_signature:
  assumes "mk ''ttrpc'' \<noteq> None"
  shows "made (trait_method_signature_token mk mode s m) \<longleftrightarrow> mk (method_name_rust m) \<noteq> None \<and> types_made mk m"
  using made_paths [of mk, OF assms]
  by (cases "from_method m") (auto simp: trait_method_signature_token_def signature_types_def types_made_def Let_def)

lemma made_handler:
  assumes "mk ''ttrpc'' \<noteq> None" and "types_made mk m"
  shows "made (method_handler_token mk mode s m) \<longleftrightarrow> mk (method_handler_type s m) \<noteq> None
     \<and> mk (ps_name s) \<noteq> None \<and> mk (method_name_rust m) \<noteq> None"
proof -
  note paths = made_paths [of mk, OF assms(1)]
  have "made (method_handler_impl_sync_token mk x m) \<longleftrightarrow> made x \<and> mk (method_name_rust m) \<noteq> None" for x
    using assms(2) paths by (auto simp: method_handler_impl_sync_token_def types_made_def Let_def)
  moreover have "made (method_handler_impl_async_token mk x m) \<longleftrightarrow> made x \<and> mk (method_name_rust m) \<noteq> None" for x
    using assms(2) paths
    by (cases "from_method m")
      (auto simp: method_handler_impl_async_token_def async_handler_parts_def types_made_def Let_def
        made_bind [where p = "made x \<and> mk (method_name_rust m) \<noteq> None"])
  ultimately show ?thesis by (auto simp: method_handler_token_def Let_def)
qed

lemma made_insert:
  assumes "mk ''ttrpc'' \<noteq> None"
  shows "made (insert_token table key v) \<longleftrightarrow> made v" "made (handler_box mk ptr mm trait) \<longleftrightarrow> made mm"
    "made (async_method_insert mk s m) \<longleftrightarrow> mk (method_handler_type s m) \<noteq> None"
  using made_paths [of mk, OF assms] by (auto simp: insert_token_def handler_box_def async_method_insert_def Let_def)

lemma made_creating:
  assumes "mk ''ttrpc'' \<noteq> None"
  shows "made (creating_service_method mk mode s) \<longleftrightarrow> mk (''create_'' @ service_name_rust s) \<noteq> None \<and> mk (ps_name s) \<noteq> None
     \<and> (\<forall>m \<in> set (ps_methods s). mk (method_handler_type s m) \<noteq> None)"
  using made_paths [of mk, OF assms] made_insert [of mk, OF assms]
  by (auto simp: creating_service_method_def sync_creating_service_method_token_def async_creating_service_method_token_def Let_def)

lemma made_client:
  assumes "mk ''ttrpc'' \<noteq> None" and "\<forall>m \<in> set (ps_methods s). types_made mk m"
  shows "made (generate_client mk mode s) \<longleftrightarrow> mk (client_type s) \<noteq> None \<and> (\<forall>m \<in> set (ps_methods s). mk (pm_name m) \<noteq> None)
     \<and> (prost_async_on mode ClientSide \<or> \<not> prost_has_stream_method s)"
proof -
  note paths = made_paths [of mk, OF assms(1)]
  have "made (async_client_method_token mk s m) \<longleftrightarrow> mk (pm_name m) \<noteq> None" if "types_made mk m" for m
    using that paths
    by (cases "from_method m") (auto simp: async_client_method_token_def async_client_parts_def types_made_def Let_def)
  moreover have "made (sync_client_method_token mk s m) \<longleftrightarrow> mk (pm_name m) \<noteq> None \<and> from_method m = Unary" if "types_made mk m" for m
    using that paths
    by (cases "from_method m") (auto simp: sync_client_method_token_def types_made_def Let_def)
  moreover have "made (client_sturct_token mk mode s) \<longleftrightarrow> mk (client_type s) \<noteq> None"
    using paths by (auto simp: client_sturct_token_def Let_def)
  ultimately show ?thesis
    using assms(2) by (auto simp: generate_client_def client_methods_token_def prost_has_stream_method_def)
qed

text \<open>What is pushed, when nothing panics.\<close>

lemma push_tokens_eq: "push_tokens show_ts ts b = (if made ts then Some (b @ show_ts (the ts)) else None)"
  by (cases ts) (auto simp: push_tokens_def made_def)

lemma handlers_eq:
  "generate_method_handlers mk show_ts mode s ms b =
     (if \<forall>m \<in> set ms. made (method_handler_token mk mode s m)
      then Some (b @ concat (map (\<lambda>m. show_ts (the (method_handler_token mk mode s m))) ms)) else None)"
  by (induction ms arbitrary: b) (auto simp: push_tokens_eq)

definition items :: "(string \<Rightarrow> string option) \<Rightarrow> async_mode \<Rightarrow> prost_service \<Rightarrow> tokens list" where
  "items mk mode s = generate_trait mk mode s # map (method_handler_token mk mode s) (ps_methods s)
     @ [creating_service_method mk mode s, generate_client mk mode s]"

lemma generate_eq:
  "generate mk show_ts mode s b =
     (if \<forall>x \<in> set (items mk mode s). made x
      then Some (b @ ''pub mod '' @ service_module_name s @ '' { #![allow(unused_imports)] '' @ show_ts (async_trait_token mode) @ '' ''
        @ concat (map (\<lambda>x. show_ts (the x)) (items mk mode s)) @ ''} pub use self :: '' @ service_module_name s @ '' :: * ;'')
      else None)"
  by (auto simp: generate_def items_def Let_def push_tokens_eq handlers_eq comp_def)

lemma items_made:
  assumes "mk ''ttrpc'' \<noteq> None" and "\<forall>m \<in> set (ps_methods s). types_made mk m"
  shows "(\<forall>x \<in> set (items mk mode s). made x) \<longleftrightarrow> mk (ps_name s) \<noteq> None \<and> mk (client_type s) \<noteq> None
     \<and> mk (''create_'' @ service_name_rust s) \<noteq> None
     \<and> (\<forall>m \<in> set (ps_methods s). mk (method_name_rust m) \<noteq> None \<and> mk (method_handler_type s m) \<noteq> None \<and> mk (pm_name m) \<noteq> None)
     \<and> (prost_async_on mode ClientSide \<or> \<not> prost_has_stream_method s)"
  using assms made_signature [of mk, OF assms(1)] made_handler [of mk, OF assms(1)]
    made_creating [of mk, OF assms(1)] made_client [of mk, OF assms]
  by (auto simp: items_def generate_trait_def)

subsection \<open>Names that are identifiers\<close>

definition word_char :: "char \<Rightarrow> bool" where
  "word_char c \<longleftrightarrow> is_upper c \<or> is_lower c \<or> is_digit c \<or> c = underscore"

definition ascii_ident :: "string \<Rightarrow> bool" where
  "ascii_ident n \<longleftrightarrow> n \<noteq> [] \<and> list_all word_char n \<and> \<not> is_digit (hd n)"

definition proto_name :: "string \<Rightarrow> bool" where
  "proto_name n \<longleftrightarrow> n \<noteq> [] \<and> list_all word_char n \<and> (is_upper (hd n) \<or> is_lower (hd n))"

lemma case_chars:
  "word_char c \<Longrightarrow> word_char (lower_char c)" "word_char c \<Longrightarrow> word_char (upper_char c)"
  "is_upper c \<or> is_lower c \<Longrightarrow> \<not> is_digit (lower_char c)" "is_upper c \<or> is_lower c \<Longrightarrow> \<not> is_digit (upper_char c)"
  by (auto simp: word_char_def lower_char_def upper_char_def is_upper_def is_lower_def is_digit_def)

lemma letter_not_underscore: "is_upper c \<or> is_lower c \<Longrightarrow> c \<noteq> underscore"
  by (auto simp: is_upper_def is_lower_def)

lemma prost_parts_letters:
  "concat (prost_name_parts n) = filter (\<lambda>c. c \<noteq> underscore) n" "[] \<notin> set (prost_name_parts n)"
proof -
  have "concat (filter (\<lambda>s. s \<noteq> []) ss) = concat ss" for ss :: "string list" by (induction ss) auto
  then show "concat (prost_name_parts n) = filter (\<lambda>c. c \<noteq> underscore) n"
    using name_parts_letters [of 0 n] prost_parts [of 0 n] by (simp add: prost_name_parts_def)
  show "[] \<notin> set (prost_name_parts n)"
    using prost_parts [of 0 n] by (simp add: prost_name_parts_def)
qed

lemma case_ident:
  assumes "proto_name n"
  shows "ascii_ident (prost_to_snake_case n)" "ascii_ident (prost_to_camel_case n)"
proof -
  from assms obtain c cs where n: "n = c # cs" and c: "c \<noteq> underscore" "is_upper c \<or> is_lower c" and word: "list_all word_char n"
    using letter_not_underscore by (cases n) (auto simp: proto_name_def)
  have letters: "concat (prost_name_parts n) = c # filter (\<lambda>c. c \<noteq> underscore) cs"
    using c(1) prost_parts_letters(1) [of n] by (simp add: n)
  then obtain p ps where ps: "prost_name_parts n = p # ps" by (cases "prost_name_parts n") auto
  with prost_parts_letters(2) [of n] letters obtain q where p: "p = c # q" by (cases p) auto
  note parts = ps [unfolded p]
  have "set (concat (prost_name_parts n)) \<subseteq> set n" using prost_parts_letters(1) [of n] by auto
  then have chars: "word_char x" if "s \<in> set (prost_name_parts n)" "x \<in> set s" for s x
    using that word by (auto simp: list_all_iff)
  have snake: "prost_to_snake_case n = lower_char c # butlast (map lower_char q @ underscore
      # concat (map (\<lambda>s. if s = [] then [] else to_lowercase s @ [underscore]) ps))"
    unfolding prost_to_snake_case_def parts by simp
  have camel: "prost_to_camel_case n = upper_char c # map lower_char q
      @ concat (map (\<lambda>s. case s of [] \<Rightarrow> [] | c # cs \<Rightarrow> upper_char c # to_lowercase cs) ps)"
    unfolding prost_to_camel_case_def parts by simp
  have "list_all word_char (prost_to_snake_case n)"
    unfolding prost_to_snake_case_def list_all_iff using chars
    by (auto dest!: in_set_butlastD simp: word_char_def [of underscore] case_chars(1) split: if_splits)
  with snake c(2) show "ascii_ident (prost_to_snake_case n)" by (simp add: ascii_ident_def case_chars)
  have "list_all word_char (prost_to_camel_case n)"
    unfolding prost_to_camel_case_def list_all_iff using chars
    by (force simp: case_chars split: list.splits)
  with camel c(2) show "ascii_ident (prost_to_camel_case n)" by (simp add: ascii_ident_def case_chars)
qed

text \<open>
  What the \<open>proc_macro2\<close> crate promises of identifiers: one is made of exactly the names that are
  identifiers, keywords or raw identifiers, and its text is the name. A byte of a multi-byte character may be
  part of an identifier.
\<close>

definition rust_ident :: "string \<Rightarrow> bool" where
  "rust_ident n \<longleftrightarrow>
     (let w = (case strip_prefix ''r#'' n of Some w \<Rightarrow> w | None \<Rightarrow> n)
      in w \<noteq> [] \<and> list_all (\<lambda>c. word_char c \<or> 128 \<le> (of_char c :: int)) w \<and> \<not> is_digit (hd w))"

definition ident_maker :: "(string \<Rightarrow> string option) \<Rightarrow> bool" where
  "ident_maker mk \<longleftrightarrow> (\<forall>n i. mk n = Some i \<longrightarrow> i = n \<and> rust_ident n) \<and> (\<forall>n. ascii_ident n \<longrightarrow> mk n = Some n)"

definition path_ok :: "string \<Rightarrow> bool" where
  "path_ok p \<longleftrightarrow> p = ''()'' \<or> list_all ascii_ident (split_colons p)"

definition method_ok :: "prost_method \<Rightarrow> bool" where
  "method_ok m \<longleftrightarrow> proto_name (pm_name m) \<and> proto_name (pm_proto_name m) \<and> path_ok (pm_input_type m) \<and> path_ok (pm_output_type m)"

definition service_ok :: "prost_service \<Rightarrow> bool" where
  "service_ok s \<longleftrightarrow> proto_name (ps_name s) \<and> list_all method_ok (ps_methods s)"

lemma ascii_ident_append: "ascii_ident a \<Longrightarrow> list_all word_char b \<Longrightarrow> ascii_ident (a @ b)"
  by (auto simp: ascii_ident_def)

lemma proto_ident: "proto_name n \<Longrightarrow> ascii_ident n"
  by (auto simp: proto_name_def ascii_ident_def is_upper_def is_lower_def is_digit_def)

lemma literal_chars:
  "ascii_ident ''ttrpc''" "ascii_ident ''create_''" "ascii_ident ''__ttrpc_services_''" "list_all word_char ''Client''" "list_all word_char ''Method''"
  by code_simp+

lemma names_ok:
  assumes "service_ok s"
  shows "ascii_ident (client_type s)" "ascii_ident (''create_'' @ service_name_rust s)" "ascii_ident (service_module_name s)"
    "m \<in> set (ps_methods s) \<Longrightarrow> ascii_ident (method_handler_type s m)" "m \<in> set (ps_methods s) \<Longrightarrow> ascii_ident (method_name_rust m)"
proof -
  have words: "list_all word_char n" if "ascii_ident n" for n using that by (simp add: ascii_ident_def)
  have s: "proto_name (ps_name s)" using assms by (simp add: service_ok_def)
  note snake = case_ident(1) [OF s] and camel = case_ident(2) [OF s] and proto = proto_ident [OF s]
  show "ascii_ident (client_type s)"
    unfolding client_type_def using proto literal_chars(4) by (rule ascii_ident_append)
  show "ascii_ident (''create_'' @ service_name_rust s)"
    unfolding service_name_rust_def using literal_chars(2) words [OF snake] by (rule ascii_ident_append)
  show "ascii_ident (service_module_name s)"
    unfolding service_module_name_def using literal_chars(3) words [OF snake] by (rule ascii_ident_append)
  assume "m \<in> set (ps_methods s)"
  then have m: "proto_name (pm_name m)" "proto_name (pm_proto_name m)"
    using assms by (auto simp: service_ok_def method_ok_def list_all_iff)
  show "ascii_ident (method_name_rust m)" unfolding method_name_rust_def by (rule case_ident(1) [OF m(1)])
  show "ascii_ident (method_handler_type s m)"
    unfolding method_handler_type_def using camel words [OF case_ident(2) [OF m(2)]] literal_chars(5)
    by (intro ascii_ident_append) simp_all
qed

lemma types_ok:
  assumes "ident_maker mk" and "method_ok m"
  shows "types_made mk m"
proof -
  have "made (type_token mk p)" if "path_ok p" for p
    using that assms(1) by (auto simp: type_token_def path_ok_def ident_maker_def list_all_iff)
  with assms(2) show ?thesis by (simp add: types_made_def method_ok_def)
qed

lemma generate_iff:
  assumes "ident_maker mk" and "service_ok s"
  shows "(\<exists>buf'. generate mk show_ts mode s buf = Some buf') \<longleftrightarrow> prost_async_on mode ClientSide \<or> \<not> prost_has_stream_method s"
proof -
  have mk: "mk n \<noteq> None" if "ascii_ident n" for n using assms(1) that by (auto simp: ident_maker_def)
  have ok: "\<forall>m \<in> set (ps_methods s). types_made mk m" "ascii_ident (ps_name s)" "\<forall>m \<in> set (ps_methods s). ascii_ident (pm_name m)"
    using assms types_ok by (auto simp: service_ok_def method_ok_def list_all_iff intro: proto_ident)
  have "(\<forall>x \<in> set (items mk mode s). made x) \<longleftrightarrow> prost_async_on mode ClientSide \<or> \<not> prost_has_stream_method s"
    using items_made [OF mk [OF literal_chars(1)] ok(1)] mk names_ok [OF assms(2)] ok(2,3) by metis
  then show ?thesis by (simp add: generate_eq)
qed

lemma generate_all_iff:
  assumes "ident_maker mk" and "list_all service_ok ss"
  shows "(\<exists>buf'. generate_all mk show_ts mode ss buf = Some buf') \<longleftrightarrow>
    prost_async_on mode ClientSide \<or> list_all (\<lambda>s. \<not> prost_has_stream_method s) ss"
  using assms(2)
proof (induction ss arbitrary: buf)
  case (Cons s ss)
  have step: "(\<exists>b. generate mk show_ts mode s buf = Some b) \<longleftrightarrow> prost_async_on mode ClientSide \<or> \<not> prost_has_stream_method s"
    using generate_iff [OF assms(1)] Cons.prems by simp
  show ?case
  proof (cases "generate mk show_ts mode s buf")
    case None
    with step show ?thesis by auto
  next
    case (Some b)
    with step Cons show ?thesis by auto
  qed
qed simp

subsection \<open>The generated text is well formed\<close>

text \<open>Delimiters: a stack of the closing delimiters that are due.\<close>

definition closing :: "string \<Rightarrow> string option" where
  "closing w = (if w = ''('' then Some '')'' else if w = ''['' then Some '']'' else if w = ''{'' then Some ''}'' else None)"

fun delim_step :: "token \<Rightarrow> string list \<Rightarrow> string list option" where
  "delim_step (Str s) st = Some st"
| "delim_step (Tok w) st =
     (case closing w of
        Some c \<Rightarrow> Some (c # st)
      | None \<Rightarrow> if w \<in> {'')'', '']'', ''}''} then (if st \<noteq> [] \<and> hd st = w then Some (tl st) else None) else Some st)"

fun scan :: "token list \<Rightarrow> string list \<Rightarrow> string list option" where
  "scan [] st = Some st"
| "scan (t # ts) st = Option.bind (delim_step t st) (scan ts)"

lemma scan_append [simp]: "scan (a @ b) st = Option.bind (scan a st) (scan b)"
  by (induction a arbitrary: st) (auto split: bind_split)

definition PUNCTS :: "string list" where
  "PUNCTS = [''::'', ''->'', ''<'', ''>'', ''>>'', '','', '';'', '':'', ''&'', ''+'', ''='', ''!'', ''#'', ''.'', ''*'',
     ''('', '')'', ''['', '']'', ''{'', ''}'']"

definition rust_word :: "string \<Rightarrow> bool" where
  "rust_word w \<longleftrightarrow> rust_ident w \<or> w \<in> set PUNCTS"

fun token_ok :: "token \<Rightarrow> bool" where
  "token_ok (Tok w) = rust_word w"
| "token_ok (Str s) = True"

definition inner_word :: "string \<Rightarrow> bool" where
  "inner_word w \<longleftrightarrow> rust_word w \<and> closing w = None \<and> w \<notin> {'')'', '']'', ''}''}"

definition lit_ok :: "string \<Rightarrow> bool" where
  "lit_ok s \<longleftrightarrow> list_all inner_word (split_on CHR '' '' s)"

text \<open>A stream of tokens of the language, in which every group is closed.\<close>

definition sound :: "tokens \<Rightarrow> bool" where
  "sound ts \<longleftrightarrow> (\<forall>t. ts = Some t \<longrightarrow> list_all token_ok t \<and> (\<forall>st. scan t st = Some st))"

lemma scan_inner: "list_all inner_word ws \<Longrightarrow> scan (map Tok ws) st = Some st"
  by (induction ws) (auto simp: inner_word_def)

lemma sound_fmt [simp]: "\<forall>x \<in> set xs. sound x \<Longrightarrow> sound (fmt xs)"
  by (induction xs) (auto simp: sound_def fmt.simps bind_eq_Some_conv)

lemma sound_qt [simp]: "lit_ok s \<Longrightarrow> sound (qt s)"
  using scan_inner by (auto simp: sound_def lit_ok_def qt_def list_all_iff inner_word_def)

lemma sound_simps [simp]: "sound (Some [])" "sound (Some [Str s])" "sound None"
  by (simp_all add: sound_def)

lemma sound_bind [simp]: "(\<And>t. sound (f t)) \<Longrightarrow> sound (Option.bind x f)"
  by (cases x) simp_all

lemma sound_delimited [simp]: "sound ts \<Longrightarrow> sound (parens ts)" "sound ts \<Longrightarrow> sound (brackets ts)" "sound ts \<Longrightarrow> sound (braces ts)"
  by (auto simp: sound_def delimited_def fmt.simps qt_def bind_eq_Some_conv closing_def rust_word_def PUNCTS_def)

lemma ident_inner: "rust_ident n \<Longrightarrow> inner_word n"
proof -
  assume n: "rust_ident n"
  have "\<not> rust_ident w" if "w \<in> {''('', ''['', ''{'', '')'', '']'', ''}''}" for w
  proof -
    have "list_all (\<lambda>w. \<not> rust_ident w) [''('', ''['', ''{'', '')'', '']'', ''}'']" by code_simp
    with that show ?thesis by (auto simp: list_all_iff)
  qed
  with n show ?thesis by (auto simp: inner_word_def closing_def rust_word_def)
qed

lemma sound_ident [simp]: "ident_maker mk \<Longrightarrow> sound (ident mk n)"
proof (cases "mk n")
  case (Some i)
  moreover assume "ident_maker mk"
  ultimately have "i = n" "inner_word n" using ident_inner by (auto simp: ident_maker_def)
  then show ?thesis using scan_inner [of "[n]"] Some by (simp add: sound_def ident_def inner_word_def)
qed (simp add: ident_def)

lemma sound_sep_by [simp]:
  assumes "sound x" and "\<forall>y \<in> set ys. sound y"
  shows "sound (fmt (sep_by x ys))"
proof (rule sound_fmt)
  show "\<forall>y \<in> set (sep_by x ys). sound y" using assms by (induction x ys rule: sep_by.induct) auto
qed

text \<open>The literal parts of all the quotes.\<close>

lemma quote_literals: "list_all lit_ok [
    ''::'', ''super ::'', '':: r#async :: TtrpcContext'', '':: TtrpcContext'',
    '':: r#async :: ServerStreamReceiver <'', ''>'', '', _ :'', '':: r#async :: ServerStreamSender <'',
    '':: r#async :: ServerStream <'', '','', ''async'', ''fn'', ''& self , _ctx : &'', ''->'', '':: Result <'',
    ''Err'', '':: Error :: RpcStatus'', '':: get_status'', '':: Code :: NOT_FOUND ,'', ''#'', ''async_trait'',
    ''pub trait'', '': Sync'', ''impl'', '':: MethodHandler for'', ''fn handler'', ''& self , ctx :'', '', req :'',
    '':: Request'', '':: request_handler !'', ''self , ctx , req ,'', ''; Ok'', ''MethodHandler'', ''req :'',
    '':: Response'', '':: async_request_handler !'', '';'', ''StreamHandler'', ''inner :'',
    '':: r#async :: StreamInner'', ''Option <'', '':: Response >'', '':: async_client_streamimg_handler !'',
    ''self , ctx , inner ,'', ''mut inner :'', '':: async_server_streamimg_handler !'',
    '':: async_duplex_streamimg_handler !'', ''impl :: ttrpc :: r#async ::'', ''for'', ''async fn handler'',
    ''struct'', ''service : :: std :: sync :: Arc < dyn'', ''+ Send + Sync > ,'', '':: new'',
    ''service : :: std :: clone :: Clone :: clone'', ''& service'', ''as'', ''< dyn'', ''+ Send + Sync >'',
    ''. insert'', ''. to_string'', ''pub fn'',
    ''-> :: std :: collections :: HashMap < String , :: std :: boxed :: Box < dyn'',
    '':: MethodHandler + Send + Sync >>'', ''let mut methods = :: std :: collections :: HashMap :: new'',
    ''methods'', ''-> :: std :: collections :: HashMap < String ,'', '':: r#async :: Service >'',
    ''let mut ret = :: std :: collections :: HashMap :: new'', ''= :: std :: collections :: HashMap :: new'',
    '':: r#async :: Service'', ''methods , streams'', ''ret'', '':: r#async :: Client'', '':: Client'', ''derive'',
    ''Clone'', ''pub struct'', ''client :'', ''pub fn new'', ''-> Self'', ''client ,'',
    '':: context :: Context , req : &'', ''let mut cres ='', '':: default'', '':: client_request !'', '', cres'',
    ''cres'', ''req : &'', '':: async_client_request !'', '':: r#async :: ClientStreamSender <'', ''>>'',
    '':: ttrpc :: async_client_stream_send !'', ''self , ctx ,'', '':: r#async :: ClientStreamReceiver <'',
    '':: async_client_stream_receive !'', '':: r#async :: ClientStream <'', '':: ttrpc :: async_client_stream !'',
    ''pub async fn'', ''& self'', ''ctx :'', '':: context :: Context'', ''streams'', '':: std :: boxed :: Box'',
    '':: std :: sync :: Arc'', '':: MethodHandler'', '':: r#async :: MethodHandler'',
    '':: r#async :: StreamHandler'', ''let mut streams'', ''let streams'']"
  by code_simp

lemmas lits = quote_literals [unfolded list.pred_inject]

lemma sound_paths:
  assumes "ident_maker mk"
  shows "sound (ttrpc_mod mk)" "\<And>b. sound (ttrpc_context_token mk b)" "\<And>p. sound (message_type_token mk p)"
proof -
  show t: "sound (ttrpc_mod mk)" using assms by (simp add: lits ttrpc_mod_def)
  show "sound (ttrpc_context_token mk b)" for b using t by (simp add: lits ttrpc_context_token_def)
  have "sound (type_token mk p)" for p using assms by (simp add: lits type_token_def)
  then show "sound (message_type_token mk p)" for p by (simp add: lits message_type_token_def)
qed

lemma sound_signature: "ident_maker mk \<Longrightarrow> sound (trait_method_signature_token mk mode s m)"
  using sound_paths [of mk]
  by (cases "from_method m") (simp_all add: lits trait_method_signature_token_def signature_types_def Let_def)

lemma sound_handler:
  assumes "ident_maker mk"
  shows "sound (method_handler_token mk mode s m)"
proof -
  note facts = assms sound_paths [OF assms]
  have "sound x \<Longrightarrow> sound (method_handler_impl_sync_token mk x m)" for x
    using facts by (simp add: lits method_handler_impl_sync_token_def Let_def)
  moreover have "sound x \<Longrightarrow> sound (method_handler_impl_async_token mk x m)" for x
    using facts by (cases "from_method m")
      (simp_all add: lits method_handler_impl_async_token_def async_handler_parts_def Let_def)
  ultimately show ?thesis using facts by (simp add: lits method_handler_token_def Let_def)
qed

lemma sound_creating:
  assumes "ident_maker mk"
  shows "sound (creating_service_method mk mode s)"
proof -
  note facts = assms sound_paths [OF assms]
  have box: "sound (handler_box mk ptr mm trait)" if "sound mm" "lit_ok ptr" "lit_ok trait" for ptr mm trait
    using that facts by (simp add: lits handler_box_def)
  have ins: "sound (insert_token table key v)" if "sound v" "lit_ok table" for table key v
    using that by (simp add: lits insert_token_def)
  have "sound (async_method_insert mk s m)" for m
    using facts box ins by (simp add: lits async_method_insert_def Let_def)
  then show ?thesis using facts box ins
    by (simp add: lits creating_service_method_def sync_creating_service_method_token_def
        async_creating_service_method_token_def Let_def)
qed

lemma sound_client:
  assumes "ident_maker mk"
  shows "sound (generate_client mk mode s)"
proof -
  note facts = assms sound_paths [OF assms]
  have "sound (sync_client_method_token mk s m)" for m
    using facts by (cases "from_method m") (simp_all add: lits sync_client_method_token_def Let_def)
  moreover have "sound (async_client_method_token mk s m)" for m
    using facts by (cases "from_method m") (simp_all add: lits async_client_method_token_def async_client_parts_def Let_def)
  ultimately show ?thesis using facts
    by (simp add: lits generate_client_def client_sturct_token_def client_methods_token_def Let_def)
qed

lemma items_sound: "ident_maker mk \<Longrightarrow> x \<in> set (items mk mode s) \<Longrightarrow> sound x"
  using sound_handler [of mk] sound_creating [of mk] sound_client [of mk] sound_signature [of mk]
  by (auto simp: items_def generate_trait_def lits)

text \<open>Every item ends with a closing brace, so that the text pushed next starts a new token.\<close>

definition ends_brace :: "tokens \<Rightarrow> bool" where
  "ends_brace ts \<longleftrightarrow> (\<forall>t. ts = Some t \<longrightarrow> (\<exists>u. t = u @ [Tok ''}'']))"

lemma ends_brace_fmt: "xs \<noteq> [] \<Longrightarrow> ends_brace (last xs) \<Longrightarrow> ends_brace (fmt xs)"
proof (induction xs)
  case (Cons x xs)
  show ?case
  proof (cases "xs = []")
    case True
    with Cons.prems show ?thesis by (auto simp: fmt.simps ends_brace_def bind_eq_Some_conv)
  next
    case False
    with Cons have "ends_brace (fmt xs)" by simp
    then show ?thesis by (auto simp: fmt.simps ends_brace_def bind_eq_Some_conv)
  qed
qed simp

lemma ends_braces [simp]: "ends_brace (braces ts)"
  unfolding delimited_def by (rule ends_brace_fmt) (auto simp: ends_brace_def qt_def)

lemma ends_brace_bind: "(\<And>t. ends_brace (f t)) \<Longrightarrow> ends_brace (Option.bind x f)"
  by (cases x) (auto simp: ends_brace_def)

lemma items_end:
  assumes "x \<in> set (items mk mode s)"
  shows "ends_brace x"
proof -
  have "ends_brace (method_handler_impl_async_token mk n m)" for n m
    by (auto simp: method_handler_impl_async_token_def intro!: ends_brace_bind ends_brace_fmt split: prod.splits)
  moreover have "ends_brace (method_handler_impl_sync_token mk n m)" for n m
    by (auto simp: method_handler_impl_sync_token_def Let_def intro!: ends_brace_fmt)
  ultimately have "ends_brace (method_handler_token mk mode s m)" for m
    by (auto simp: method_handler_token_def Let_def intro!: ends_brace_fmt)
  moreover have "ends_brace (generate_trait mk mode s)" "ends_brace (creating_service_method mk mode s)" "ends_brace (generate_client mk mode s)"
    by (auto simp: generate_trait_def creating_service_method_def sync_creating_service_method_token_def
        async_creating_service_method_token_def generate_client_def client_methods_token_def Let_def intro!: ends_brace_fmt)
  ultimately show ?thesis using assms by (auto simp: items_def)
qed

text \<open>
  What is relied on of the language and of the crate that prints tokens. Lexing splits a text into tokens,
  without looking at how groups are nested (\<open>None\<close> is a lexical error): blanks separate, a word before a blank is
  a token, a semicolon is one. A printed token stream that ends with a brace or a semicolon is lexed back, whatever follows.
\<close>

definition ALLOW_UNUSED :: "token list" where
  "ALLOW_UNUSED = map Tok [''#'', ''!'', ''['', ''allow'', ''('', ''unused_imports'', '')'', '']'']"

definition token_text :: "(token list \<Rightarrow> string) \<Rightarrow> (string \<Rightarrow> token list option) \<Rightarrow> bool" where
  "token_text show_ts lexer \<longleftrightarrow>
     show_ts [] = [] \<and> lexer [] = Some [] \<and> (\<forall>s. lexer ('' '' @ s) = lexer s)
   \<and> (\<forall>w s. rust_word w \<longrightarrow> lexer (w @ '' '' @ s) = map_option (Cons (Tok w)) (lexer s))
   \<and> (\<forall>s. lexer ('';'' @ s) = map_option (Cons (Tok '';'')) (lexer s))
   \<and> (\<forall>s. lexer (''#![allow(unused_imports)] '' @ s) = map_option (append ALLOW_UNUSED) (lexer s))
   \<and> (\<forall>ts u w s. ts = u @ [Tok w] \<and> w \<in> {''}'', '';''} \<and> list_all token_ok ts
        \<longrightarrow> lexer (show_ts ts @ s) = map_option (append ts) (lexer s))"

definition module_tokens :: "(string \<Rightarrow> string option) \<Rightarrow> async_mode \<Rightarrow> prost_service \<Rightarrow> token list" where
  "module_tokens mk mode s =
     map Tok [''pub'', ''mod'', service_module_name s, ''{''] @ ALLOW_UNUSED @ async_trait_token mode
     @ concat (map the (items mk mode s)) @ map Tok [''}'', ''pub'', ''use'', ''self'', ''::'', service_module_name s, ''::'', ''*'', '';'']"

lemma map_append_Nil [simp]: "map_option (append []) x = x"
  by (cases x) simp_all

lemma lex_items:
  assumes "token_text show_ts lexer" and "\<forall>x \<in> set xs. made x \<and> sound x \<and> ends_brace x"
  shows "lexer (concat (map (\<lambda>x. show_ts (the x)) xs) @ s) = map_option (append (concat (map the xs))) (lexer s)"
  using assms(2)
proof (induction xs)
  case (Cons x xs)
  then obtain t u where t: "x = Some t" "t = u @ [Tok ''}'']" "list_all token_ok t"
    by (auto simp: made_def sound_def ends_brace_def)
  with assms(1) have "lexer (show_ts t @ s') = map_option (append t) (lexer s')" for s'
    unfolding token_text_def by blast
  with Cons t(1) show ?case by (simp add: option.map_comp comp_def)
qed simp

lemma frame_words: "list_all rust_word [''pub'', ''mod'', ''{'', ''}'', ''use'', ''self'', ''::'', ''*'', ''async_trait'', '';'']"
  by code_simp

lemma lex_generate:
  assumes "token_text show_ts lexer" and "ident_maker mk" and "ascii_ident (service_module_name s)"
    and "generate mk show_ts mode s b = Some b'"
  shows "\<exists>new. b' = b @ new \<and> (\<forall>rest. lexer (new @ rest) = map_option (append (module_tokens mk mode s)) (lexer rest))"
proof -
  let ?n = "service_module_name s" and ?xs = "items mk mode s"
  have made: "\<forall>x \<in> set ?xs. made x"
    and b': "b' = b @ ''pub mod '' @ ?n @ '' { #![allow(unused_imports)] '' @ show_ts (async_trait_token mode) @ '' ''
        @ concat (map (\<lambda>x. show_ts (the x)) ?xs) @ ''} pub use self :: '' @ ?n @ '' :: * ;''"
    using assms(4) by (auto simp: generate_eq split: if_splits)
  have n: "rust_word ?n" using assms(2,3) by (auto simp: ident_maker_def rust_word_def)
  note fw = frame_words [unfolded list.pred_inject]
  have word: "lexer (w @ '' '' @ r) = map_option (Cons (Tok w)) (lexer r)" if "rust_word w" for w r
    using assms(1) that by (simp add: token_text_def)
  have semi: "lexer ('';'' @ r) = map_option (Cons (Tok '';'')) (lexer r)" for r
    using assms(1) by (simp add: token_text_def)
  have attr: "lexer (''#![allow(unused_imports)] '' @ r) = map_option (append ALLOW_UNUSED) (lexer r)" for r
    using assms(1) by (simp add: token_text_def)
  have law: "lexer (show_ts ts @ r) = map_option (append ts) (lexer r)"
    if "ts = u @ [Tok w]" "w \<in> {''}'', '';''}" "list_all token_ok ts" for ts u w r
    using assms(1) that by (simp add: token_text_def)
  have trait: "lexer (show_ts (async_trait_token mode) @ '' '' @ r) = map_option (append (async_trait_token mode)) (lexer r)" for r
  proof -
    have blank: "lexer ('' '' @ r) = lexer r" "show_ts [] = []" using assms(1) by (simp_all add: token_text_def)
    have "list_all token_ok (map Tok [''use'', ''async_trait'', ''::'', ''async_trait'', '';''])" using fw by simp
    then have "lexer (show_ts (map Tok [''use'', ''async_trait'', ''::'', ''async_trait'', '';'']) @ r')
        = map_option (append (map Tok [''use'', ''async_trait'', ''::'', ''async_trait'', '';''])) (lexer r')" for r'
      by (intro law [of _ "map Tok [''use'', ''async_trait'', ''::'', ''async_trait'']" "'';''"]) simp_all
    with blank show ?thesis by (simp add: async_trait_token_def)
  qed
  have body: "lexer (concat (map (\<lambda>x. show_ts (the x)) ?xs) @ r) = map_option (append (concat (map the ?xs))) (lexer r)" for r
    using made items_sound [OF assms(2)] items_end by (intro lex_items [OF assms(1)]) blast
  let ?pieces = "\<lambda>r. ''pub'' @ '' '' @ ''mod'' @ '' '' @ ?n @ '' '' @ ''{'' @ '' '' @ ''#![allow(unused_imports)] ''
      @ show_ts (async_trait_token mode) @ '' '' @ concat (map (\<lambda>x. show_ts (the x)) ?xs)
      @ ''}'' @ '' '' @ ''pub'' @ '' '' @ ''use'' @ '' '' @ ''self'' @ '' '' @ ''::'' @ '' '' @ ?n @ '' '' @ ''::'' @ '' '' @ ''*'' @ '' '' @ '';'' @ r"
  have "lexer (?pieces r) = map_option (append (module_tokens mk mode s)) (lexer r)" for r
    unfolding trait body attr semi using fw n
    by (simp only: word trait body attr semi option.map_comp) (cases "lexer r"; simp add: module_tokens_def)
  moreover have "b' = b @ ?pieces []" "?pieces [] @ r = ?pieces r" for r by (simp_all add: b')
  ultimately show ?thesis by (metis (no_types, lifting))
qed

lemma scan_module:
  assumes "ident_maker mk" and "ascii_ident (service_module_name s)" and "\<forall>x \<in> set (items mk mode s). made x"
  shows "scan (module_tokens mk mode s) st = Some st"
proof -
  have n: "inner_word (service_module_name s)" using assms(1,2) ident_inner by (auto simp: ident_maker_def)
  have items: "scan (concat (map the xs)) st' = Some st'" if "\<forall>x \<in> set xs. made x \<and> sound x" for xs st'
    using that by (induction xs) (auto simp: made_def sound_def)
  have "list_all inner_word [''pub'', ''mod'', ''use'', ''self'', ''::'', ''*'', ''async_trait'', '';'', ''allow'', ''#'', ''!'', ''unused_imports'']"
    by code_simp
  note words = this [unfolded list.pred_inject inner_word_def] n [unfolded inner_word_def]
  have "scan (async_trait_token mode) st' = Some st'" for st' using words by (simp add: async_trait_token_def)
  moreover have "scan ALLOW_UNUSED st' = Some st'" for st' using words by (simp add: ALLOW_UNUSED_def closing_def)
  moreover have "scan (concat (map the (items mk mode s))) st' = Some st'" for st'
    using assms(3) items_sound [OF assms(1)] by (intro items) blast
  ultimately show ?thesis unfolding module_tokens_def using words
    by (simp add: closing_def)
qed

text \<open>
  C32: The Prost generator panics only on a streaming method for a blocking client. For any services whose
  names are identifiers that begin with a letter and whose types are paths, in any order and whatever
  the mode: all code is generated exactly if the client side is asynchronous or no method streams.
  The names derived by changing case and adding affixes are always identifiers, so that nothing else panics.
\<close>

theorem prost_generates:
  assumes "ident_maker mk" and "list_all service_ok ss"
  shows "(\<exists>buf'. generate_all mk show_ts mode ss buf = Some buf') \<longleftrightarrow>
    prost_async_on mode ClientSide \<or> list_all (\<lambda>s. \<not> prost_has_stream_method s) ss"
  using assms by (rule generate_all_iff)

text \<open>
  C31: The text of the Prost generator is well formed. Whatever services are generated into one buffer, in whatever
  order and mode: if none of them panics, the buffer is lexed without an error, all its groups are
  closed and nested properly, even though the modules that wrap the services are opened and closed by
  separate pieces of text, and it is the sequence of the services' modules, each followed by
  the re-export of its items.
\<close>

theorem prost_well_formed:
  assumes "token_text show_ts lexer" and "ident_maker mk" and "list_all service_ok ss"
    and "generate_all mk show_ts mode ss [] = Some buf"
  shows "\<exists>ts. lexer buf = Some ts \<and> scan ts [] = Some [] \<and> ts = concat (map (module_tokens mk mode) ss)"
proof -
  have "\<exists>new. buf = b @ new \<and> lexer new = Some (concat (map (module_tokens mk mode) ss))
      \<and> scan (concat (map (module_tokens mk mode) ss)) [] = Some []"
    if "generate_all mk show_ts mode ss b = Some buf" "list_all service_ok ss" for b ss
    using that
  proof (induction ss arbitrary: b)
    case Nil
    then show ?case using assms(1) by (simp add: token_text_def)
  next
    case (Cons s ss)
    then obtain b1 where b1: "generate mk show_ts mode s b = Some b1" "generate_all mk show_ts mode ss b1 = Some buf"
      by (auto simp: bind_eq_Some_conv)
    have n: "ascii_ident (service_module_name s)" using names_ok(3) Cons.prems(2) by simp
    have made: "\<forall>x \<in> set (items mk mode s). made x" using b1(1) by (auto simp: generate_eq split: if_splits)
    obtain new where new: "b1 = b @ new" "\<And>rest. lexer (new @ rest) = map_option (append (module_tokens mk mode s)) (lexer rest)"
      using lex_generate [OF assms(1,2) n b1(1)] by blast
    obtain new' where "buf = b1 @ new'" "lexer new' = Some (concat (map (module_tokens mk mode) ss))"
        "scan (concat (map (module_tokens mk mode) ss)) [] = Some []"
      using Cons.IH [OF b1(2)] Cons.prems(2) by auto
    with new scan_module [OF assms(2) n made] show ?case
      by (intro exI [of _ "new @ new'"]) simp
  qed
  from this [OF assms(4,3)] show ?thesis by auto
qed

text \<open>An instance of the hypotheses: words separated by blanks, and literals with every character marked.\<close>

definition plain_ident :: "string \<Rightarrow> string option" where
  "plain_ident n = (if rust_ident n then Some n else None)"

definition show_lit :: "string \<Rightarrow> string" where
  "show_lit s = CHR 0x22 # concat (map (\<lambda>c. [CHR ''x'', c]) s) @ [CHR 0x22]"

definition plain_show :: "token list \<Rightarrow> string" where
  "plain_show ts = concat (map (\<lambda>t. (case t of Tok w \<Rightarrow> w | Str s \<Rightarrow> show_lit s) @ '' '') ts)"

fun read_lit :: "string \<Rightarrow> string \<times> string" where
  "read_lit (c # d # s) = (if c = CHR ''x'' then (case read_lit s of (l, r) \<Rightarrow> (d # l, r)) else ([], d # s))"
| "read_lit s = ([], [])"

lemma read_lit_length: "length (snd (read_lit s)) \<le> length s"
  by (induction s rule: read_lit.induct) (auto split: prod.splits)

lemma read_show_lit: "read_lit (concat (map (\<lambda>c. [CHR ''x'', c]) s) @ CHR 0x22 # c # r) = (s, c # r)"
  by (induction s) auto

function plain_lex :: "string \<Rightarrow> token list option" where
  "plain_lex [] = Some []"
| "plain_lex (c # s) =
     (if c = CHR '' '' then plain_lex s
      else if c = CHR '';'' then map_option (Cons (Tok '';'')) (plain_lex s)
      else if c = CHR 0x22 then map_option (Cons (Str (fst (read_lit s)))) (plain_lex (snd (read_lit s)))
      else case strip_prefix ''#![allow(unused_imports)]'' (c # s) of
             Some r \<Rightarrow> map_option (append ALLOW_UNUSED) (plain_lex r)
           | None \<Rightarrow> map_option (Cons (Tok (c # takeWhile (\<lambda>x. x \<noteq> CHR '' '') s))) (plain_lex (dropWhile (\<lambda>x. x \<noteq> CHR '' '') s)))"
  by pat_completeness auto
termination
proof (relation "measure length")
  fix c :: char and s r :: string
  show "(snd (read_lit s), c # s) \<in> measure length" using read_lit_length [of s] by simp
  show "(dropWhile (\<lambda>x. x \<noteq> CHR '' '') s, c # s) \<in> measure length" using length_dropWhile_le [of _ s] by (simp add: le_imp_less_Suc)
  assume "strip_prefix ''#![allow(unused_imports)]'' (c # s) = Some r"
  then have "length (c # s) = length (''#![allow(unused_imports)]'' @ r)" by (simp only: strip_prefix_Some)
  then show "(r, c # s) \<in> measure length" by simp
qed auto

declare plain_lex.simps(2) [simp del]

lemma plain_ident_maker: "ident_maker plain_ident"
proof -
  have "rust_ident n" if "ascii_ident n" for n
  proof -
    have "\<not> word_char CHR ''#''" by code_simp
    then have "strip_prefix ''r#'' n = None"
      using that by (auto simp: ascii_ident_def strip_prefix_None)
    with that show ?thesis by (auto simp: rust_ident_def ascii_ident_def list_all_iff)
  qed
  then show ?thesis by (auto simp: ident_maker_def plain_ident_def)
qed

text \<open>A word has no blank, does not start a literal, and starts an attribute or a semicolon only if it is all of it.\<close>

definition apart :: "string \<Rightarrow> bool" where
  "apart w \<longleftrightarrow> w \<noteq> [] \<and> CHR '' '' \<notin> set w \<and> hd w \<noteq> CHR 0x22 \<and> (hd w \<in> {CHR '';'', CHR ''#''} \<longrightarrow> tl w = [])"

lemma word_apart:
  assumes "rust_word w"
  shows "apart w"
proof (cases "rust_ident w")
  case True
  have bad: "\<not> (word_char c \<or> 128 \<le> (of_char c :: int))" if "c \<in> {CHR '' '', CHR 0x22, CHR '';'', CHR ''#''}" for c
  proof -
    have "list_all (\<lambda>c. \<not> (word_char c \<or> 128 \<le> (of_char c :: int))) [CHR '' '', CHR 0x22, CHR '';'', CHR ''#'']" by code_simp
    with that show ?thesis by (auto simp only: list_all_iff list.set)
  qed
  show ?thesis
  proof (cases "strip_prefix ''r#'' w")
    case None
    with True have "w \<noteq> []" "list_all (\<lambda>c. word_char c \<or> 128 \<le> (of_char c :: int)) w" by (simp_all add: rust_ident_def)
    with bad show ?thesis unfolding apart_def list_all_iff by (metis hd_in_set insertCI)
  next
    case (Some v)
    with True have "list_all (\<lambda>c. word_char c \<or> 128 \<le> (of_char c :: int)) v" by (simp add: rust_ident_def)
    with bad have "CHR '' '' \<notin> set v" unfolding list_all_iff by (metis insertCI)
    with Some show ?thesis by (auto simp: apart_def strip_prefix_Some)
  qed
next
  case False
  then have "w \<in> set PUNCTS" using assms by (simp add: rust_word_def)
  moreover have "list_all apart PUNCTS" by code_simp
  ultimately show ?thesis by (simp add: list_all_iff)
qed

lemma plain_lex_word:
  assumes "apart w"
  shows "plain_lex (w @ '' '' @ s) = map_option (Cons (Tok w)) (plain_lex s)"
proof -
  obtain c v where w: "w = c # v" "CHR '' '' \<notin> set v" "c \<noteq> CHR '' ''" "c \<noteq> CHR 0x22"
    and short: "c = CHR '';'' \<or> c = CHR ''#'' \<longrightarrow> v = []"
    using assms by (cases w) (auto simp: apart_def)
  have blank: "plain_lex (CHR '' '' # s) = plain_lex s" by (simp add: plain_lex.simps)
  show ?thesis
  proof (cases "c = CHR '';''")
    case True
    with short blank show ?thesis by (simp add: w plain_lex.simps(2) [of "CHR '';''"])
  next
    case False
    have "strip_prefix ''#![allow(unused_imports)]'' (c # v @ '' '' @ s) = None"
      using short by (cases v) auto
    moreover have "takeWhile (\<lambda>x. x \<noteq> CHR '' '') (v @ CHR '' '' # s) = v" "dropWhile (\<lambda>x. x \<noteq> CHR '' '') (v @ CHR '' '' # s) = CHR '' '' # s"
      using w(2) by (auto simp: takeWhile_append dropWhile_append)
    ultimately show ?thesis using w False blank by (simp add: plain_lex.simps(2) [of c])
  qed
qed

lemma plain_lex_show:
  "list_all token_ok ts \<Longrightarrow> plain_lex (plain_show ts @ s) = map_option (append ts) (plain_lex s)"
proof (induction ts)
  case (Cons t ts)
  have "plain_lex ((case t of Tok w \<Rightarrow> w | Str l \<Rightarrow> show_lit l) @ '' '' @ r) = map_option (Cons t) (plain_lex r)" for r
  proof (cases t)
    case (Tok w)
    with Cons.prems word_apart plain_lex_word show ?thesis by simp
  next
    case (Str l)
    have "plain_lex (CHR '' '' # r) = plain_lex r" by (simp add: plain_lex.simps)
    with Str read_show_lit [of l] show ?thesis by (simp add: show_lit_def plain_lex.simps(2) [of "CHR 0x22"])
  qed
  from this [of "plain_show ts @ s"] Cons show ?case
    by (simp add: plain_show_def option.map_comp comp_def)
qed (simp add: plain_show_def)

lemma plain_token_text: "token_text plain_show plain_lex"
proof -
  have "plain_lex (''#![allow(unused_imports)] '' @ s) = map_option (append ALLOW_UNUSED) (plain_lex s)" for s
    by (simp add: plain_lex.simps)
  moreover have "plain_lex ('' '' @ s) = plain_lex s" "plain_lex ('';'' @ s) = map_option (Cons (Tok '';'')) (plain_lex s)" for s
    by (simp_all add: plain_lex.simps)
  moreover have "plain_show [] = []" by (simp add: plain_show_def)
  ultimately show ?thesis
    unfolding token_text_def using plain_lex_word word_apart plain_lex_show plain_lex.simps(1) by blast
qed

text \<open>The services of the generator's own tests.\<close>

definition test_service :: "string \<Rightarrow> string \<Rightarrow> string \<Rightarrow> string \<Rightarrow> prost_service" where
  "test_service package name meth inp = \<lparr>ps_name = name, ps_package = package, ps_methods = [\<lparr>pm_name = meth, pm_proto_name = meth,
     pm_input_type = inp, pm_output_type = ''()'', pm_client_streaming = False, pm_server_streaming = False\<rparr>]\<rparr>"

definition test_services :: "prost_service list" where
  "test_services = [test_service ''test.pkg'' ''Foo'' ''Get'' ''super::google::protobuf::Empty'', test_service ''other.pkg'' ''Zoo'' ''Get'' ''Request'',
     test_service ''test.pkg'' ''Bar'' ''Get'' ''super::google::protobuf::Empty'']"

lemma test_services_ok: "list_all service_ok test_services" "list_all (\<lambda>s. \<not> prost_has_stream_method s) test_services"
  by code_simp+

theorem prost_generates_witness:
  "(\<exists>buf. generate_all plain_ident plain_show AsyncNone test_services [] = Some buf)
   \<and> generate_all plain_ident plain_show AsyncNone [(hd test_services)\<lparr>ps_methods := [(hd (ps_methods (hd test_services)))\<lparr>pm_server_streaming := True\<rparr>]\<rparr>] [] = None"
proof -
  let ?s = "(hd test_services)\<lparr>ps_methods := [(hd (ps_methods (hd test_services)))\<lparr>pm_server_streaming := True\<rparr>]\<rparr>"
  have "list_all service_ok [?s]" "\<not> list_all (\<lambda>s. \<not> prost_has_stream_method s) [?s]" "\<not> prost_async_on AsyncNone ClientSide" by code_simp+
  then show ?thesis
    using prost_generates [OF plain_ident_maker, of "[?s]" plain_show AsyncNone "[]"]
      prost_generates [OF plain_ident_maker test_services_ok(1), of plain_show AsyncNone "[]"] test_services_ok(2)
    by simp
qed

theorem prost_well_formed_witness:
  "\<exists>buf ts. generate_all plain_ident plain_show AsyncNone test_services [] = Some buf \<and> plain_lex buf = Some ts \<and> scan ts [] = Some []"
proof -
  obtain buf where buf: "generate_all plain_ident plain_show AsyncNone test_services [] = Some buf"
    using generate_all_iff [OF plain_ident_maker test_services_ok(1)] test_services_ok(2) by metis
  from prost_well_formed [OF plain_token_text plain_ident_maker test_services_ok(1) buf] buf show ?thesis by blast
qed

subsection \<open>What the items contain\<close>

lemma occurs_fmt: "fmt xs = Some t \<Longrightarrow> Some u \<in> set xs \<Longrightarrow> occurs x u \<Longrightarrow> occurs x t"
  by (induction xs arbitrary: t) (auto simp: fmt.simps bind_eq_Some_conv intro: occurs_append)

lemma occurs_delimited: "delimited l r (Some u) = Some t \<Longrightarrow> occurs x u \<Longrightarrow> occurs x t"
  unfolding delimited_def by (rule occurs_fmt) auto

text \<open>\<open>contains ts x\<close>: unless \<open>ts\<close> panics, \<open>x\<close> is in it.\<close>

definition contains :: "tokens \<Rightarrow> token list \<Rightarrow> bool" where
  "contains ts x \<longleftrightarrow> (\<forall>t. ts = Some t \<longrightarrow> occurs x t)"

lemma contains_fmt: "y \<in> set xs \<Longrightarrow> contains y x \<Longrightarrow> contains (fmt xs) x"
proof -
  assume y: "y \<in> set xs" "contains y x"
  show ?thesis unfolding contains_def
  proof (intro allI impI)
    fix t assume t: "fmt xs = Some t"
    then have "made y" using made_fmt [of xs] y(1) by (simp add: made_def)
    then obtain u where "y = Some u" by (auto simp: made_def)
    with y t occurs_fmt show "occurs x t" by (auto simp: contains_def)
  qed
qed

lemma contains_delimited: "contains ts x \<Longrightarrow> contains (delimited l r ts) x"
  unfolding delimited_def by (rule contains_fmt [of ts]) auto

lemma contains_fmt_ex: "\<exists>y \<in> set xs. contains y x \<Longrightarrow> contains (fmt xs) x"
  using contains_fmt by blast

lemmas contains_rules = contains_fmt_ex contains_delimited

definition insert_head :: "string \<Rightarrow> string \<Rightarrow> token list" where
  "insert_head table key = map Tok [table, ''.'', ''insert'', ''(''] @ [Str key]"

lemma insert_token_eq:
  "CHR '' '' \<notin> set table \<Longrightarrow> insert_token table key v =
     map_option (\<lambda>u. insert_head table key @ map Tok [''.'', ''to_string'', ''('', '')'', '',''] @ u @ map Tok ['')'', '';'']) v"
  by (cases v) (simp_all add: insert_token_def insert_head_def delimited_def fmt.simps qt_def split_on_no_sep)

lemma contains_insert:
  assumes "CHR '' '' \<notin> set table"
  shows "contains (insert_token table key v) (insert_head table key)"
  unfolding contains_def insert_token_eq [OF assms] by (auto intro: occurs_append(1))

lemma creating_contains:
  assumes "m \<in> set (ps_methods s)"
  shows "\<not> prost_async_on mode ServerSide \<Longrightarrow> contains (creating_service_method mk mode s) (insert_head ''methods'' (method_path s m))"
    and "prost_async_on mode ServerSide \<Longrightarrow> contains (creating_service_method mk mode s) (insert_head ''ret'' (service_full_name s))"
    and "prost_async_on mode ServerSide \<Longrightarrow> contains (creating_service_method mk mode s)
      (insert_head (if from_method m = Unary then ''methods'' else ''streams'') (pm_proto_name m))"
proof -
  assume sync: "\<not> prost_async_on mode ServerSide"
  have "contains (fmt (map (\<lambda>m. insert_token ''methods'' (method_path s m) (f m)) (ps_methods s))) (insert_head ''methods'' (method_path s m))" for f
    using assms by (intro contains_fmt [OF _ contains_insert [of _ _ "f m"]]) auto
  with sync show "contains (creating_service_method mk mode s) (insert_head ''methods'' (method_path s m))"
    by (simp add: creating_service_method_def sync_creating_service_method_token_def Let_def contains_rules)
next
  assume asyn: "prost_async_on mode ServerSide"
  then show "contains (creating_service_method mk mode s) (insert_head ''ret'' (service_full_name s))"
    by (simp add: creating_service_method_def async_creating_service_method_token_def Let_def contains_rules contains_insert)
  have "contains (async_method_insert mk s m) (insert_head (if from_method m = Unary then ''methods'' else ''streams'') (pm_proto_name m))"
    by (simp add: async_method_insert_def Let_def contains_insert)
  then have "contains (fmt (map (async_method_insert mk s) (ps_methods s)))
      (insert_head (if from_method m = Unary then ''methods'' else ''streams'') (pm_proto_name m))"
    using assms by (intro contains_fmt [of "async_method_insert mk s m"]) auto
  with asyn show "contains (creating_service_method mk mode s)
      (insert_head (if from_method m = Unary then ''methods'' else ''streams'') (pm_proto_name m))"
    by (simp add: creating_service_method_def async_creating_service_method_token_def Let_def contains_rules)
qed

definition wire_tokens :: "prost_service \<Rightarrow> prost_method \<Rightarrow> token list" where
  "wire_tokens s m = [Str (service_full_name s), Tok '','', Str (pm_proto_name m)]"

lemma wire_contained:
  "contains (fmt (qt l # str_lit (service_full_name s) # qt '','' # str_lit (pm_proto_name m) # xs)) (wire_tokens s m)"
  "contains (fmt [qt l, fmt [str_lit (service_full_name s), qt '','', str_lit (pm_proto_name m)]]) (wire_tokens s m)"
  "contains (fmt [qt l, fmt [str_lit (service_full_name s), qt '','', str_lit (pm_proto_name m)], qt r]) (wire_tokens s m)"
  by (auto simp: contains_def wire_tokens_def fmt.simps qt_def occurs_def)

lemma client_contains:
  assumes "m \<in> set (ps_methods s)"
  shows "contains (generate_client mk mode s) (wire_tokens s m)"
proof -
  have sync: "contains (sync_client_method_token mk s m) (wire_tokens s m)"
    by (cases "from_method m")
      (simp_all add: sync_client_method_token_def Let_def contains_rules wire_contained contains_def [of None])
  have "contains (async_client_method_token mk s m) (wire_tokens s m)"
    by (cases "from_method m")
      (simp_all add: async_client_method_token_def async_client_parts_def Let_def contains_rules wire_contained)
  with sync have "contains (if prost_async_on mode ClientSide then async_client_method_token mk s m else sync_client_method_token mk s m) (wire_tokens s m)"
    by simp
  then have "contains (fmt (map (if prost_async_on mode ClientSide then async_client_method_token mk s else sync_client_method_token mk s) (ps_methods s)))
      (wire_tokens s m)"
    using assms by (intro contains_fmt_ex) (auto split: if_splits)
  then have "contains (client_methods_token mk mode s) (wire_tokens s m)"
    by (simp add: client_methods_token_def contains_rules)
  then show ?thesis
    by (simp add: generate_client_def contains_rules)
qed

lemma occurs_concat: "y \<in> set ys \<Longrightarrow> occurs (f y) (concat (map f ys))"
  by (induction ys) (auto intro: occurs_append)

lemma item_pushed:
  assumes "generate mk show_ts mode s buf = Some buf'" and "x \<in> set (items mk mode s)"
  obtains t where "x = Some t" "occurs (show_ts t) buf'"
proof -
  from assms have "made x" by (auto simp: generate_eq split: if_splits)
  then obtain t where t: "x = Some t" by (auto simp: made_def)
  let ?text = "concat (map (\<lambda>x. show_ts (the x)) (items mk mode s))"
  have "buf' = (buf @ ''pub mod '' @ service_module_name s @ '' { #![allow(unused_imports)] '' @ show_ts (async_trait_token mode) @ '' '')
      @ ?text @ ''} pub use self :: '' @ service_module_name s @ '' :: * ;''"
    using assms(1) by (simp add: generate_eq split: if_splits)
  then have "occurs ?text buf'" unfolding occurs_def by blast
  moreover have "occurs (show_ts (the x)) ?text" by (rule occurs_concat [where f = "\<lambda>x. show_ts (the x)", OF assms(2)])
  ultimately have "occurs (show_ts t) buf'" using t occurs_trans by fastforce
  with t show thesis by (rule that)
qed

end
