(* ===== verification/Build.thy ===== *)
theory Build
  imports ProstGen UnixNet
begin

text \<open>
  The build front ends: \<open>src/ttrpc-codegen/src/lib.rs\<close>, which parses schemas and calls the compiler, and
  \<open>src/ttrpc-codegen-prost/src/codegen.rs\<close>, which calls \<open>prost-build\<close> and then puts a header on the generated files.
  A directory is a map from names to contents. The parsers, the generators of messages, the environment and
  failing system calls are arguments; a panic is \<open>None\<close>. The text of an error of another crate is a string.
\<close>

type_synonym dir = "string \<rightharpoonup> string"

text \<open>The output directory when none is set: \<open>OUT_DIR\<close>, or the current directory.\<close>

definition default_out_dir :: "string option \<Rightarrow> string option \<Rightarrow> string option \<Rightarrow> string" where
  "default_out_dir out_dir env_out cwd =
     (case out_dir of
        Some d \<Rightarrow> d
      | None \<Rightarrow> (case env_out of Some d \<Rightarrow> d | None \<Rightarrow> (case cwd of Some d \<Rightarrow> d | None \<Rightarrow> [])))"

subsection \<open>The pure-Rust front end (ttrpc-codegen)\<close>

record 'pb codegen =
  cg_out_dir :: "string option"
  cg_includes :: "string list"
  cg_inputs :: "string list"
  cg_rust_protobuf :: bool
  cg_rust_protobuf_codegen :: 'pb
  cg_customize :: customize

definition codegen_new :: "'pb \<Rightarrow> 'pb codegen" where
  "codegen_new pb = \<lparr>cg_out_dir = None, cg_includes = [], cg_inputs = [], cg_rust_protobuf = False,
     cg_rust_protobuf_codegen = pb,
     cg_customize = \<lparr>async_all = False, async_client = False, async_server = False, gen_mod = False\<rparr>\<rparr>"

definition cg_set_out_dir :: "string \<Rightarrow> 'pb codegen \<Rightarrow> 'pb codegen" where
  "cg_set_out_dir d g = g\<lparr>cg_out_dir := Some d\<rparr>"

definition cg_include :: "string \<Rightarrow> 'pb codegen \<Rightarrow> 'pb codegen" where
  "cg_include p g = g\<lparr>cg_includes := cg_includes g @ [p]\<rparr>"

definition cg_add_includes :: "string list \<Rightarrow> 'pb codegen \<Rightarrow> 'pb codegen" where
  "cg_add_includes ps g = fold cg_include ps g"

definition cg_input :: "string \<Rightarrow> 'pb codegen \<Rightarrow> 'pb codegen" where
  "cg_input p g = g\<lparr>cg_inputs := cg_inputs g @ [p]\<rparr>"

definition cg_add_inputs :: "string list \<Rightarrow> 'pb codegen \<Rightarrow> 'pb codegen" where
  "cg_add_inputs ps g = fold cg_input ps g"

definition cg_set_rust_protobuf :: "'pb codegen \<Rightarrow> 'pb codegen" where
  "cg_set_rust_protobuf g = g\<lparr>cg_rust_protobuf := True\<rparr>"

definition cg_rust_protobuf_customize :: "('pb \<Rightarrow> 'pb) \<Rightarrow> 'pb codegen \<Rightarrow> 'pb codegen" where
  "cg_rust_protobuf_customize f g = g\<lparr>cg_rust_protobuf_codegen := f (cg_rust_protobuf_codegen g)\<rparr>"

definition cg_set_customize :: "customize \<Rightarrow> 'pb codegen \<Rightarrow> 'pb codegen" where
  "cg_set_customize c g = g\<lparr>cg_customize := c\<rparr>"

text \<open>What parsing returns: the paths to generate, and the descriptors of all files.\<close>

definition parse_and_typecheck ::
  "(string list \<Rightarrow> string list \<Rightarrow> string + string list \<times> file_desc list) \<Rightarrow> string list \<Rightarrow> string list
    \<Rightarrow> io_error + string list \<times> file_desc list" where
  "parse_and_typecheck parse includes inputs = map_err OtherError (parse includes inputs)"

text \<open>
  \<open>Codegen::run\<close>. The directories are a map from paths; \<open>gen_messages\<close> is the generator of messages, whose
  failure panics; the last arguments of the compiler are its version and the errors in opening files.
\<close>

definition codegen_run ::
  "(string list \<Rightarrow> string list \<Rightarrow> string + string list \<times> file_desc list)
    \<Rightarrow> ('pb \<Rightarrow> string \<Rightarrow> string list \<Rightarrow> string list \<Rightarrow> (string \<Rightarrow> dir) \<Rightarrow> string + (string \<Rightarrow> dir))
    \<Rightarrow> string option \<Rightarrow> string option \<Rightarrow> string \<Rightarrow> (string \<Rightarrow> string) \<Rightarrow> io_error option \<Rightarrow> (string \<Rightarrow> io_error option)
    \<Rightarrow> 'pb codegen \<Rightarrow> (string \<Rightarrow> dir) \<Rightarrow> ((io_error + unit) \<times> (string \<Rightarrow> dir)) option" where
  "codegen_run parse gen_messages env_out cwd version to_rs read_err open_err g fs =
     (case parse_and_typecheck parse (cg_includes g) (cg_inputs g) of
        Inl e \<Rightarrow> Some (Err e, fs)
      | Inr (relative_paths, fds) \<Rightarrow>
          (let dst = default_out_dir (cg_out_dir g) env_out cwd
           in Option.bind
                (if cg_rust_protobuf g then
                   (case gen_messages (cg_rust_protobuf_codegen g) dst (cg_inputs g) (cg_includes g) fs of
                      Inl e \<Rightarrow> None | Inr fs1 \<Rightarrow> Some fs1)
                 else Some fs)
                (\<lambda>fs1. map_option (\<lambda>(r, d). (r, fs1(dst := d)))
                   (gen_and_write version to_rs fds relative_paths (cg_customize g) read_err open_err (fs1 dst)))))"

text \<open>A run touches only its output directory, and nothing at all when the schemas do not parse.\<close>

lemma codegen_run_frame:
  assumes "codegen_run parse gen_messages env_out cwd version to_rs read_err open_err g fs = Some (r, fs')"
    and "\<not> cg_rust_protobuf g"
  shows "\<forall>d. d \<noteq> default_out_dir (cg_out_dir g) env_out cwd \<longrightarrow> fs' d = fs d"
    and "parse (cg_includes g) (cg_inputs g) = Err e \<Longrightarrow> r = Err (OtherError e) \<and> fs' = fs"
  using assms by (auto simp: codegen_run_def parse_and_typecheck_def Let_def split: sum.splits)

subsection \<open>The Prost front end (ttrpc-codegen-prost)\<close>

definition FILE_DESCRIPTOR_SET :: string where
  "FILE_DESCRIPTOR_SET = ''fd_set.bin''"

datatype backend = Prost

record prost_codegen =
  pb_out_dir :: "string option"
  pb_includes :: "string list"
  pb_inputs :: "string list"
  pb_backend :: "backend option"
  pb_customize :: prost_customize

definition prost_codegen_new :: prost_codegen where
  "prost_codegen_new = \<lparr>pb_out_dir = None, pb_includes = [], pb_inputs = [], pb_backend = None,
     pb_customize = \<lparr>pz_gen_mod = False, pz_async_all = False, pz_async_server = False, pz_async_client = False, pz_serde = False\<rparr>\<rparr>"

definition pb_set_out_dir :: "string \<Rightarrow> prost_codegen \<Rightarrow> prost_codegen" where
  "pb_set_out_dir d g = g\<lparr>pb_out_dir := Some d\<rparr>"

definition pb_include :: "string \<Rightarrow> prost_codegen \<Rightarrow> prost_codegen" where
  "pb_include p g = g\<lparr>pb_includes := pb_includes g @ [p]\<rparr>"

definition pb_add_includes :: "string list \<Rightarrow> prost_codegen \<Rightarrow> prost_codegen" where
  "pb_add_includes ps g = fold pb_include ps g"

definition pb_input :: "string \<Rightarrow> prost_codegen \<Rightarrow> prost_codegen" where
  "pb_input p g = g\<lparr>pb_inputs := pb_inputs g @ [p]\<rparr>"

definition pb_add_inputs :: "string list \<Rightarrow> prost_codegen \<Rightarrow> prost_codegen" where
  "pb_add_inputs ps g = fold pb_input ps g"

definition pb_prost :: "prost_codegen \<Rightarrow> prost_codegen" where
  "pb_prost g = g\<lparr>pb_backend := Some Prost\<rparr>"

definition pb_set_customize :: "prost_customize \<Rightarrow> prost_codegen \<Rightarrow> prost_codegen" where
  "pb_set_customize c g = g\<lparr>pb_customize := c\<rparr>"

text \<open>\<open>CodegenImpl\<close>, and what it configures of \<open>prost-build\<close>.\<close>

record codegen_impl =
  ci_out_dir :: string
  ci_protos :: "string list"
  ci_includes :: "string list"
  ci_customize :: prost_customize

record prost_config =
  cf_out_dir :: string
  cf_service_mode :: async_mode
  cf_protoc_arg :: string
  cf_compile_well_known_types :: bool
  cf_file_descriptor_set_path :: string
  cf_include_file :: string
  cf_message_attribute :: "(string \<times> string) option"

definition prost_config_of :: "codegen_impl \<Rightarrow> prost_config" where
  "prost_config_of ci =
     \<lparr>cf_out_dir = ci_out_dir ci, cf_service_mode = customize_async_mode (ci_customize ci),
      cf_protoc_arg = ''--experimental_allow_proto3_optional'', cf_compile_well_known_types = True,
      cf_file_descriptor_set_path = FILE_DESCRIPTOR_SET,
      cf_include_file = (if pz_gen_mod (ci_customize ci) then ''mod.rs'' else ''_include.rs''),
      cf_message_attribute =
        (if pz_serde (ci_customize ci) then Some (''.'', ''#[derive(::serde::Serialize, ::serde::Deserialize)]'') else None)\<rparr>"

type_synonym prost_build = "prost_config \<Rightarrow> string list \<Rightarrow> string list \<Rightarrow> dir \<Rightarrow> (string + unit) \<times> dir"

definition compile_protos :: "prost_build \<Rightarrow> codegen_impl \<Rightarrow> dir \<Rightarrow> (io_error + unit) \<times> dir" where
  "compile_protos build ci d =
     (case build (prost_config_of ci) (ci_protos ci) (ci_includes ci) d of
        (r, d') \<Rightarrow> (map_err (\<lambda>e. OtherError (''compile protos by prost: '' @ e)) r, d'))"

text \<open>
  Which system calls on a file fail, with the error: opening it, reading it, creating it, writing it (after some bytes
  have been written) and removing it. \<open>texts\<close> prints a path and an error.
\<close>

record file_faults =
  open_fails :: "string \<Rightarrow> io_error option"
  read_fails :: "string \<Rightarrow> io_error option"
  create_fails :: "string \<Rightarrow> io_error option"
  write_fails :: "string \<Rightarrow> (io_error \<times> nat) option"
  remove_fails :: "string \<Rightarrow> io_error option"
  texts :: "string \<Rightarrow> io_error \<Rightarrow> string"

definition open_file :: "file_faults \<Rightarrow> string \<Rightarrow> dir \<Rightarrow> io_error + string" where
  "open_file io n d =
     (case open_fails io n of
        Some e \<Rightarrow> Err e
      | None \<Rightarrow> (case d n of None \<Rightarrow> Err (OsError 2) | Some t \<Rightarrow> Ok t))"

definition prost_header :: "string \<Rightarrow> string" where
  "prost_header version =
     ''// This file is generated by ttrpc-codegen-prost '' @ version @ ''. Do not edit'' @ [CHR 0x0A]
     @ ''// @generated'' @ [CHR 0x0A, CHR 0x0A]"

text \<open>One file of the loop of \<open>write_header\<close>: a file that cannot be opened is skipped.\<close>

definition add_header :: "file_faults \<Rightarrow> string \<Rightarrow> string \<Rightarrow> dir \<Rightarrow> (io_error + unit) \<times> dir" where
  "add_header io version rs d =
     (case open_file io rs d of
        Inl _ \<Rightarrow> (Ok (), d)
      | Inr old \<Rightarrow>
          (let buf = prost_header version @ old
           in case read_fails io rs of
                Some e \<Rightarrow> (Err (OtherError (''read from rust file '' @ texts io rs e)), d)
              | None \<Rightarrow>
                  (case create_fails io rs of
                     Some e \<Rightarrow> (Err (OtherError (''open rust file '' @ texts io rs e)), d)
                   | None \<Rightarrow>
                       (case write_fails io rs of
                          Some (e, k) \<Rightarrow> (Err (OtherError (''write to rust file '' @ texts io rs e)), d(rs \<mapsto> take k buf))
                        | None \<Rightarrow> (Ok (), d(rs \<mapsto> buf))))))"

fun header_loop :: "file_faults \<Rightarrow> string \<Rightarrow> string set \<Rightarrow> string list \<Rightarrow> dir \<Rightarrow> (io_error + unit) \<times> dir" where
  "header_loop io version seen [] d = (Ok (), d)"
| "header_loop io version seen (p # ps) d =
     (let rs = p @ ''.rs''
      in if rs \<in> seen then header_loop io version seen ps d
         else case add_header io version rs d of
                (Inl e, d') \<Rightarrow> (Err e, d')
              | (Inr _, d') \<Rightarrow> header_loop io version (insert rs seen) ps d')"

text \<open>\<open>decode\<close> reads the packages of the files in a descriptor set.\<close>

definition write_header ::
  "file_faults \<Rightarrow> (string \<Rightarrow> string + string list) \<Rightarrow> string \<Rightarrow> dir \<Rightarrow> (io_error + unit) \<times> dir" where
  "write_header io decode version d =
     (case open_file io FILE_DESCRIPTOR_SET d of
        Inl e \<Rightarrow> (Err e, d)
      | Inr buffer \<Rightarrow>
          (case read_fails io FILE_DESCRIPTOR_SET of
             Some e \<Rightarrow> (Err e, d)
           | None \<Rightarrow>
               (case decode buffer of
                  Inl e \<Rightarrow> (Err (OtherError (''decode fd_set: '' @ e)), d)
                | Inr packages \<Rightarrow> header_loop io version {} packages d)))"

definition clean_up :: "file_faults \<Rightarrow> dir \<Rightarrow> (io_error + unit) \<times> dir" where
  "clean_up io d =
     (case remove_fails io FILE_DESCRIPTOR_SET of
        Some e \<Rightarrow> (Err e, d)
      | None \<Rightarrow> if d FILE_DESCRIPTOR_SET = None then (Err (OsError 2), d) else (Ok (), d(FILE_DESCRIPTOR_SET := None)))"

definition prost_generate ::
  "prost_build \<Rightarrow> file_faults \<Rightarrow> (string \<Rightarrow> string + string list) \<Rightarrow> string \<Rightarrow> codegen_impl \<Rightarrow> dir \<Rightarrow> (io_error + unit) \<times> dir" where
  "prost_generate build io decode version ci d =
     (case compile_protos build ci d of
        (Inl e, d1) \<Rightarrow> (Err e, d1)
      | (Inr _, d1) \<Rightarrow>
          (case write_header io decode version d1 of
             (Inl e, d2) \<Rightarrow> (Err e, d2)
           | (Inr _, d2) \<Rightarrow> clean_up io d2))"

definition prost_run ::
  "prost_build \<Rightarrow> file_faults \<Rightarrow> (string \<Rightarrow> string + string list) \<Rightarrow> string \<Rightarrow> string option \<Rightarrow> string option
    \<Rightarrow> prost_codegen \<Rightarrow> (string \<Rightarrow> dir) \<Rightarrow> (io_error + unit) \<times> (string \<Rightarrow> dir)" where
  "prost_run build io decode version env_out cwd g fs =
     (case pb_backend g of
        None \<Rightarrow> (Err (OtherError ''no protobuf backend selected: call .prost()''), fs)
      | Some _ \<Rightarrow>
          if pb_inputs g = [] then (Err (OtherError ''no .proto inputs configured''), fs)
          else if pb_includes g = [] then (Err (OtherError ''no include directories configured''), fs)
          else let out = default_out_dir (pb_out_dir g) env_out cwd;
                   ci = \<lparr>ci_out_dir = out, ci_protos = pb_inputs g, ci_includes = pb_includes g, ci_customize = pb_customize g\<rparr>
               in case prost_generate build io decode version ci (fs out) of (r, d) \<Rightarrow> (r, fs(out := d)))"

subsection \<open>What a run leaves behind\<close>

definition rs_files :: "string list \<Rightarrow> string set" where
  "rs_files packages = (\<lambda>p. p @ ''.rs'') ` set packages"

definition headed :: "file_faults \<Rightarrow> string \<Rightarrow> string set \<Rightarrow> dir \<Rightarrow> dir" where
  "headed io version names d =
     (\<lambda>n. if n \<in> names \<and> open_fails io n = None then map_option (append (prost_header version)) (d n) else d n)"

lemma add_header_ok:
  assumes "add_header io version rs d = (Ok (), d')"
  shows "d' = headed io version {rs} d" and "open_fails io rs = None \<and> d rs \<noteq> None \<longrightarrow>
    read_fails io rs = None \<and> create_fails io rs = None \<and> write_fails io rs = None"
  using assms by (auto simp: add_header_def open_file_def headed_def Let_def intro!: ext split: option.splits sum.splits)

lemma header_loop_ok:
  assumes "header_loop io version seen ps d = (Ok (), d')"
  shows "d' = headed io version (rs_files ps - seen) d"
  using assms
proof (induction ps arbitrary: seen d)
  case (Cons p ps)
  let ?rs = "p @ ''.rs''"
  show ?case
  proof (cases "?rs \<in> seen")
    case True
    then have "rs_files (p # ps) - seen = rs_files ps - seen" by (auto simp: rs_files_def)
    with Cons True show ?thesis by simp
  next
    case False
    then obtain d1 where d1: "add_header io version ?rs d = (Ok (), d1)" "header_loop io version (insert ?rs seen) ps d1 = (Ok (), d')"
      using Cons.prems by (auto simp: Let_def split: prod.splits sum.splits)
    have "rs_files (p # ps) - seen = insert ?rs (rs_files ps - insert ?rs seen)" using False by (auto simp: rs_files_def)
    with Cons.IH [OF d1(2)] add_header_ok(1) [OF d1(1)] show ?thesis by (auto simp: headed_def fun_eq_iff)
  qed
qed (simp add: headed_def rs_files_def)

text \<open>Whether a run gets through depends only on the files there are and on which calls fail, not on their contents.\<close>

lemma add_header_runs:
  assumes "add_header io version rs d = (Ok (), d')" and "dom e = dom d"
  shows "\<exists>e'. add_header io version rs e = (Ok (), e') \<and> dom e' = dom d'"
proof (cases "open_fails io rs = None \<and> d rs \<noteq> None")
  case True
  with add_header_ok(2) [OF assms(1)] have "read_fails io rs = None" "create_fails io rs = None" "write_fails io rs = None" by auto
  moreover from True assms(2) obtain t t' where "d rs = Some t" "e rs = Some t'" by (metis domD domI not_None_eq)
  ultimately show ?thesis using True assms by (auto simp: add_header_def open_file_def Let_def)
next
  case False
  then have "open_file io rs d \<in> range Inl" "open_file io rs e \<in> range Inl"
    using assms(2) by (auto simp: open_file_def split: option.splits)
  with assms show ?thesis by (auto simp: add_header_def)
qed

lemma header_loop_runs:
  assumes "header_loop io version seen ps d = (Ok (), d')" and "dom e = dom d"
  shows "\<exists>e'. header_loop io version seen ps e = (Ok (), e')"
  using assms
proof (induction ps arbitrary: seen d e)
  case (Cons p ps)
  show ?case
  proof (cases "p @ ''.rs'' \<in> seen")
    case False
    then obtain d1 where d1: "add_header io version (p @ ''.rs'') d = (Ok (), d1)"
        "header_loop io version (insert (p @ ''.rs'') seen) ps d1 = (Ok (), d')"
      using Cons.prems by (auto simp: Let_def split: prod.splits sum.splits)
    from add_header_runs [OF d1(1) Cons.prems(2)] obtain e1 where
      e1: "add_header io version (p @ ''.rs'') e = (Ok (), e1)" "dom e1 = dom d1" by blast
    with Cons.IH [OF d1(2)] False show ?thesis by (simp add: Let_def)
  qed (use Cons in simp)
qed simp

lemma fd_set_no_rs: "FILE_DESCRIPTOR_SET \<notin> rs_files ps"
proof
  assume "FILE_DESCRIPTOR_SET \<in> rs_files ps"
  then obtain p where "FILE_DESCRIPTOR_SET = p @ ''.rs''" by (auto simp: rs_files_def)
  then have "last FILE_DESCRIPTOR_SET = last (p @ ''.rs'')" by (rule arg_cong)
  then show False by (simp add: FILE_DESCRIPTOR_SET_def)
qed

lemma prost_generate_ok:
  assumes "prost_generate build io decode version ci d = (Ok (), d')"
  obtains d1 buf packages where "build (prost_config_of ci) (ci_protos ci) (ci_includes ci) d = (Ok (), d1)"
    "d1 FILE_DESCRIPTOR_SET = Some buf" "decode buf = Ok packages"
    "\<exists>d2. header_loop io version {} packages d1 = (Ok (), d2)"
    "open_fails io FILE_DESCRIPTOR_SET = None" "read_fails io FILE_DESCRIPTOR_SET = None" "remove_fails io FILE_DESCRIPTOR_SET = None"
    "d' = (headed io version (rs_files packages) d1)(FILE_DESCRIPTOR_SET := None)"
proof -
  obtain d1 d2 where d1: "compile_protos build ci d = (Ok (), d1)" and d2: "write_header io decode version d1 = (Ok (), d2)"
    and d': "clean_up io d2 = (Ok (), d')"
    using assms by (auto simp: prost_generate_def split: prod.splits sum.splits)
  from d1 have b: "build (prost_config_of ci) (ci_protos ci) (ci_includes ci) d = (Ok (), d1)"
    by (cases "fst (build (prost_config_of ci) (ci_protos ci) (ci_includes ci) d)") (auto simp: compile_protos_def split: prod.splits)
  from d2 obtain buf packages where h: "d1 FILE_DESCRIPTOR_SET = Some buf" "decode buf = Ok packages"
      "header_loop io version {} packages d1 = (Ok (), d2)"
      "open_fails io FILE_DESCRIPTOR_SET = None" "read_fails io FILE_DESCRIPTOR_SET = None"
    by (auto simp: write_header_def open_file_def split: option.splits sum.splits)
  from d' have r: "remove_fails io FILE_DESCRIPTOR_SET = None" "d' = d2(FILE_DESCRIPTOR_SET := None)"
    by (auto simp: clean_up_def split: option.splits if_splits)
  show thesis by (rule that [OF b h(1,2) _ h(4,5) r(1)]) (use h(3) header_loop_ok [OF h(3)] r(2) in auto)
qed

text \<open>
  C33: A run of the Prost front end leaves exactly the generated files, each with one header. Suppose a run
  succeeds. Then the descriptor set that \<open>prost-build\<close> wrote was decoded, and the directory is what \<open>prost-build\<close>
  left, without the descriptor set, where the file of every package of that set, also of one that several schemas share, has
  the header in front once (unless there is no such file or it could not be opened); and no other directory changed. If, as documented, \<open>prost-build\<close> overwrites the files it generates,
  running again succeeds and changes no generated file; but the file of a package that is not generated any
  more gets one more header with every run.
\<close>

theorem prost_run_headers:
  assumes "prost_run build io decode version env_out cwd g fs = (Ok (), fs')"
    and "out = default_out_dir (pb_out_dir g) env_out cwd"
    and "cfg = prost_config_of \<lparr>ci_out_dir = out, ci_protos = pb_inputs g, ci_includes = pb_includes g, ci_customize = pb_customize g\<rparr>"
    and "\<forall>d. build cfg (pb_inputs g) (pb_includes g) d = (Ok (), d ++ new)" and "new FILE_DESCRIPTOR_SET = Some buf"
  shows "\<exists>packages fs''. decode buf = Ok packages
    \<and> prost_run build io decode version env_out cwd g fs' = (Ok (), fs'')
    \<and> fs' out = (headed io version (rs_files packages) (fs out ++ new))(FILE_DESCRIPTOR_SET := None)
    \<and> (\<forall>p \<in> set packages. \<forall>content. (fs out ++ new) (p @ ''.rs'') = Some content \<and> open_fails io (p @ ''.rs'') = None \<longrightarrow>
         fs' out (p @ ''.rs'') = Some (prost_header version @ content))
    \<and> (\<forall>o'. o' \<noteq> out \<longrightarrow> fs' o' = fs o') \<and> (\<forall>n. new n \<noteq> None \<longrightarrow> fs'' out n = fs' out n)
    \<and> (\<forall>n \<in> rs_files packages. new n = None \<and> open_fails io n = None \<longrightarrow>
         fs'' out n = map_option (append (prost_header version)) (fs' out n))"
proof -
  let ?ci = "\<lparr>ci_out_dir = out, ci_protos = pb_inputs g, ci_includes = pb_includes g, ci_customize = pb_customize g\<rparr>"
  have run: "prost_run build io decode version env_out cwd g f =
      (case prost_generate build io decode version ?ci (f out) of (r, d) \<Rightarrow> (r, f(out := d)))" for f
    using assms(1,2) by (auto simp: prost_run_def Let_def split: option.splits if_splits)
  obtain d' where d': "prost_generate build io decode version ?ci (fs out) = (Ok (), d')" "fs' = fs(out := d')"
    using assms(1) by (auto simp: run split: prod.splits)
  from d'(1) obtain d1 buf' packages where first:
    "build cfg (pb_inputs g) (pb_includes g) (fs out) = (Ok (), d1)" "d1 FILE_DESCRIPTOR_SET = Some buf'" "decode buf' = Ok packages"
    "\<exists>d2. header_loop io version {} packages d1 = (Ok (), d2)"
    "open_fails io FILE_DESCRIPTOR_SET = None" "read_fails io FILE_DESCRIPTOR_SET = None" "remove_fails io FILE_DESCRIPTOR_SET = None"
    "d' = (headed io version (rs_files packages) d1)(FILE_DESCRIPTOR_SET := None)"
    by (rule prost_generate_ok) (simp add: assms(3))
  have d1: "d1 = fs out ++ new" using first(1) assms(4) by simp
  have buf: "buf' = buf" using first(2) assms(5) by (simp add: d1)
  let ?e = "d' ++ new"
  have dom: "dom (headed io version ns d) = dom d" for ns d by (auto simp: headed_def split: if_splits)
  have "dom ?e = dom d1" using assms(5) by (auto simp: first(8) d1 dom)
  then obtain e' where e': "header_loop io version {} packages ?e = (Ok (), e')" using header_loop_runs first(4) by blast
  have e'_eq: "e' = headed io version (rs_files packages) ?e" using header_loop_ok [OF e'] by simp
  have fd: "?e FILE_DESCRIPTOR_SET = Some buf'" "e' FILE_DESCRIPTOR_SET \<noteq> None"
    using assms(5) first(2) fd_set_no_rs [of packages] by (auto simp: d1 e'_eq headed_def)
  have "build cfg (pb_inputs g) (pb_includes g) d' = (Ok (), ?e)" using assms(4) by simp
  then have "prost_generate build io decode version ?ci d' = (Ok (), e'(FILE_DESCRIPTOR_SET := None))"
    using e' fd first(3,5-7) by (simp add: prost_generate_def compile_protos_def write_header_def open_file_def clean_up_def assms(3))
  then have second: "prost_run build io decode version env_out cwd g fs' = (Ok (), fs'(out := e'(FILE_DESCRIPTOR_SET := None)))"
    by (simp add: run d'(2))
  have fresh: "(e'(FILE_DESCRIPTOR_SET := None)) n = d' n" if "new n \<noteq> None" for n
    using that by (auto simp: first(8) e'_eq d1 headed_def)
  have stale: "(e'(FILE_DESCRIPTOR_SET := None)) n = map_option (append (prost_header version)) (d' n)"
    if "n \<in> rs_files packages" "new n = None" "open_fails io n = None" for n
    using that fd_set_no_rs [of packages] by (auto simp: e'_eq headed_def map_add_def)
  have own: "d' (p @ ''.rs'') = Some (prost_header version @ content)"
    if "p \<in> set packages" "(fs out ++ new) (p @ ''.rs'') = Some content" "open_fails io (p @ ''.rs'') = None" for p content
  proof -
    have "p @ ''.rs'' \<in> rs_files packages" using that(1) by (simp add: rs_files_def)
    with that(2,3) fd_set_no_rs [of packages] show ?thesis by (auto simp: first(8) d1 headed_def)
  qed
  show ?thesis
    by (intro exI [of _ packages] exI [of _ "fs'(out := e'(FILE_DESCRIPTOR_SET := None))"])
      (use second first(3,8) buf d1 d'(2) fresh stale own in auto)
qed

text \<open>Two schemas of one package; the file of another package is left over from an earlier run.\<close>

definition no_faults :: file_faults where
  "no_faults = \<lparr>open_fails = (\<lambda>_. None), read_fails = (\<lambda>_. None), create_fails = (\<lambda>_. None), write_fails = (\<lambda>_. None),
     remove_fails = (\<lambda>_. None), texts = (\<lambda>_ _. [])\<rparr>"

definition demo_build :: prost_build where
  "demo_build cfg protos incs d = (Ok (), d ++ [''grpc.rs'' \<mapsto> ''pub struct A;'', FILE_DESCRIPTOR_SET \<mapsto> ''set''])"

definition demo_decode :: "string \<Rightarrow> string + string list" where
  "demo_decode b = Ok [''grpc'', ''old'', ''grpc'']"

definition demo_codegen :: prost_codegen where
  "demo_codegen = pb_prost (pb_input ''a.proto'' (pb_include ''.'' (pb_set_out_dir ''out'' prost_codegen_new)))"

theorem prost_run_headers_witness:
  "\<exists>fs' fs''. prost_run demo_build no_faults demo_decode ''0.1'' None None demo_codegen (\<lambda>_. [''old.rs'' \<mapsto> ''x'']) = (Ok (), fs')
     \<and> prost_run demo_build no_faults demo_decode ''0.1'' None None demo_codegen fs' = (Ok (), fs'')
     \<and> fs' ''out'' ''grpc.rs'' = Some (prost_header ''0.1'' @ ''pub struct A;'') \<and> fs'' ''out'' ''grpc.rs'' = fs' ''out'' ''grpc.rs''"
proof -
  let ?new = "[''grpc.rs'' \<mapsto> ''pub struct A;'', FILE_DESCRIPTOR_SET \<mapsto> ''set'']"
  have run: "\<exists>fs'. prost_run demo_build no_faults demo_decode ''0.1'' None None demo_codegen (\<lambda>_. [''old.rs'' \<mapsto> ''x'']) = (Ok (), fs')
      \<and> fs' ''out'' ''grpc.rs'' = Some (prost_header ''0.1'' @ ''pub struct A;'')"
    by (simp add: prost_run_def prost_generate_def compile_protos_def demo_build_def demo_decode_def demo_codegen_def no_faults_def
        pb_prost_def pb_input_def pb_include_def pb_set_out_dir_def prost_codegen_new_def default_out_dir_def write_header_def
        open_file_def add_header_def clean_up_def FILE_DESCRIPTOR_SET_def)
  then obtain fs' where fs': "prost_run demo_build no_faults demo_decode ''0.1'' None None demo_codegen (\<lambda>_. [''old.rs'' \<mapsto> ''x'']) = (Ok (), fs')"
      "fs' ''out'' ''grpc.rs'' = Some (prost_header ''0.1'' @ ''pub struct A;'')" by blast
  have out: "default_out_dir (pb_out_dir demo_codegen) None None = ''out''"
    by (simp add: demo_codegen_def default_out_dir_def pb_prost_def pb_input_def pb_include_def pb_set_out_dir_def)
  have "?new ''grpc.rs'' \<noteq> None" "?new FILE_DESCRIPTOR_SET = Some ''set''" by (simp_all add: FILE_DESCRIPTOR_SET_def)
  with prost_run_headers [OF fs'(1) out [symmetric] refl, of ?new] fs' show ?thesis
    by (auto simp: demo_build_def)
qed

end
