(* ===== verification/Spec2Isabelle.thy ===== *)
theory Spec2Isabelle
  imports StreamReply SyncRpc SyncConns WinNet Addr ProstText Build
begin

text \<open>
  A verification library for \<open>ttrpc-rust\<close>, the Rust implementation of ttrpc, an RPC protocol of typed
  requests and responses over framed byte streams. The crate has a blocking and an asynchronous client
  and server over the same wire format, a framework of connection hooks and payload transforms that both
  use, and two code generators for typed stubs. Every definition translates code under \<open>src/\<close>; each theory
  opens with the files it models.

  \<^bold>\<open>How the program is modelled.\<close>
  A \<open>Result\<close> is a sum with \<open>Err\<close> and \<open>Ok\<close>, a panic is \<open>None\<close>, machine integers are words, strings are byte
  lists. State is passed explicitly in records named after the structs. Other crates, the system
  and user code (codecs, transforms, hooks, handlers, system calls, debug texts, map iteration order)
  are arguments, with contracts as locales or as named predicates in the statements. Code that waits
  returns a value of type \<open>wait\<close> or \<open>waited\<close>, in which not returning is a value of its own; loops that
  may not end are \<open>partial_function (option)\<close>, and their theorems say that they return. Concurrency is
  modelled by runs: each atomic access, channel operation or locked section is an event or a rule of a
  step relation, and a theorem speaks of every reachable state. Accesses are sequentially consistent (the blocking
  server asks for this order; \<open>shutdown.rs\<close> uses \<open>Relaxed\<close>). Operations are joined into one step only where
  what is joined is invisible to other threads or said here: a request of the asynchronous server is dispatched with its reading, the
  first message of a stream opened with data is in its channel from its registration on, and taking a request from the
  queue of the blocking client is one step with its registration.

  \<^bold>\<open>The theories and what they show.\<close>

  \<^item> \<open>Prelude\<close>: results, big-endian words, decimal and ASCII texts, splitting.
  \<^item> \<open>Wire\<close> (\<open>proto.rs\<close>, \<open>error.rs\<close>): headers, messages, statuses and errors, size checks, header codec.
  \<^item> \<open>AsyncIO\<close> (\<open>proto.rs\<close>): reading and writing frames over a byte stream. A sequence of frames is
    read back as it was written, and reading refines a specification on the bytes themselves.
  \<^item> \<open>UnixNet\<close>, \<open>SyncChannel\<close> (\<open>sync/sys/unix/net.rs\<close>, \<open>sync/channel.rs\<close>): blocking frame I/O with interrupted and
    short calls. It returns and delivers the frame however the calls are cut; reading refines its own specification on the bytes, which
    differs from that of \<open>AsyncIO\<close> for a truncated oversized frame only; the locales \<open>recv_laws\<close>
    and \<open>send_laws\<close> are its interface to the sockets.
  \<^item> \<open>WinNet\<close> (\<open>sync/sys/windows/net.rs\<close>, \<open>asynchronous/transport/windows.rs\<close>): named pipes with overlapped calls,
    interface \<open>pipe_read_laws\<close> and \<open>pipe_write_laws\<close>. Frames travel over a pipe as over a socket, waiting for a
    busy pipe ends, and an accept keeps exactly the handles of the connection it returns, but for one leak.
  \<^item> \<open>Metadata\<close> (\<open>context.rs\<close>): contexts and metadata; wire round trip and saturation of timeouts.
  \<^item> \<open>Security\<close>, \<open>Transform\<close> (\<open>security_extension.rs\<close>): hooks, connection contexts, the outbound and inbound
    pipelines, and stateful transforms that are stepped together with the send queue. Both ends
    stay in step, the guards hold, a hook cannot be bypassed, and a build without the extension does what the full one does
    without a transform, up to the waits that only the latter has.
    The contract of a transform is a locale, interpreted for the sequencing and the XOR transform.
  \<^item> \<open>Protobuf\<close> (\<open>proto.rs\<close>): the two envelope messages in protobuf's encoding, as an instance of the
    codec contract; typed requests survive framing.
  \<^item> \<open>Shutdown\<close> (\<open>asynchronous/shutdown.rs\<close>): no wakeup is lost in any interleaving.
  \<^item> \<open>Stream\<close> (\<open>asynchronous/stream.rs\<close>): a stream delivers in order and ends; closing is definitive.
  \<^item> \<open>Connection\<close> (\<open>asynchronous/connection.rs\<close>): the writer task puts only whole frames on the wire up to an
    interrupted one, of which it puts a beginning and then nothing more, and acknowledges truthfully; the reader loop over a delegate, whose contract is a
    locale interpreted by client and server.
  \<^item> \<open>AsyncClient\<close> (\<open>asynchronous/client.rs\<close>): routing, stream ids, loss of the connection, and
    that no request hangs in any interleaving.
  \<^item> \<open>AsyncServer\<close> (\<open>asynchronous/server.rs\<close>, \<open>utils.rs\<close>): dispatch and answers of a connection,
    unauthenticated frames, restarting; the tasks of data frames, each of which looks its stream up and sends to the stream's bounded channel
    after the reader has gone on.
  \<^item> \<open>Rpc\<close>: client, transforms, server and handler composed; a unary call returns what the service
    table returns, and the generated stubs add nothing to it.
  \<^item> \<open>StreamRpc\<close>: the typed stream handles of \<open>stream.rs\<close>, and a stream from the client's handle to the
    server's handler among everything else that happens on the connection: nothing is lost, duplicated or misrouted; the order is
    kept when the tasks of the frames deliver in the order of the frames, and any order can come about when they do not.
  \<^item> \<open>StreamReply\<close>: the other direction, from the handler's sends and its end (a response, a close or a failure) to the
    client's handle, among everything else that happens at both ends.
  \<^item> \<open>SyncServer\<close> (\<open>sync/server.rs\<close>, \<open>sync/utils.rs\<close>): handler threads answer once, responses reach the peer in order.
  \<^item> \<open>SyncPool\<close> (\<open>sync/server.rs\<close>): the threads of a connection, that is the pool of handler threads with its counter, the
    reader, the response thread and the main thread. The pool is bounded and replenished; once told to quit the threads
    wind down, but in some states the main thread sleeps for ever.
  \<^item> \<open>SyncConns\<close> (\<open>sync/server.rs\<close>): the accept loop, the table of connections with their threads, and the reaper. Descriptors
    are closed once and not while in use; how a shutdown ends.
  \<^item> \<open>SyncClient\<close> (\<open>sync/client.rs\<close>): routing, where a waiting request can be in any interleaving, and which
    requests are answered when the receiver ends.
  \<^item> \<open>SyncRpc\<close>: a blocking call from the client stub over the bytes of both sockets to the service function and
    back; every thread involved returns, and the call returns what the function returned.
  \<^item> \<open>Addr\<close> (\<open>common.rs\<close>, \<open>asynchronous/transport/\<close>): both parsers of addresses agree but for IPv6 and the empty
    socket path; descriptors of failed calls.
  \<^item> \<open>GenNames\<close>, \<open>GenScope\<close>, \<open>Codegen\<close> (\<open>compiler/\<close>): names, lookup of message types, generated text and the index of
    modules.
  \<^item> \<open>ProstGen\<close>, \<open>ProstSvc\<close>, \<open>ProstText\<close> (\<open>ttrpc-codegen-prost/\<close>): the other generator, as token streams. What it
    writes is well formed, and when it panics; below, that the clients and servers of each generator
    agree on the names they use.
  \<^item> \<open>Build\<close> (\<open>ttrpc-codegen/src/lib.rs\<close>, \<open>ttrpc-codegen-prost/src/codegen.rs\<close>): the front ends for build scripts, with
    the order of their steps, every failure, and the headers of generated files.

  \<^bold>\<open>Bounds.\<close>
  No theorem depends on a bound on messages, streams, threads or runs. Lengths are compared with the
  code's own limits; stream ids and lengths wrap at 32 bits as the release build does. The
  recursions on frames, names and descriptors carry measures, the retrying socket calls and the reader
  are partial functions with theorems that they return when the system makes progress.

  \<^bold>\<open>Not modelled.\<close>
  Logging; crate glue and build scripts; the protoc plugin, which only moves bytes; the protobuf parsers and
  \<open>prost-build\<close>, which the front ends call, and the \<open>proc_macro2\<close> crate, which makes identifiers and prints tokens;
  protobuf messages other than the envelope; scheduling by tokio and the operating system beyond the
  interleavings; weak memory; cancellation of a running handler at shutdown other than as the end of
  its connection.
\<close>

subsection \<open>Generated clients call what generated servers register\<close>

text \<open>
  C29: Generated code agrees with itself on the wire. In the file the compiler writes for a service,
  for every method: the client names the service and the method by two literals; the blocking server
  registers the method under exactly the path that a handler thread computes from those two (the table
  of \<open>worker_turn\<close>), and the asynchronous server registers the service and, in the table of its kind,
  the method under exactly those two (the tables of \<open>handle_request\<close>). The Prost generator uses
  the same names exactly when the schema has a package and the service's name is in camel case.
\<close>

theorem generated_paths:
  assumes "gen_file version sc c x = Some (Some out)" and "svc \<in> set (fd_service x)" and "m \<in> set (sd_method svc)"
    and "to_camel_case (sd_name svc) = Some s" and "path = fd_package x @ ''.'' @ s" and "CHR ''.'' \<notin> set (sd_name svc)"
  shows "(async_on c ClientSide \<or> method_type_of m = Unary \<longrightarrow>
        occurs (call_text (async_on c ClientSide) (method_type_of m) path (md_name m)) (gf_content out))
    \<and> (\<not> async_on c ServerSide \<longrightarrow> occurs (insert_text ''methods'' (get_path path (md_name m))) (gf_content out))
    \<and> (async_on c ServerSide \<longrightarrow> occurs (insert_text ''ret'' path) (gf_content out)
         \<and> occurs (insert_text (if method_type_of m = Unary then ''methods'' else ''streams'') (md_name m)) (gf_content out))
    \<and> (service_full_name \<lparr>ps_name = sd_name svc, ps_package = fd_package x, ps_methods = ms\<rparr> = path \<longleftrightarrow>
         fd_package x \<noteq> [] \<and> s = sd_name svc)"
proof -
  let ?g = "\<lparr>mg_proto = m, mg_package = fd_package x, mg_service = s, mg_scope = sc, mg_customize = c\<rparr>"
  obtain g where g: "service_gen_new sc c x svc = Some g" "?g \<in> set (sg_methods g)" "sg_customize g = c" "service_path g = path"
    using assms(3-5) by (auto simp: service_gen_new_def service_path_def)
  have path: "wire_service ?g = path" by (simp add: wire_service_def assms(5))
  note contains = gen_file_contains [OF assms(1,2) g(1)]
  have "occurs (call_text (async_on c ClientSide) (method_type_of m) path (md_name m)) (gf_content out)"
    if "async_on c ClientSide \<or> method_type_of m = Unary"
    using contains [OF service_client_emits [OF g(2)]] that by (simp add: g path)
  moreover have "occurs (insert_text ''methods'' (get_path path (md_name m))) (gf_content out)" if "\<not> async_on c ServerSide"
    using contains [OF service_server_emits(1) [OF g(2)]] that by (simp add: g path get_path_def)
  moreover have "occurs (insert_text ''ret'' path) (gf_content out)"
      "occurs (insert_text (if method_type_of m = Unary then ''methods'' else ''streams'') (md_name m)) (gf_content out)"
    if "async_on c ServerSide"
    using contains [OF service_server_emits(3) [OF g(2)]] contains [OF service_server_emits(2) [OF g(2)]] that
    by (simp_all add: g path)
  moreover have "service_full_name \<lparr>ps_name = sd_name svc, ps_package = fd_package x, ps_methods = ms\<rparr> = path \<longleftrightarrow>
      fd_package x \<noteq> [] \<and> s = sd_name svc"
    using wire_service_agrees [OF assms(6)] by (simp add: assms(5))
  ultimately show ?thesis by blast
qed

text \<open>The health service of the examples, generated for both blocking sides.\<close>

definition health_file :: file_desc where
  "health_file = \<lparr>fd_name = ''health.proto'', fd_package = ''grpc'',
     message_type = [Msg ''CheckRequest'' [], Msg ''HealthCheckResponse'' []],
     fd_service = [\<lparr>sd_name = ''Health'', sd_method = [\<lparr>md_name = ''Check'', input_type = ''.grpc.CheckRequest'',
       output_type = ''.grpc.HealthCheckResponse'', client_streaming = False, server_streaming = False\<rparr>]\<rparr>]\<rparr>"

definition health_scope :: root_scope where
  "health_scope = \<lparr>rs_proto_name_to_rs = plain_to_rs, file_descriptors = [health_file], files_to_generate = [''health.proto'']\<rparr>"

lemma health_generated: "\<exists>out. gen_file [] health_scope index_conf health_file = Some (Some out)"
proof -
  have names: "to_camel_case ''Health'' = Some ''Health''" "to_camel_case ''Check'' = Some ''Check''" by code_simp+
  have "find_message [health_file] ''.grpc.CheckRequest'' \<noteq> None" "find_message [health_file] ''.grpc.HealthCheckResponse'' \<noteq> None"
    by (simp_all add: find_message_def health_file_def strip_package_def)
  then have types: "find_rust_type plain_to_rs [health_file] fs ''.grpc.CheckRequest'' \<noteq> None"
      "find_rust_type plain_to_rs [health_file] fs ''.grpc.HealthCheckResponse'' \<noteq> None" for fs
    by (auto simp: find_rust_type_def plain_mod Let_def split: if_splits)
  have "\<forall>svc \<in> set (fd_service health_file). \<exists>s. service_gen_new health_scope index_conf health_file svc = Some s
      \<and> (\<forall>m \<in> set (sg_methods s). resolved m)"
    using types
    by (auto simp: service_gen_new_def health_scope_def resolved_def struct_name_def mg_input_def mg_output_def mg_rust_type_def names)
      (auto simp: health_file_def names)
  then show ?thesis
    using gen_file_total [of health_file health_scope "''health''" index_conf "[]"] plain_mod
    by (auto simp: health_scope_def health_file_def)
qed

theorem generated_paths_witness:
  "\<exists>out. gen_file [] health_scope index_conf health_file = Some (Some out)
     \<and> occurs (insert_text ''methods'' ''/grpc.Health/Check'') (gf_content out)
     \<and> occurs (call_text False Unary ''grpc.Health'' ''Check'') (gf_content out)"
proof -
  obtain out where out: "gen_file [] health_scope index_conf health_file = Some (Some out)" using health_generated by blast
  let ?svc = "hd (fd_service health_file)"
  have camel: "to_camel_case (sd_name ?svc) = Some ''Health''" unfolding health_file_def by code_simp
  have "?svc \<in> set (fd_service health_file)" "hd (sd_method ?svc) \<in> set (sd_method ?svc)" "CHR ''.'' \<notin> set (sd_name ?svc)"
    by (simp_all add: health_file_def)
  from generated_paths [OF out this(1,2) camel refl this(3)] out show ?thesis
    by (auto simp: health_file_def get_path_def async_on_def index_conf_def method_type_of_def)
qed

text \<open>
  C30: Code of the Prost generator agrees with itself on the wire. For every method of a generated service:
  the generated client names the service and the method by two literals; the blocking registration
  function inserts the method under exactly the path that a handler thread computes from those two
  (\<open>get_path\<close>, the table of \<open>worker_turn\<close>), and the asynchronous one inserts the service, and the method in the
  table of its kind, under exactly those two (the tables of \<open>handle_request\<close>). Both are in the generated text.
\<close>

theorem prost_paths:
  assumes "generate mk show_ts mode s buf = Some buf'" and "m \<in> set (ps_methods s)"
  shows "\<exists>reg cl. occurs (show_ts reg) buf' \<and> occurs (show_ts cl) buf'
    \<and> creating_service_method mk mode s = Some reg \<and> generate_client mk mode s = Some cl
    \<and> occurs [Str (service_full_name s), Tok '','', Str (pm_proto_name m)] cl
    \<and> (\<not> prost_async_on mode ServerSide \<longrightarrow>
         occurs (insert_head ''methods'' (get_path (service_full_name s) (pm_proto_name m))) reg)
    \<and> (prost_async_on mode ServerSide \<longrightarrow> occurs (insert_head ''ret'' (service_full_name s)) reg
         \<and> occurs (insert_head (if from_method m = Unary then ''methods'' else ''streams'') (pm_proto_name m)) reg)"
proof -
  obtain reg where reg: "creating_service_method mk mode s = Some reg" "occurs (show_ts reg) buf'"
    by (rule item_pushed [OF assms(1), of "creating_service_method mk mode s"]) (auto simp: items_def)
  obtain cl where cl: "generate_client mk mode s = Some cl" "occurs (show_ts cl) buf'"
    by (rule item_pushed [OF assms(1), of "generate_client mk mode s"]) (auto simp: items_def)
  have path: "get_path (service_full_name s) (pm_proto_name m) = method_path s m" by (simp add: get_path_def method_path_def)
  from creating_contains [OF assms(2), of mode mk] client_contains [OF assms(2), of mk mode] reg cl show ?thesis
    unfolding path by (auto simp: contains_def wire_tokens_def)
qed

theorem prost_paths_witness:
  "\<exists>buf reg. generate plain_ident plain_show AsyncNone (hd test_services) [] = Some buf \<and> occurs (plain_show reg) buf
     \<and> occurs (insert_head ''methods'' ''/test.pkg.Foo/Get'') reg"
proof -
  let ?s = "hd test_services" and ?m = "hd (ps_methods (hd test_services))"
  have ok: "service_ok ?s" "\<not> prost_has_stream_method ?s" and mode: "\<not> prost_async_on AsyncNone ServerSide"
    and path: "get_path (service_full_name ?s) (pm_proto_name ?m) = ''/test.pkg.Foo/Get''" by code_simp+
  obtain buf where buf: "generate plain_ident plain_show AsyncNone ?s [] = Some buf"
    using generate_iff [OF plain_ident_maker ok(1)] ok(2) by blast
  have "?m \<in> set (ps_methods ?s)" by (simp add: test_services_def test_service_def)
  from prost_paths [OF buf this] mode path buf show ?thesis by auto
qed

end
